(* ===== verification/Bius_Prelude.thy ===== *)
theory Bius_Prelude
  imports Main "HOL-Library.Word" "HOL-Library.Monad_Syntax"
begin

text \<open>
  Shared vocabulary of the development: the machine types the C sources use, the lemma
  collections the component theories fill, and generic facts on byte ranges and lists.
  Undefined behaviour of the C code (an access through a null or dangling pointer, a copy
  outside an object, the use of the inactive part of a union) is the value \<open>None\<close> of an
  \<open>option\<close> result throughout.
\<close>

section \<open>Machine types\<close>

type_synonym byte = "8 word"
type_synonym u8 = "8 word"
type_synonym u32 = "32 word"
type_synonym u64 = "64 word"

text \<open>Kernel objects are named by their address in an explicit store.\<close>

type_synonym ptr = nat

section \<open>Lemma collections\<close>

named_theorems bius_const \<open>numeric constants of the headers\<close>
named_theorems bius_sel \<open>what an operation does to one field of the state\<close>
named_theorems bius_inv \<open>operations that keep an invariant\<close>

section \<open>Byte ranges\<close>

text \<open>
  \<open>bytes_at off n xs\<close> is the range of \<open>n\<close> elements at \<open>off\<close>; \<open>blit dst off src\<close> overwrites
  the range at \<open>off\<close> with \<open>src\<close>, the effect of \<open>memcpy(dst + off, src, length src)\<close> on an
  object that holds the range.
\<close>

definition bytes_at :: "nat \<Rightarrow> nat \<Rightarrow> 'a list \<Rightarrow> 'a list" where
  "bytes_at off n xs = take n (drop off xs)"

definition blit :: "'a list \<Rightarrow> nat \<Rightarrow> 'a list \<Rightarrow> 'a list" where
  "blit dst off src = take off dst @ src @ drop (off + length src) dst"

text \<open>
  Address-indexed memory: reading \<open>n\<close> bytes at an address, and storing bytes at one.
\<close>

type_synonym mem = "nat \<Rightarrow> byte"

definition mem_read :: "mem \<Rightarrow> nat \<Rightarrow> nat \<Rightarrow> byte list" where
  "mem_read m a n = map m [a ..< a + n]"

definition mem_write :: "mem \<Rightarrow> nat \<Rightarrow> byte list \<Rightarrow> mem" where
  "mem_write m a bs = (\<lambda>x. if a \<le> x \<and> x < a + length bs then bs ! (x - a) else m x)"

text \<open>\<^verbatim>\<open>memset\<close> and \<^verbatim>\<open>memcpy\<close> on such a memory; the ranges of a \<^verbatim>\<open>memcpy\<close> do not overlap.\<close>

definition mem_set :: "mem \<Rightarrow> nat \<Rightarrow> nat \<Rightarrow> byte \<Rightarrow> mem" where
  "mem_set m a n v = (\<lambda>x. if a \<le> x \<and> x < a + n then v else m x)"

definition mem_copy :: "mem \<Rightarrow> nat \<Rightarrow> nat \<Rightarrow> nat \<Rightarrow> mem" where
  "mem_copy m dest src n = (\<lambda>x. if dest \<le> x \<and> x < dest + n then m (src + (x - dest)) else m x)"

text \<open>Subtraction on a 64-bit unsigned quantity kept as a natural number.\<close>

definition usub64 :: "nat \<Rightarrow> nat \<Rightarrow> nat" where
  "usub64 a b = (a + 2 ^ 64 - b) mod 2 ^ 64"

text \<open>C integer division truncates towards zero.\<close>

definition c_div :: "int \<Rightarrow> int \<Rightarrow> int" where
  "c_div a b = sgn a * sgn b * (\<bar>a\<bar> div \<bar>b\<bar>)"

text \<open>The value of a 64-bit quantity stored into a 32-bit signed \<open>int\<close>.\<close>

definition to_c_int :: "int \<Rightarrow> int" where
  "to_c_int x = sint (word_of_int x :: u32)"

lemma length_bytes_at [simp]: "length (bytes_at off n xs) = min n (length xs - off)"
  by (simp add: bytes_at_def min.commute)

lemma bytes_at_zero [simp]: "bytes_at off 0 xs = []"
  by (simp add: bytes_at_def)

lemma bytes_at_all [simp]: "bytes_at 0 (length xs) xs = xs"
  by (simp add: bytes_at_def)

lemma bytes_at_append:
  "bytes_at off m xs @ bytes_at (off + m) n xs = bytes_at off (m + n) xs"
  by (simp add: bytes_at_def take_add add.commute)

lemma nth_bytes_at [simp]:
  "i < n \<Longrightarrow> off + i < length xs \<Longrightarrow> bytes_at off n xs ! i = xs ! (off + i)"
  by (simp add: bytes_at_def)

lemma length_blit [simp]:
  "off + length src \<le> length dst \<Longrightarrow> length (blit dst off src) = length dst"
  by (simp add: blit_def)

lemma blit_Nil [simp]: "off \<le> length dst \<Longrightarrow> blit dst off [] = dst"
  by (simp add: blit_def)

lemma bytes_at_blit_same [simp]:
  "off + length src \<le> length dst \<Longrightarrow> bytes_at off (length src) (blit dst off src) = src"
  by (simp add: bytes_at_def blit_def)

lemma nth_blit:
  assumes "off + length src \<le> length dst" "i < length dst"
  shows "blit dst off src ! i =
    (if off \<le> i \<and> i < off + length src then src ! (i - off) else dst ! i)"
  using assms by (auto simp: blit_def nth_append min_def)

lemma bytes_at_blit_disjoint:
  assumes "off + length src \<le> length dst" "o' + n \<le> off \<or> off + length src \<le> o'"
  shows "bytes_at o' n (blit dst off src) = bytes_at o' n dst"
proof (rule nth_equalityI)
  show "length (bytes_at o' n (blit dst off src)) = length (bytes_at o' n dst)"
    using assms by simp
next
  fix i assume "i < length (bytes_at o' n (blit dst off src))"
  then show "bytes_at o' n (blit dst off src) ! i = bytes_at o' n dst ! i"
    using assms by (auto simp: nth_blit)
qed

lemma length_mem_read [simp]: "length (mem_read m a n) = n"
  by (simp add: mem_read_def)

lemma mem_read_add: "mem_read m a (i + j) = mem_read m a i @ mem_read m (a + i) j"
  using upt_add_eq_append [of a "a + i" j]
  by (simp add: mem_read_def add.assoc flip: map_append)

lemma take_mem_read: "k \<le> n \<Longrightarrow> take k (mem_read m a n) = mem_read m a k"
  by (simp add: mem_read_def take_map take_upt)

lemma mem_read_write_same [simp]: "mem_read (mem_write m a bs) a (length bs) = bs"
  by (rule nth_equalityI) (auto simp: mem_read_def mem_write_def)

lemma mem_read_write_disjoint:
  "a' + n \<le> a \<or> a + length bs \<le> a' \<Longrightarrow> mem_read (mem_write m a bs) a' n = mem_read m a' n"
  by (auto simp: mem_read_def mem_write_def)

lemma mem_write_outside: "x < a \<or> a + length bs \<le> x \<Longrightarrow> mem_write m a bs x = m x"
  by (auto simp: mem_write_def)

lemma mem_write_Nil [simp]: "mem_write m a [] = m"
  by (rule ext) (auto simp: mem_write_def)

lemma mem_write_append:
  "mem_write (mem_write m a xs) (a + length xs) ys = mem_write m a (xs @ ys)"
  by (auto simp: mem_write_def fun_eq_iff nth_append)

lemma usub64_exact: "b \<le> a \<Longrightarrow> a < 2 ^ 64 \<Longrightarrow> usub64 a b = a - b"
  by (simp add: usub64_def mod_if)

lemma c_div_nonneg: "0 \<le> a \<Longrightarrow> 0 < b \<Longrightarrow> c_div a b = a div b"
  by (simp add: c_div_def sgn_if)

lemma to_c_int_small: "- (2 ^ 31) \<le> x \<Longrightarrow> x < 2 ^ 31 \<Longrightarrow> to_c_int x = x"
  by (simp add: to_c_int_def signed_of_int signed_take_bit_int_eq_self)

section \<open>Lists of distinct pointers\<close>

lemma distinct_map_remove1: "distinct (map f xs) \<Longrightarrow> distinct (map f (remove1 x xs))"
  by (induction xs) (auto dest!: set_remove1_subset [THEN subsetD])

lemma set_remove1_distinct: "distinct xs \<Longrightarrow> set (remove1 x xs) = set xs - {x}"
  by (rule set_remove1_eq)

lemma find_Some_in_set: "List.find P xs = Some x \<Longrightarrow> x \<in> set xs \<and> P x"
  by (auto simp: find_Some_iff)

lemma option_bind_SomeD: "Option.bind m f = Some y \<Longrightarrow> \<exists>x. m = Some x \<and> f x = Some y"
  by (cases m) auto

text \<open>Stepping a counter that is not at its limit.\<close>

lemma unat_inc: "(x :: 'a::len word) \<noteq> - 1 \<Longrightarrow> unat (x + 1) = Suc (unat x)"
  by (metis add.commute add_eq_0_iff2 diff_eq_eq minus_diff_eq uminus_add_conv_diff unatSuc)

lemma unat_inc_less: "(x :: 'a::len word) < y \<Longrightarrow> unat (x + 1) = Suc (unat x)"
  using word_n1_ge [of y] by (intro unat_inc) (auto dest: leD)

lemma unat_dec: "0 < unat (x :: 'a::len word) \<Longrightarrow> unat (x - 1) = unat x - 1"
  by (rule unat_minus_one) auto

lemma word_inc_le: "(x :: 'a::len word) < y \<Longrightarrow> x + 1 \<le> y"
  by (simp add: word_le_nat_alt word_less_nat_alt unat_inc_less)

lemma word_dec_le: "0 < unat (x :: 'a::len word) \<Longrightarrow> x \<le> y \<Longrightarrow> x - 1 \<le> y"
  by (simp add: word_le_nat_alt unat_dec)

end
