(* ===== verification/Bius_Types.thy ===== *)
theory Bius_Types
  imports Bius_Prelude
begin

text \<open>
  The interface headers shared by the kernel module and the user library
  (\<^verbatim>\<open>include/bius/*.h\<close>): the request opcodes and their classification, the block status
  codes, the data map types, the two message headers that cross \<^verbatim>\<open>/dev/bius\<close> and the
  device options. An enumeration is a datatype; a C enum object can hold a value outside
  its enumerators, so the opcode has an extra constructor for those values, and
  \<open>bius_req_of_code\<close> is the cast \<^verbatim>\<open>(bius_req_t)op\<close>.
\<close>

section \<open>Request types (request_type.h)\<close>

datatype bius_req =
    BIUS_CREATE
  | BIUS_CONNECT
  | BIUS_READ
  | BIUS_WRITE
  | BIUS_DISCARD
  | BIUS_IOCTL
  | BIUS_FLUSH
  | BIUS_REPORT_ZONES
  | BIUS_ZONE_OPEN
  | BIUS_ZONE_CLOSE
  | BIUS_ZONE_FINISH
  | BIUS_ZONE_APPEND
  | BIUS_ZONE_RESET
  | BIUS_ZONE_RESET_ALL
  | BIUS_REQ_OTHER u32

fun bius_req_code :: "bius_req \<Rightarrow> u32" where
  "bius_req_code BIUS_CREATE = 0"
| "bius_req_code BIUS_CONNECT = 1"
| "bius_req_code BIUS_READ = 2"
| "bius_req_code BIUS_WRITE = 3"
| "bius_req_code BIUS_DISCARD = 4"
| "bius_req_code BIUS_IOCTL = 5"
| "bius_req_code BIUS_FLUSH = 6"
| "bius_req_code BIUS_REPORT_ZONES = 9"
| "bius_req_code BIUS_ZONE_OPEN = 10"
| "bius_req_code BIUS_ZONE_CLOSE = 11"
| "bius_req_code BIUS_ZONE_FINISH = 12"
| "bius_req_code BIUS_ZONE_APPEND = 13"
| "bius_req_code BIUS_ZONE_RESET = 15"
| "bius_req_code BIUS_ZONE_RESET_ALL = 17"
| "bius_req_code (BIUS_REQ_OTHER c) = c"

definition bius_req_enumerators :: "bius_req list" where
  "bius_req_enumerators =
     [BIUS_CREATE, BIUS_CONNECT, BIUS_READ, BIUS_WRITE, BIUS_DISCARD, BIUS_IOCTL, BIUS_FLUSH,
      BIUS_REPORT_ZONES, BIUS_ZONE_OPEN, BIUS_ZONE_CLOSE, BIUS_ZONE_FINISH, BIUS_ZONE_APPEND,
      BIUS_ZONE_RESET, BIUS_ZONE_RESET_ALL]"

definition bius_req_of_code :: "u32 \<Rightarrow> bius_req" where
  "bius_req_of_code c =
     (case List.find (\<lambda>r. bius_req_code r = c) bius_req_enumerators of
        Some r \<Rightarrow> r
      | None \<Rightarrow> BIUS_REQ_OTHER c)"

definition BIUS_INVALID_OP :: bius_req where
  "BIUS_INVALID_OP = bius_req_of_code (- 1)"

definition is_blk_request :: "bius_req \<Rightarrow> bool" where
  "is_blk_request type = (type \<noteq> BIUS_REPORT_ZONES)"

definition request_may_have_data :: "bius_req \<Rightarrow> bool" where
  "request_may_have_data type =
     (type = BIUS_READ \<or> type = BIUS_WRITE \<or> type = BIUS_ZONE_APPEND)"

definition request_is_write :: "bius_req \<Rightarrow> bool" where
  "request_is_write type = (type = BIUS_WRITE \<or> type = BIUS_ZONE_APPEND)"

section \<open>Status codes (blk_status.h)\<close>

type_synonym blk_status = u32

definition BLK_STS_OK :: blk_status where [bius_const]: "BLK_STS_OK = 0"
definition BLK_STS_NOTSUPP :: blk_status where [bius_const]: "BLK_STS_NOTSUPP = 1"
definition BLK_STS_IOERR :: blk_status where [bius_const]: "BLK_STS_IOERR = 10"
definition BLK_STS_ZONE_OPEN_RESOURCE :: blk_status
  where [bius_const]: "BLK_STS_ZONE_OPEN_RESOURCE = 15"
definition BLK_STS_ZONE_ACTIVE_RESOURCE :: blk_status
  where [bius_const]: "BLK_STS_ZONE_ACTIVE_RESOURCE = 16"

text \<open>
  Inside the kernel \<^verbatim>\<open>blk_status_t\<close> is an unsigned byte; storing a wider value into it keeps
  the low eight bits.
\<close>

type_synonym kblk_status = u8

section \<open>Data map types (map_type.h)\<close>

datatype data_map_type =
  BIUS_DATAMAP_UNMAPPED | BIUS_DATAMAP_SIMPLE | BIUS_DATAMAP_LIST

section \<open>Configuration (config.h, connection.h, libbius.h)\<close>

definition SECTOR_SIZE :: nat where [bius_const]: "SECTOR_SIZE = 512"
definition PAGE_SIZE :: nat where [bius_const]: "PAGE_SIZE = 4096"
definition BIUS_MAX_SEGMENTS :: nat where [bius_const]: "BIUS_MAX_SEGMENTS = 256"
definition BIUS_MAX_SIZE_PER_COMMAND :: nat
  where [bius_const]: "BIUS_MAX_SIZE_PER_COMMAND = 128 * 1024 * 1024"
definition BIUS_PTES_PER_COMMAND :: nat
  where [bius_const]: "BIUS_PTES_PER_COMMAND = BIUS_MAX_SIZE_PER_COMMAND div PAGE_SIZE"
definition BIUS_MAX_ZONE_SECTORS :: nat
  where [bius_const]: "BIUS_MAX_ZONE_SECTORS = (1 * 1024 * 1024 * 1024) div 2 ^ 9"
definition BIUS_MAX_ZONES :: nat where [bius_const]: "BIUS_MAX_ZONES = 128 * 1024"
definition BIUS_MAP_DATA_THRESHOLD :: nat
  where [bius_const]: "BIUS_MAP_DATA_THRESHOLD = 128 * 1024"
definition BIUS_NUM_RESERVED_PAGES :: nat
  where [bius_const]: "BIUS_NUM_RESERVED_PAGES = BIUS_MAX_SEGMENTS + 2"

section \<open>Message headers and device options (command_header.h)\<close>

record bius_k2u_header =
  k2u_id :: u64
  k2u_opcode :: bius_req
  k2u_offset :: u64
  k2u_length :: u64
  k2u_data_address :: u64
  k2u_mapping_data :: u64
  k2u_data_map_type :: data_map_type

text \<open>
  The reply header holds a union: the signed 64-bit \<open>reply\<close> of an answer overlays the pair
  \<open>u2k_type\<close>, \<open>u2k_length\<close> of an initialisation message, the type in the low half of the
  little-endian word.
\<close>

record bius_u2k_header =
  u2k_id :: u64
  u2k_union :: u64
  u2k_user_data :: u64

definition u2k_reply :: "bius_u2k_header \<Rightarrow> int" where
  "u2k_reply h = sint (u2k_union h)"

definition u2k_type :: "bius_u2k_header \<Rightarrow> u32" where
  "u2k_type h = ucast (u2k_union h)"

definition u2k_length :: "bius_u2k_header \<Rightarrow> u32" where
  "u2k_length h = ucast (drop_bit 32 (u2k_union h))"

definition u2k_reply_union :: "int \<Rightarrow> u64" where
  "u2k_reply_union r = word_of_int r"

definition u2k_init_union :: "u32 \<Rightarrow> u32 \<Rightarrow> u64" where
  "u2k_init_union ty len = or (ucast ty) (push_bit 32 (ucast len))"

text \<open>\<open>sizeof\<close> of the two headers and of the kernel's zone descriptor on a 64-bit target.\<close>

definition SIZEOF_K2U_HEADER :: nat where [bius_const]: "SIZEOF_K2U_HEADER = 56"
definition SIZEOF_U2K_HEADER :: nat where [bius_const]: "SIZEOF_U2K_HEADER = 24"
definition SIZEOF_BLK_ZONE :: nat where [bius_const]: "SIZEOF_BLK_ZONE = 64"

datatype blk_zoned_model = BLK_ZONED_NONE | BLK_ZONED_HA | BLK_ZONED_HM | BLK_ZONED_OTHER u32

definition blk_zoned_model_of_code :: "u32 \<Rightarrow> blk_zoned_model" where
  "blk_zoned_model_of_code c =
     (if c = 0 then BLK_ZONED_NONE else if c = 1 then BLK_ZONED_HA
      else if c = 2 then BLK_ZONED_HM else BLK_ZONED_OTHER c)"

definition MAX_DISK_NAME_LEN :: nat where [bius_const]: "MAX_DISK_NAME_LEN = 32"

record bius_block_device_options =
  opt_model :: blk_zoned_model
  opt_num_threads :: u32
  opt_disk_size :: u64
  opt_max_open_zones :: u32
  opt_max_active_zones :: u32
  opt_disk_name :: "byte list"

text \<open>
  The options cross from the user process as the bytes of the structure: the little-endian
  fields at their offsets on a 64-bit target, 56 bytes in all.
\<close>

fun le_nat :: "byte list \<Rightarrow> nat" where
  "le_nat [] = 0"
| "le_nat (b # bs) = unat b + 256 * le_nat bs"

definition SIZEOF_OPTIONS :: nat where [bius_const]: "SIZEOF_OPTIONS = 56"

definition options_of_bytes :: "byte list \<Rightarrow> bius_block_device_options" where
  "options_of_bytes bs =
     \<lparr>opt_model = blk_zoned_model_of_code (of_nat (le_nat (bytes_at 0 4 bs))),
      opt_num_threads = of_nat (le_nat (bytes_at 4 4 bs)),
      opt_disk_size = of_nat (le_nat (bytes_at 8 8 bs)),
      opt_max_open_zones = of_nat (le_nat (bytes_at 16 4 bs)),
      opt_max_active_zones = of_nat (le_nat (bytes_at 20 4 bs)),
      opt_disk_name = bytes_at 24 MAX_DISK_NAME_LEN bs\<rparr>"

section \<open>Facts on the interface\<close>

lemma bius_req_code_enumerators_distinct: "distinct (map bius_req_code bius_req_enumerators)"
  by (simp add: bius_req_enumerators_def)

lemma bius_req_of_code_enumerator:
  "r \<in> set bius_req_enumerators \<Longrightarrow> bius_req_of_code (bius_req_code r) = r"
  by (auto simp: bius_req_of_code_def bius_req_enumerators_def)

lemma bius_req_code_of_code: "bius_req_code (bius_req_of_code c) = c"
  by (auto simp: bius_req_of_code_def dest: find_Some_in_set split: option.split)

lemma BIUS_INVALID_OP_eq: "BIUS_INVALID_OP = BIUS_REQ_OTHER 0xFFFFFFFF"
  by (simp add: BIUS_INVALID_OP_def bius_req_of_code_def bius_req_enumerators_def)

lemma BIUS_INVALID_OP_classes [simp]:
  "is_blk_request BIUS_INVALID_OP" "\<not> request_may_have_data BIUS_INVALID_OP"
  by (simp_all add: BIUS_INVALID_OP_eq is_blk_request_def request_may_have_data_def)

lemma write_has_data: "request_is_write t \<Longrightarrow> request_may_have_data t \<and> is_blk_request t"
  by (auto simp: request_is_write_def request_may_have_data_def is_blk_request_def)

lemma u2k_reply_roundtrip:
  "- (2 ^ 63) \<le> r \<Longrightarrow> r < 2 ^ 63 \<Longrightarrow> u2k_union h = u2k_reply_union r \<Longrightarrow> u2k_reply h = r"
  by (simp add: u2k_reply_def u2k_reply_union_def signed_of_int signed_take_bit_int_eq_self)

lemma u2k_init_type: "u2k_union h = u2k_init_union ty len \<Longrightarrow> u2k_type h = ty"
  by (rule bit_word_eqI)
    (auto simp: u2k_type_def u2k_init_union_def bit_simps)

lemma u2k_init_length: "u2k_union h = u2k_init_union ty len \<Longrightarrow> u2k_length h = len"
  by (rule bit_word_eqI)
    (auto simp: u2k_length_def u2k_init_union_def bit_simps dest: bit_imp_le_length)

end
