(* ===== verification/Bius_Request.thy ===== *)
theory Bius_Request
  imports Bius_Types
begin

text \<open>
  The objects of the kernel module and the request helpers: \<^verbatim>\<open>struct bius_request\<close>
  (request.h), \<^verbatim>\<open>struct bius_connection\<close> (connection.h), \<^verbatim>\<open>struct bius_block_device\<close>
  (block_dev.h) and the state the module shares. Objects live in an explicit store indexed by
  their address, so that the same request can be on a list and be the \<open>sending\<close> request of a
  connection. The spinlocks serialise the accesses they guard and have no field here.
  A request is the private area of a block-layer \<^verbatim>\<open>struct request\<close>: both have one address.
  The chain of bios that \<^verbatim>\<open>request->bio\<close> points to is a list, the empty list for a null pointer;
  a bio itself is of a type of the kernel and stays abstract (\<open>'bio\<close>).
\<close>

section \<open>Error numbers\<close>

definition ENOENT :: int where [bius_const]: "ENOENT = 2"
definition EINTR :: int where [bius_const]: "EINTR = 4"
definition EIO :: int where [bius_const]: "EIO = 5"
definition ENOMEM :: int where [bius_const]: "ENOMEM = 12"
definition EBUSY :: int where [bius_const]: "EBUSY = 16"
definition EINVAL :: int where [bius_const]: "EINVAL = 22"
definition ERESTARTSYS :: int where [bius_const]: "ERESTARTSYS = 512"

section \<open>Requests (request.h)\<close>

record 'bio blk_part =
  req_bio :: "'bio list"
  req_map_data :: nat
  req_mapped_size :: nat
  req_map_type :: data_map_type
  req_blk_result :: kblk_status

record int_part =
  req_data :: "byte list"
  req_sem :: nat
  req_int_result :: int

text \<open>
  The two anonymous structs of the union share storage. The model keeps the part that was
  initialised; reaching for a field of the other part is undefined (\<open>None\<close>).
\<close>

datatype 'bio req_union = Blk_part "'bio blk_part" | Int_part int_part

datatype request_end_fn = Blk_request_end | Report_zones_request_end

record 'bio bius_request =
  req_id :: u64
  req_type :: bius_req
  req_pos :: u64
  req_length :: nat
  req_union :: "'bio req_union"
  on_request_end :: request_end_fn

fun blk_part_of :: "'bio req_union \<Rightarrow> 'bio blk_part option" where
  "blk_part_of (Blk_part b) = Some b"
| "blk_part_of (Int_part i) = None"

fun int_part_of :: "'bio req_union \<Rightarrow> int_part option" where
  "int_part_of (Blk_part b) = None"
| "int_part_of (Int_part i) = Some i"

definition blk_fields :: "'bio bius_request \<Rightarrow> 'bio blk_part option" where
  "blk_fields r = blk_part_of (req_union r)"

definition int_fields :: "'bio bius_request \<Rightarrow> int_part option" where
  "int_fields r = int_part_of (req_union r)"

definition set_blk_fields :: "'bio blk_part \<Rightarrow> 'bio bius_request \<Rightarrow> 'bio bius_request" where
  "set_blk_fields b r = r\<lparr>req_union := Blk_part b\<rparr>"

definition set_int_fields :: "int_part \<Rightarrow> 'bio bius_request \<Rightarrow> 'bio bius_request" where
  "set_int_fields i r = r\<lparr>req_union := Int_part i\<rparr>"

section \<open>Connections, devices and the shared state (connection.h, block_dev.h)\<close>

record vm_area =
  vm_start :: nat
  vm_end :: nat

text \<open>
  \<open>cn_ptes\<close> gives the frame that the page-table entry \<^verbatim>\<open>connection->ptes[i]\<close> of the mapped
  area points to, \<open>None\<close> where the array holds no valid entry; \<open>cn_mapping_list\<close> and \<open>cn_reserve_list\<close> are the arrays the code keeps in the first two
  reserved pages. All four, and \<open>cn_vma\<close>, exist with \<^verbatim>\<open>CONFIG_BIUS_DATAMAP\<close> only.
\<close>

record bius_connection =
  cn_block_dev :: "ptr option"
  cn_waiting :: "ptr list"
  cn_sending :: "ptr option"
  cn_vma :: "vm_area option"
  cn_ptes :: "nat \<Rightarrow> nat option"
  cn_reserved_pages :: nat
  cn_reserved_pages_pfn :: nat
  cn_mapping_list :: "nat \<Rightarrow> nat"
  cn_reserve_list :: "nat \<Rightarrow> nat"

record queue_limits =
  ql_discard_granularity :: nat
  ql_discard_alignment :: nat
  ql_max_discard_sectors :: nat
  ql_max_segments :: nat
  ql_max_dev_sectors :: nat
  ql_max_hw_sectors :: nat
  ql_chunk_sectors :: nat
  ql_io_min :: nat
  ql_zoned :: "blk_zoned_model"
  ql_max_zone_append_sectors :: nat
  ql_max_open_zones :: u32
  ql_max_active_zones :: u32

record blk_mq_tag_set =
  ts_nr_hw_queues :: nat
  ts_queue_depth :: nat
  ts_driver_data :: ptr

record bius_block_device =
  bd_major :: int
  bd_disk_name :: "byte list"
  bd_capacity :: u64
  bd_tag_set :: blk_mq_tag_set
  bd_limits :: queue_limits
  bd_model :: blk_zoned_model
  bd_num_connection :: u32
  bd_pending :: "ptr list"

text \<open>The fields of the block layer's \<^verbatim>\<open>struct request\<close> that the driver reads or writes.\<close>

record 'bio rq =
  rq_op :: u32
  rq_sector :: u64
  rq_bytes :: nat
  rq_bio :: "'bio list"
  rq_bio_sector :: u64

text \<open>
  The module's state. \<open>ks_ended\<close> records, oldest first, the calls of \<^verbatim>\<open>blk_mq_end_request\<close>:
  the answers the block layer has received. \<open>ks_revalidating\<close> lists the devices for which a
  zone revalidation thread was started.
\<close>

record 'bio kstate =
  ks_next_request_id :: u64
  ks_all_disk_list :: "ptr list"
  ks_devs :: "ptr \<Rightarrow> bius_block_device option"
  ks_conns :: "ptr \<Rightarrow> bius_connection option"
  ks_reqs :: "ptr \<Rightarrow> 'bio bius_request option"
  ks_rqs :: "ptr \<Rightarrow> 'bio rq option"
  ks_mem :: mem
  ks_ended :: "(ptr \<times> kblk_status) list"
  ks_revalidating :: "ptr list"

definition init_bius_connection :: "bius_connection \<Rightarrow> bius_connection" where
  "init_bius_connection c = c\<lparr>cn_waiting := [], cn_vma := None, cn_sending := None\<rparr>"

definition init_bius_block_device :: "bius_block_device \<Rightarrow> bius_block_device" where
  "init_bius_block_device d = d\<lparr>bd_num_connection := 0, bd_pending := []\<rparr>"

definition put_req :: "ptr \<Rightarrow> 'bio bius_request \<Rightarrow> 'bio kstate \<Rightarrow> 'bio kstate" where
  "put_req p r s = s\<lparr>ks_reqs := (ks_reqs s)(p \<mapsto> r)\<rparr>"

definition put_conn :: "ptr \<Rightarrow> bius_connection \<Rightarrow> 'bio kstate \<Rightarrow> 'bio kstate" where
  "put_conn p c s = s\<lparr>ks_conns := (ks_conns s)(p \<mapsto> c)\<rparr>"

definition put_dev :: "ptr \<Rightarrow> bius_block_device \<Rightarrow> 'bio kstate \<Rightarrow> 'bio kstate" where
  "put_dev p d s = s\<lparr>ks_devs := (ks_devs s)(p \<mapsto> d)\<rparr>"

definition put_rq :: "ptr \<Rightarrow> 'bio rq \<Rightarrow> 'bio kstate \<Rightarrow> 'bio kstate" where
  "put_rq p q s = s\<lparr>ks_rqs := (ks_rqs s)(p \<mapsto> q)\<rparr>"

section \<open>Request helpers (request.h, and the callbacks of block_dev.c they call)\<close>

text \<open>The call \<^verbatim>\<open>blk_mq_end_request(rq, status)\<close> hands the answer to the block layer.\<close>

definition blk_mq_end_request :: "ptr \<Rightarrow> kblk_status \<Rightarrow> 'bio kstate \<Rightarrow> 'bio kstate" where
  "blk_mq_end_request p st s = s\<lparr>ks_ended := ks_ended s @ [(p, st)]\<rparr>"

definition bius_blk_request_end :: "ptr \<Rightarrow> 'bio kstate \<Rightarrow> 'bio kstate option" where
  "bius_blk_request_end p s = do {
     request \<leftarrow> ks_reqs s p;
     b \<leftarrow> blk_fields request;
     rq \<leftarrow> ks_rqs s p;
     s \<leftarrow> (if req_type request = BIUS_ZONE_APPEND
           then (if rq_bio rq = [] then None
                 else Some (put_rq p (rq\<lparr>rq_bio_sector :=
                        word_of_int (c_div (sint (req_pos request)) (int SECTOR_SIZE))\<rparr>) s))
           else Some s);
     Some (blk_mq_end_request p (req_blk_result b) s)
   }"

definition bius_report_zones_request_end :: "ptr \<Rightarrow> 'bio kstate \<Rightarrow> 'bio kstate option" where
  "bius_report_zones_request_end p s = do {
     request \<leftarrow> ks_reqs s p;
     i \<leftarrow> int_fields request;
     Some (put_req p (set_int_fields (i\<lparr>req_sem := req_sem i + 1\<rparr>) request) s)
   }"

definition run_request_end :: "ptr \<Rightarrow> 'bio kstate \<Rightarrow> 'bio kstate option" where
  "run_request_end p s = do {
     request \<leftarrow> ks_reqs s p;
     (case on_request_end request of
        Blk_request_end \<Rightarrow> bius_blk_request_end p s
      | Report_zones_request_end \<Rightarrow> bius_report_zones_request_end p s)
   }"

text \<open>
  The status is a member of the block part of the union; writing it to the request of a zone report
  is use of the other part, and undefined here.
\<close>

definition end_blk_request :: "ptr \<Rightarrow> kblk_status \<Rightarrow> 'bio kstate \<Rightarrow> 'bio kstate option" where
  "end_blk_request p result s = do {
     request \<leftarrow> ks_reqs s p;
     b \<leftarrow> blk_fields request;
     run_request_end p (put_req p (set_blk_fields (b\<lparr>req_blk_result := result\<rparr>) request) s)
   }"

definition end_request_int :: "ptr \<Rightarrow> int \<Rightarrow> 'bio kstate \<Rightarrow> 'bio kstate option" where
  "end_request_int p result s = do {
     request \<leftarrow> ks_reqs s p;
     i \<leftarrow> int_fields request;
     run_request_end p (put_req p (set_int_fields (i\<lparr>req_int_result := result\<rparr>) request) s)
   }"

text \<open>
  \<open>get_request_by_id\<close> walks the list from its head. The outer \<open>None\<close> is a list entry that
  points to no request, the inner one the null pointer returned when no identifier matches.
\<close>

fun get_request_by_id ::
  "(ptr \<Rightarrow> 'bio bius_request option) \<Rightarrow> ptr list \<Rightarrow> u64 \<Rightarrow> ptr option option" where
  "get_request_by_id reqs [] i = Some None"
| "get_request_by_id reqs (p # ps) i =
     (case reqs p of
        None \<Rightarrow> None
      | Some r \<Rightarrow> if req_id r = i then Some (Some p) else get_request_by_id reqs ps i)"

definition request_io_done :: "'bio bius_request \<Rightarrow> bool option" where
  "request_io_done request = do {
     b \<leftarrow> blk_fields request;
     Some (if req_map_type b \<noteq> BIUS_DATAMAP_UNMAPPED then True else req_map_data b = 0)
   }"


section \<open>Lemmas\<close>

lemma get_request_by_id_in_list:
  "get_request_by_id reqs ps i = Some (Some p) \<Longrightarrow> p \<in> set ps \<and> (\<exists>r. reqs p = Some r \<and> req_id r = i)"
  by (induction ps) (auto split: option.splits if_splits)

lemma get_request_by_id_none:
  "get_request_by_id reqs ps i = Some None \<Longrightarrow> p \<in> set ps \<Longrightarrow> reqs p = Some r \<Longrightarrow> req_id r \<noteq> i"
  by (induction ps) (auto split: option.splits if_splits)

lemma get_request_by_id_defined:
  "\<forall>p \<in> set ps. reqs p \<noteq> None \<Longrightarrow> \<exists>q. get_request_by_id reqs ps i = Some q"
  by (induction ps) (auto split: option.splits)

text \<open>On a list whose identifiers differ, the lookup is the inverse of reading the identifier.\<close>

lemma get_request_by_id_unique:
  assumes "\<forall>p \<in> set ps. reqs p \<noteq> None" "distinct (map (\<lambda>p. map_option req_id (reqs p)) ps)"
    and "p \<in> set ps" "reqs p = Some r"
  shows "get_request_by_id reqs ps (req_id r) = Some (Some p)"
  using assms
proof (induction ps)
  case (Cons q ps)
  show ?case
  proof (cases "p = q")
    case False
    with Cons.prems have "p \<in> set ps" by simp
    moreover from this Cons.prems have "map_option req_id (reqs q) \<noteq> Some (req_id r)"
      by (auto simp: image_iff)
    ultimately show ?thesis using Cons by (auto split: option.split)
  qed (use Cons.prems in simp)
qed simp

lemma put_sel [bius_sel]:
  "ks_reqs (put_req p r s) = (ks_reqs s)(p \<mapsto> r)" "ks_conns (put_req p r s) = ks_conns s"
  "ks_devs (put_req p r s) = ks_devs s" "ks_rqs (put_req p r s) = ks_rqs s"
  "ks_mem (put_req p r s) = ks_mem s" "ks_ended (put_req p r s) = ks_ended s"
  "ks_next_request_id (put_req p r s) = ks_next_request_id s"
  "ks_all_disk_list (put_req p r s) = ks_all_disk_list s"
  "ks_revalidating (put_req p r s) = ks_revalidating s"
  "ks_conns (put_conn p c s) = (ks_conns s)(p \<mapsto> c)" "ks_reqs (put_conn p c s) = ks_reqs s"
  "ks_devs (put_conn p c s) = ks_devs s" "ks_rqs (put_conn p c s) = ks_rqs s"
  "ks_mem (put_conn p c s) = ks_mem s" "ks_ended (put_conn p c s) = ks_ended s"
  "ks_next_request_id (put_conn p c s) = ks_next_request_id s"
  "ks_all_disk_list (put_conn p c s) = ks_all_disk_list s"
  "ks_revalidating (put_conn p c s) = ks_revalidating s"
  "ks_devs (put_dev p d s) = (ks_devs s)(p \<mapsto> d)" "ks_reqs (put_dev p d s) = ks_reqs s"
  "ks_conns (put_dev p d s) = ks_conns s" "ks_rqs (put_dev p d s) = ks_rqs s"
  "ks_mem (put_dev p d s) = ks_mem s" "ks_ended (put_dev p d s) = ks_ended s"
  "ks_next_request_id (put_dev p d s) = ks_next_request_id s"
  "ks_all_disk_list (put_dev p d s) = ks_all_disk_list s"
  "ks_revalidating (put_dev p d s) = ks_revalidating s"
  "ks_rqs (put_rq p q s) = (ks_rqs s)(p \<mapsto> q)" "ks_reqs (put_rq p q s) = ks_reqs s"
  "ks_conns (put_rq p q s) = ks_conns s" "ks_devs (put_rq p q s) = ks_devs s"
  "ks_mem (put_rq p q s) = ks_mem s" "ks_ended (put_rq p q s) = ks_ended s"
  "ks_next_request_id (put_rq p q s) = ks_next_request_id s"
  "ks_all_disk_list (put_rq p q s) = ks_all_disk_list s"
  "ks_revalidating (put_rq p q s) = ks_revalidating s"
  by (simp_all add: put_req_def put_conn_def put_dev_def put_rq_def)

end
