(* ===== verification/Bius_Command.thy ===== *)
theory Bius_Command
  imports Bius_Request
begin

text \<open>
  Sending a command and its data to the user process and receiving data back (command.h).
  The kernel services the code calls are parameters: the bio iterator and the segment walk of
  the block layer (\<open>bio_api\<close>), \<^verbatim>\<open>copy_to_iter\<close> as the function giving how many of the bytes
  asked for are copied, and the calling process's memory with \<^verbatim>\<open>copy_from_user\<close>'s count of
  bytes not copied (\<open>user_env\<close>). \<open>bio_api_ok\<close> states what the kernel documents of the
  iterator: \<open>addrs b\<close> are the addresses of the bytes the bio still covers, in order.
\<close>

section \<open>Kernel services used\<close>

record bio_vec =
  bv_page :: nat
  bv_offset :: nat
  bv_len :: nat

record 'bio bio_api =
  mp_bio_iter_iovec :: "'bio \<Rightarrow> bio_vec"
  bio_advance_iter :: "'bio \<Rightarrow> nat \<Rightarrow> 'bio"
  bi_size :: "'bio \<Rightarrow> nat"
  rq_segments :: "'bio list \<Rightarrow> bio_vec list"
  page_address :: "nat \<Rightarrow> nat"
  page_to_pfn :: "nat \<Rightarrow> nat"

definition bvec_addrs :: "'bio bio_api \<Rightarrow> bio_vec \<Rightarrow> nat list" where
  "bvec_addrs api v =
     [page_address api (bv_page v) + bv_offset v ..<
      page_address api (bv_page v) + bv_offset v + bv_len v]"

definition chain_addrs :: "('bio \<Rightarrow> nat list) \<Rightarrow> 'bio list \<Rightarrow> nat list" where
  "chain_addrs addrs bios = concat (map addrs bios)"

definition bio_api_ok :: "'bio bio_api \<Rightarrow> ('bio \<Rightarrow> nat list) \<Rightarrow> bool" where
  "bio_api_ok api addrs \<longleftrightarrow>
     (\<forall>b. length (addrs b) = bi_size api b) \<and>
     (\<forall>b. bv_len (mp_bio_iter_iovec api b) \<le> bi_size api b) \<and>
     (\<forall>b. 0 < bi_size api b \<longrightarrow> 0 < bv_len (mp_bio_iter_iovec api b)) \<and>
     (\<forall>b. take (bv_len (mp_bio_iter_iovec api b)) (addrs b) =
          bvec_addrs api (mp_bio_iter_iovec api b)) \<and>
     (\<forall>b n. n \<le> bi_size api b \<longrightarrow> addrs (bio_advance_iter api b n) = drop n (addrs b)) \<and>
     (\<forall>bs. concat (map (bvec_addrs api) (rq_segments api bs)) = chain_addrs addrs bs)"

record user_env =
  ue_mem :: mem
  ue_not_copied :: "nat \<Rightarrow> nat \<Rightarrow> nat"

text \<open>
  The bytes \<^verbatim>\<open>copy_from_user(dest, src, n)\<close> leaves at the destination: those copied, then
  zeros for the ones that could not be read.
\<close>

definition copy_from_user :: "user_env \<Rightarrow> nat \<Rightarrow> nat \<Rightarrow> nat \<times> byte list" where
  "copy_from_user ue src n =
     (let left = min n (ue_not_copied ue src n)
      in (left, mem_read (ue_mem ue) src (n - left) @ replicate left 0))"

section \<open>Operations (command.h)\<close>

definition bius_send_command ::
  "bool \<Rightarrow> (nat \<Rightarrow> nat \<Rightarrow> nat) \<Rightarrow> bius_connection \<Rightarrow> 'bio bius_request
     \<Rightarrow> (int \<times> bius_k2u_header) option" where
  "bius_send_command datamap copy_to_iter connection request = do {
     let header = \<lparr>k2u_id = req_id request, k2u_opcode = req_type request,
                   k2u_offset = req_pos request, k2u_length = of_nat (req_length request),
                   k2u_data_address = 0, k2u_mapping_data = 0,
                   k2u_data_map_type = BIUS_DATAMAP_UNMAPPED\<rparr>;
     header \<leftarrow> (if datamap \<and> is_blk_request (req_type request) then do {
           b \<leftarrow> blk_fields request;
           (if req_map_type b \<noteq> BIUS_DATAMAP_UNMAPPED then do {
              vma \<leftarrow> cn_vma connection;
              Some (header\<lparr>k2u_data_address := of_nat (vm_start vma),
                           k2u_mapping_data := of_nat (req_map_data b),
                           k2u_data_map_type := req_map_type b\<rparr>)
            } else Some header)
         } else Some header);
     Some (int (copy_to_iter 0 SIZEOF_K2U_HEADER), header)
   }"

text \<open>
  The loop of \<open>bius_send_data\<close>: the remaining chain, \<^verbatim>\<open>request->map_data\<close>,
  \<^verbatim>\<open>remain_buffer\<close>, \<^verbatim>\<open>total_sent\<close> and the bytes put into the iterator so far. A chain that
  ends while bytes are still owed is a null pointer access; \<^verbatim>\<open>copy_to_iter\<close> never copies more
  than it is asked to.
\<close>

function send_loop ::
  "'bio bio_api \<Rightarrow> (nat \<Rightarrow> nat \<Rightarrow> nat) \<Rightarrow> mem \<Rightarrow> 'bio list \<Rightarrow> nat \<Rightarrow> nat \<Rightarrow> nat \<Rightarrow> byte list
     \<Rightarrow> ('bio list \<times> nat \<times> nat \<times> byte list) option" where
  "send_loop api copy_to_iter m bio map_data remain_buffer total_sent out =
     (if 0 < map_data \<and> 0 < remain_buffer then
        (case bio of
           [] \<Rightarrow> None
         | b # next \<Rightarrow>
             (let bvec = mp_bio_iter_iovec api b;
                  size_to_send = min (bv_len bvec) remain_buffer;
                  data = page_address api (bv_page bvec) + bv_offset bvec;
                  sent_size = copy_to_iter (length out) size_to_send;
                  b' = bio_advance_iter api b sent_size;
                  out' = out @ mem_read m data sent_size
              in if size_to_send < sent_size then None
                 else if bi_size api b' = 0 then
                   send_loop api copy_to_iter m next (usub64 map_data sent_size)
                     (remain_buffer - sent_size) (total_sent + sent_size) out'
                 else if sent_size = 0 then
                   Some (b' # next, usub64 map_data sent_size, total_sent + sent_size, out')
                 else
                   send_loop api copy_to_iter m (b' # next) (usub64 map_data sent_size)
                     (remain_buffer - sent_size) (total_sent + sent_size) out'))
      else Some (bio, map_data, total_sent, out))"
  by pat_completeness auto
termination
  by (relation "measures [\<lambda>(api, c, m, bio, md, rem, t, out). length bio,
                           \<lambda>(api, c, m, bio, md, rem, t, out). rem]") auto

declare send_loop.simps [simp del]

definition bius_send_data ::
  "'bio bio_api \<Rightarrow> (nat \<Rightarrow> nat \<Rightarrow> nat) \<Rightarrow> mem \<Rightarrow> 'bio bius_request \<Rightarrow> nat
     \<Rightarrow> (int \<times> byte list \<times> 'bio bius_request) option" where
  "bius_send_data api copy_to_iter m request remain_buffer = do {
     b \<leftarrow> blk_fields request;
     (if req_bio b = [] then Some (0, [], request)
      else if req_map_type b \<noteq> BIUS_DATAMAP_UNMAPPED then Some (- EINVAL, [], request)
      else do {
        (bio, map_data, total_sent, out) \<leftarrow>
          send_loop api copy_to_iter m (req_bio b) (req_map_data b) remain_buffer 0 [];
        Some (int total_sent, out,
              set_blk_fields (b\<lparr>req_bio := bio, req_map_data := map_data\<rparr>) request)
      })
   }"

text \<open>The loop of \<open>bius_receive_data\<close> over the segments of the block-layer request.\<close>

fun receive_loop ::
  "'bio bio_api \<Rightarrow> user_env \<Rightarrow> bio_vec list \<Rightarrow> nat \<Rightarrow> mem \<Rightarrow> int \<times> mem" where
  "receive_loop api ue [] user_data m = (0, m)"
| "receive_loop api ue (bvec # segs) user_data m =
     (let dest = page_address api (bv_page bvec) + bv_offset bvec;
          (result, bs) = copy_from_user ue user_data (bv_len bvec);
          m' = mem_write m dest bs
      in if 0 < result then (- EIO, m')
         else receive_loop api ue segs (user_data + bv_len bvec) m')"

definition bius_receive_data ::
  "'bio bio_api \<Rightarrow> user_env \<Rightarrow> 'bio rq \<Rightarrow> 'bio bius_request \<Rightarrow> nat \<Rightarrow> mem
     \<Rightarrow> (int \<times> mem) option" where
  "bius_receive_data api ue rq request user_data m = do {
     b \<leftarrow> blk_fields request;
     Some (if req_bio b = [] then (0, m)
           else if req_map_type b \<noteq> BIUS_DATAMAP_UNMAPPED then (- EINVAL, m)
           else receive_loop api ue (rq_segments api (rq_bio rq)) user_data m)
   }"

section \<open>Sending: the bytes delivered are the bytes of the chain\<close>

lemma chain_addrs_simps [simp]:
  "chain_addrs addrs [] = []" "chain_addrs addrs (b # bs) = addrs b @ chain_addrs addrs bs"
  by (simp_all add: chain_addrs_def)

lemma length_bvec_addrs [simp]: "length (bvec_addrs api v) = bv_len v"
  by (simp add: bvec_addrs_def)

lemma bio_api_okD:
  assumes "bio_api_ok api addrs"
  shows "length (addrs b) = bi_size api b"
    and "bv_len (mp_bio_iter_iovec api b) \<le> bi_size api b"
    and "0 < bi_size api b \<Longrightarrow> 0 < bv_len (mp_bio_iter_iovec api b)"
    and "n \<le> bi_size api b \<Longrightarrow> addrs (bio_advance_iter api b n) = drop n (addrs b)"
    and "concat (map (bvec_addrs api) (rq_segments api bs)) = chain_addrs addrs bs"
  using assms by (auto simp: bio_api_ok_def)

lemma mem_read_iovec:
  assumes "bio_api_ok api addrs" "n \<le> bv_len (mp_bio_iter_iovec api b)"
  shows "mem_read m (page_address api (bv_page (mp_bio_iter_iovec api b)) +
                     bv_offset (mp_bio_iter_iovec api b)) n = map m (take n (addrs b))"
proof -
  let ?v = "mp_bio_iter_iovec api b"
  have "take n (addrs b) = take n (take (bv_len ?v) (addrs b))"
    using assms(2) by (simp add: min_def)
  also have "\<dots> = take n (bvec_addrs api ?v)"
    using assms(1) by (simp add: bio_api_ok_def)
  finally show ?thesis
    using assms(2) by (simp add: mem_read_def bvec_addrs_def take_upt)
qed

text \<open>
  One iteration: \<open>n\<close> bytes of the chain move to the output, and the loop either goes on with
  the rest of the chain or, when a copy delivered nothing, stops.
\<close>

lemma send_loop_step:
  assumes ok: "bio_api_ok api addrs" and cti: "\<forall>pos n. cti pos n \<le> n"
    and md: "md = length (chain_addrs addrs bio)" "md < 2 ^ 64" and run: "0 < md" "0 < rem"
  obtains n bio' where "n \<le> min md rem" "chain_addrs addrs bio' = drop n (chain_addrs addrs bio)"
    "send_loop api cti m bio md rem t out =
       send_loop api cti m bio' (md - n) (rem - n) (t + n)
         (out @ map m (take n (chain_addrs addrs bio)))"
    "length bio' + (rem - n) < length bio + rem"
  | bio' where "chain_addrs addrs bio' = chain_addrs addrs bio" "\<exists>pos n. cti pos n \<noteq> n"
    "send_loop api cti m bio md rem t out = Some (bio', md, t, out)"
proof -
  note api = bio_api_okD [OF ok]
  obtain b nxt where bio: "bio = b # nxt" using md run by (cases bio) auto
  define v where "v = mp_bio_iter_iovec api b"
  define size where "size = min (bv_len v) rem"
  define n where "n = cti (length out) size"
  define b' where "b' = bio_advance_iter api b n"
  have n_le: "n \<le> size" using cti by (simp add: n_def)
  then have n_size: "n \<le> bi_size api b" and n_rem: "n \<le> rem" and n_len: "n \<le> bv_len v"
    using api(2) [of b] by (simp_all add: size_def v_def)
  then have n_md: "n \<le> md" using md by (simp add: bio api(1))
  have b': "addrs b' = drop n (addrs b)" using api(4) n_size by (simp add: b'_def)
  have read: "mem_read m (page_address api (bv_page v) + bv_offset v) n =
      map m (take n (chain_addrs addrs bio))"
    using mem_read_iovec [OF ok, of n b m] n_len n_size by (simp add: v_def bio api(1))
  have step: "send_loop api cti m bio md rem t out =
      (let out' = out @ map m (take n (chain_addrs addrs bio)) in
       if bi_size api b' = 0 then send_loop api cti m nxt (md - n) (rem - n) (t + n) out'
       else if n = 0 then Some (b' # nxt, md - n, t + n, out')
       else send_loop api cti m (b' # nxt) (md - n) (rem - n) (t + n) out')"
    using run n_le read b'_def [symmetric] usub64_exact [OF n_md md(2)]
    by (subst send_loop.simps)
      (auto simp: bio Let_def v_def [symmetric] size_def [symmetric] n_def [symmetric])
  have rest: "chain_addrs addrs (if bi_size api b' = 0 then nxt else b' # nxt) =
      drop n (chain_addrs addrs bio)"
    using n_size api(1) [of b'] b' by (auto simp: bio api(1))
  show thesis
  proof (cases "bi_size api b' \<noteq> 0 \<and> n = 0")
    case True
    then have "cti (length out) size \<noteq> size"
      using run api(1) [of b] api(1) [of b'] b' api(3) [of b]
      by (auto simp: n_def size_def v_def)
    then show thesis using that(2) [of "b' # nxt"] True rest step by auto
  next
    case False
    let ?rest = "if bi_size api b' = 0 then nxt else b' # nxt"
    have "send_loop api cti m bio md rem t out = send_loop api cti m ?rest (md - n) (rem - n) (t + n)
        (out @ map m (take n (chain_addrs addrs bio)))"
      unfolding step Let_def using False by auto
    moreover have "length ?rest + (rem - n) < length bio + rem"
      using False run n_rem by (auto simp: bio)
    ultimately show thesis using n_md n_rem rest by (intro that(1)) auto
  qed
qed

text \<open>
  Whatever the copies deliver, a run of the loop sends a prefix of the chain's bytes and
  leaves the rest; when no copy is cut short the prefix is as long as the buffer allows.
\<close>

lemma send_loop_correct:
  assumes "bio_api_ok api addrs" "\<forall>pos n. cti pos n \<le> n"
    and "md = length (chain_addrs addrs bio)" "md < 2 ^ 64"
  shows "\<exists>k bio'. send_loop api cti m bio md rem t out =
             Some (bio', md - k, t + k, out @ map m (take k (chain_addrs addrs bio))) \<and>
           k \<le> min md rem \<and> chain_addrs addrs bio' = drop k (chain_addrs addrs bio) \<and>
           ((\<forall>pos n. cti pos n = n) \<longrightarrow> k = min md rem)"
  using assms(3,4)
proof (induction "length bio + rem" arbitrary: bio md rem t out rule: less_induct)
  case less
  show ?case
  proof (cases "0 < md \<and> 0 < rem")
    case False
    then show ?thesis by (intro exI [of _ 0]) (auto simp: send_loop.simps)
  next
    case True
    then have "0 < md" "0 < rem" by auto
    from assms(1,2) less.prems this show ?thesis
    proof (cases rule: send_loop_step [where m = m and t = t and out = out])
      case (1 n bio1)
      have "md - n = length (chain_addrs addrs bio1)" "md - n < 2 ^ 64"
        using 1(2) less.prems by simp_all
      from less.hyps [OF 1(4) this, of "t + n" "out @ map m (take n (chain_addrs addrs bio))"]
      obtain k bio' where k: "send_loop api cti m bio md rem t out =
            Some (bio', md - n - k, t + n + k, (out @ map m (take n (chain_addrs addrs bio))) @
                    map m (take k (drop n (chain_addrs addrs bio))))"
        "k \<le> min (md - n) (rem - n)" "chain_addrs addrs bio' = drop k (drop n (chain_addrs addrs bio))"
        "(\<forall>pos n. cti pos n = n) \<longrightarrow> k = min (md - n) (rem - n)"
        unfolding 1(2,3) by blast
      have "send_loop api cti m bio md rem t out =
          Some (bio', md - (n + k), t + (n + k), out @ map m (take (n + k) (chain_addrs addrs bio)))"
        unfolding k(1) by (simp add: take_add)
      moreover have "n + k \<le> min md rem" using k(2) 1(1) by auto
      moreover have "chain_addrs addrs bio' = drop (n + k) (chain_addrs addrs bio)"
        unfolding k(3) by (simp add: add.commute)
      moreover have "(\<forall>pos n. cti pos n = n) \<longrightarrow> n + k = min md rem"
        using k(4) 1(1) by (auto simp: min_def split: if_splits)
      ultimately show ?thesis by blast
    next
      case (2 bio')
      then show ?thesis by (intro exI [of _ 0]) auto
    qed
  qed
qed

lemma bius_send_data_correct:
  assumes api: "bio_api_ok api addrs" "\<forall>pos n. cti pos n \<le> n"
    and b: "blk_fields request = Some b" "req_map_type b = BIUS_DATAMAP_UNMAPPED"
    and md: "req_map_data b = length (chain_addrs addrs (req_bio b))" "req_map_data b < 2 ^ 64"
  shows "\<exists>k bio'. bius_send_data api cti m request remain =
             Some (int k, map m (take k (chain_addrs addrs (req_bio b))),
               set_blk_fields (b\<lparr>req_bio := bio', req_map_data := req_map_data b - k\<rparr>) request) \<and>
           k \<le> min (req_map_data b) remain \<and>
           chain_addrs addrs bio' = drop k (chain_addrs addrs (req_bio b)) \<and>
           ((\<forall>pos n. cti pos n = n) \<longrightarrow> k = min (req_map_data b) remain)"
proof (cases "req_bio b = []")
  case True
  have "set_blk_fields (b\<lparr>req_bio := [], req_map_data := 0\<rparr>) request = request"
    using True md(1) b(1) by (cases "req_union request")
      (auto simp: set_blk_fields_def blk_fields_def)
  with True md(1) b show ?thesis
    by (intro exI [of _ 0] exI [of _ "[]"]) (simp add: bius_send_data_def)
next
  case False
  from send_loop_correct [OF api md, of m remain 0 "[]"] obtain k bio' where
    "send_loop api cti m (req_bio b) (req_map_data b) remain 0 [] =
       Some (bio', req_map_data b - k, k, map m (take k (chain_addrs addrs (req_bio b))))"
    "k \<le> min (req_map_data b) remain" "chain_addrs addrs bio' = drop k (chain_addrs addrs (req_bio b))"
    "(\<forall>pos n. cti pos n = n) \<longrightarrow> k = min (req_map_data b) remain"
    by auto
  with False b show ?thesis by (auto simp: bius_send_data_def)
qed

section \<open>Receiving: the user's bytes land in the segments, in order\<close>

lemma map_mem_write_addrs:
  "map (mem_write m a bs) [a ..< a + length bs] = bs"
  using mem_read_write_same [of m a bs] by (simp add: mem_read_def)

lemma copy_from_user_ok:
  "ue_not_copied ue src n = 0 \<Longrightarrow> copy_from_user ue src n = (0, mem_read (ue_mem ue) src n)"
  by (simp add: copy_from_user_def)

lemma receive_loop_frame:
  "x \<notin> set (concat (map (bvec_addrs api) segs)) \<Longrightarrow> snd (receive_loop api ue segs ud m) x = m x"
  by (induction segs arbitrary: ud m)
    (auto simp: Let_def copy_from_user_def bvec_addrs_def mem_write_def split: prod.splits)

lemma receive_loop_correct:
  assumes "\<forall>src n. ue_not_copied ue src n = 0" "distinct (concat (map (bvec_addrs api) segs))"
  shows "fst (receive_loop api ue segs ud m) = 0 \<and>
         map (snd (receive_loop api ue segs ud m)) (concat (map (bvec_addrs api) segs)) =
           mem_read (ue_mem ue) ud (length (concat (map (bvec_addrs api) segs)))"
  using assms(2)
proof (induction segs arbitrary: ud m)
  case (Cons v segs)
  let ?bs = "mem_read (ue_mem ue) ud (bv_len v)"
  let ?a = "page_address api (bv_page v) + bv_offset v"
  let ?m = "mem_write m ?a ?bs"
  let ?r = "receive_loop api ue segs (ud + bv_len v) ?m"
  have run: "receive_loop api ue (v # segs) ud m = ?r"
    using assms(1) by (simp add: copy_from_user_ok Let_def)
  have IH: "fst ?r = 0" "map (snd ?r) (concat (map (bvec_addrs api) segs)) =
      mem_read (ue_mem ue) (ud + bv_len v) (length (concat (map (bvec_addrs api) segs)))"
    using Cons by auto
  have "snd ?r x = ?m x" if "x \<in> set (bvec_addrs api v)" for x
    using that Cons.prems by (intro receive_loop_frame) auto
  then have "map (snd ?r) (bvec_addrs api v) = map ?m (bvec_addrs api v)" by simp
  also have "\<dots> = ?bs"
    using map_mem_write_addrs [of m ?a ?bs] by (simp add: bvec_addrs_def)
  finally show ?case
    unfolding run using IH by (simp add: mem_read_add)
qed (simp add: mem_read_def)

lemma bius_receive_data_correct:
  assumes "bio_api_ok api addrs" "\<forall>src n. ue_not_copied ue src n = 0"
    and "blk_fields request = Some b" "req_map_type b = BIUS_DATAMAP_UNMAPPED" "req_bio b \<noteq> []"
    and "distinct (chain_addrs addrs (rq_bio q))"
  shows "\<exists>m'. bius_receive_data api ue q request ud m = Some (0, m') \<and>
           map m' (chain_addrs addrs (rq_bio q)) =
             mem_read (ue_mem ue) ud (length (chain_addrs addrs (rq_bio q))) \<and>
           (\<forall>x. x \<notin> set (chain_addrs addrs (rq_bio q)) \<longrightarrow> m' x = m x)"
proof -
  let ?segs = "rq_segments api (rq_bio q)"
  have segs: "concat (map (bvec_addrs api) ?segs) = chain_addrs addrs (rq_bio q)"
    using bio_api_okD(5) [OF assms(1)] .
  show ?thesis
    using receive_loop_correct [OF assms(2), of api ?segs ud m]
      receive_loop_frame [of _ api ?segs ue ud m] assms(3-6)
    by (cases "receive_loop api ue ?segs ud m") (auto simp: segs bius_receive_data_def)
qed

end
