(* ===== verification/Bius_Block_Dev.thy ===== *)
theory Bius_Block_Dev
  imports Bius_Command
begin

text \<open>
  The block device side of the kernel module (block_dev.c): translating and queueing a block
  request, reporting zones, creating, finding and removing a device. The numeric values of the
  kernel's \<^verbatim>\<open>REQ_OP_*\<close> constants, the results of the registration calls and the callback of a
  zone report are parameters. Functions that call registration services return the list of
  those calls, so that what an error path releases can be stated.
\<close>

section \<open>C strings\<close>

definition DISK_NAME_LEN :: nat where [bius_const]: "DISK_NAME_LEN = 32"

definition c_str :: "nat \<Rightarrow> byte list \<Rightarrow> byte list" where
  "c_str n bs = takeWhile (\<lambda>b. b \<noteq> 0) (take n bs)"

definition strncmp_eq :: "byte list \<Rightarrow> byte list \<Rightarrow> nat \<Rightarrow> bool" where
  "strncmp_eq a b n = (c_str n a = c_str n b)"

definition strncpy :: "byte list \<Rightarrow> nat \<Rightarrow> byte list" where
  "strncpy src n = (let t = c_str n src in t @ replicate (n - length t) 0)"

section \<open>Queueing block requests\<close>

record req_op_codes =
  REQ_OP_READ :: u32
  REQ_OP_WRITE :: u32
  REQ_OP_FLUSH :: u32
  REQ_OP_DISCARD :: u32
  REQ_OP_ZONE_OPEN :: u32
  REQ_OP_ZONE_CLOSE :: u32
  REQ_OP_ZONE_FINISH :: u32
  REQ_OP_ZONE_APPEND :: u32
  REQ_OP_ZONE_RESET :: u32
  REQ_OP_ZONE_RESET_ALL :: u32

definition to_bius_request :: "req_op_codes \<Rightarrow> u32 \<Rightarrow> bius_req" where
  "to_bius_request codes op =
     (if op = REQ_OP_READ codes then BIUS_READ
      else if op = REQ_OP_WRITE codes then BIUS_WRITE
      else if op = REQ_OP_FLUSH codes then BIUS_FLUSH
      else if op = REQ_OP_DISCARD codes then BIUS_DISCARD
      else if op \<in> {REQ_OP_ZONE_OPEN codes, REQ_OP_ZONE_CLOSE codes, REQ_OP_ZONE_FINISH codes,
                    REQ_OP_ZONE_APPEND codes, REQ_OP_ZONE_RESET codes, REQ_OP_ZONE_RESET_ALL codes}
        then bius_req_of_code op
      else BIUS_INVALID_OP)"

text \<open>
  The zone opcodes are cast, not translated: request_type.h gives its zone enumerators the
  values of the kernel's constants. \<open>zone_codes_agree\<close> states that; \<open>linux_codes\<close> are the
  values of the kernel the module is written for.
\<close>

definition zone_codes_agree :: "req_op_codes \<Rightarrow> bool" where
  "zone_codes_agree codes \<longleftrightarrow>
     REQ_OP_ZONE_OPEN codes = bius_req_code BIUS_ZONE_OPEN \<and>
     REQ_OP_ZONE_CLOSE codes = bius_req_code BIUS_ZONE_CLOSE \<and>
     REQ_OP_ZONE_FINISH codes = bius_req_code BIUS_ZONE_FINISH \<and>
     REQ_OP_ZONE_APPEND codes = bius_req_code BIUS_ZONE_APPEND \<and>
     REQ_OP_ZONE_RESET codes = bius_req_code BIUS_ZONE_RESET \<and>
     REQ_OP_ZONE_RESET_ALL codes = bius_req_code BIUS_ZONE_RESET_ALL"

definition linux_codes :: req_op_codes where
  "linux_codes = \<lparr>REQ_OP_READ = 0, REQ_OP_WRITE = 1, REQ_OP_FLUSH = 2, REQ_OP_DISCARD = 3,
     REQ_OP_ZONE_OPEN = 10, REQ_OP_ZONE_CLOSE = 11, REQ_OP_ZONE_FINISH = 12,
     REQ_OP_ZONE_APPEND = 13, REQ_OP_ZONE_RESET = 15, REQ_OP_ZONE_RESET_ALL = 17\<rparr>"

text \<open>\<^verbatim>\<open>atomic64_inc_return(&next_request_id)\<close>.\<close>

definition inc_request_id :: "'bio kstate \<Rightarrow> u64 \<times> 'bio kstate" where
  "inc_request_id s =
     (ks_next_request_id s + 1, s\<lparr>ks_next_request_id := ks_next_request_id s + 1\<rparr>)"

text \<open>What the private area of the request holds before it is filled in: its former fields.\<close>

definition stale_blk_part :: "'bio kstate \<Rightarrow> ptr \<Rightarrow> 'bio blk_part" where
  "stale_blk_part s p =
     (case Option.bind (ks_reqs s p) blk_fields of
        Some b \<Rightarrow> b
      | None \<Rightarrow> \<lparr>req_bio = [], req_map_data = 0, req_mapped_size = 0,
                 req_map_type = BIUS_DATAMAP_UNMAPPED, req_blk_result = 0\<rparr>)"

definition list_add_pending :: "ptr \<Rightarrow> ptr \<Rightarrow> 'bio kstate \<Rightarrow> 'bio kstate option" where
  "list_add_pending d p s = do {
     device \<leftarrow> ks_devs s d;
     Some (put_dev d (device\<lparr>bd_pending := bd_pending device @ [p]\<rparr>) s)
   }"

definition bius_queue_rq ::
  "req_op_codes \<Rightarrow> ptr \<Rightarrow> ptr \<Rightarrow> 'bio kstate \<Rightarrow> (kblk_status \<times> 'bio kstate) option" where
  "bius_queue_rq codes d p s = do {
     rq \<leftarrow> ks_rqs s p;
     let (i, s) = inc_request_id s;
     let type = to_bius_request codes (rq_op rq);
     let s = put_req p
       \<lparr>req_id = i, req_type = type, req_pos = push_bit 9 (rq_sector rq), req_length = rq_bytes rq,
        req_union = Blk_part ((stale_blk_part s p)\<lparr>req_bio := rq_bio rq,
                                req_map_type := BIUS_DATAMAP_UNMAPPED\<rparr>),
        on_request_end = Blk_request_end\<rparr> s;
     (if type = BIUS_INVALID_OP
      then Some (ucast BLK_STS_NOTSUPP, blk_mq_end_request p (ucast BLK_STS_NOTSUPP) s)
      else do {
        s \<leftarrow> list_add_pending d p s;
        Some (ucast BLK_STS_OK, s)
      })
   }"

text \<open>The \<^verbatim>\<open>complete\<close> hook of the queue reads the result field of the other part of the union.\<close>

definition bius_complete_rq :: "ptr \<Rightarrow> 'bio kstate \<Rightarrow> 'bio kstate option" where
  "bius_complete_rq p s = do {
     request \<leftarrow> ks_reqs s p;
     i \<leftarrow> int_fields request;
     Some (blk_mq_end_request p (word_of_int (req_int_result i)) s)
   }"

definition initialize_tag_set :: "ptr \<Rightarrow> blk_mq_tag_set" where
  "initialize_tag_set device =
     \<lparr>ts_nr_hw_queues = 4, ts_queue_depth = 128, ts_driver_data = device\<rparr>"

section \<open>Reporting zones\<close>

text \<open>
  \<open>bius_report_zones\<close> up to the point where it waits: the request is an object of the
  function's frame, at address \<open>p\<close>. \<open>Inl\<close> is an early return.
\<close>

definition bius_report_zones_begin ::
  "bool \<Rightarrow> ptr \<Rightarrow> ptr \<Rightarrow> u64 \<Rightarrow> u32 \<Rightarrow> 'bio kstate \<Rightarrow> (int + 'bio kstate) option" where
  "bius_report_zones_begin kvmalloc_ok d p sector nr_zones s =
     (let nr = min (unat nr_zones) BIUS_MAX_ZONES in
      if \<not> kvmalloc_ok then Some (Inl (- ENOMEM))
      else do {
        let (i, s) = inc_request_id s;
        s \<leftarrow> list_add_pending d p (put_req p
          \<lparr>req_id = i, req_type = BIUS_REPORT_ZONES, req_pos = push_bit 9 sector, req_length = nr,
           req_union = Int_part \<lparr>req_data = replicate (SIZEOF_BLK_ZONE * nr) 0, req_sem = 0,
                                 req_int_result = 0\<rparr>,
           on_request_end = Report_zones_request_end\<rparr> s);
        Some (Inr s)
      })"

text \<open>
  The loop that hands the zones to the callback, which stops at the first error. The callback is
  code of the block layer: it gets the index, the descriptor and its own data, which it may change.
\<close>

fun report_zones_loop ::
  "(nat \<Rightarrow> byte list \<Rightarrow> 'c \<Rightarrow> int \<times> 'c) \<Rightarrow> byte list \<Rightarrow> nat \<Rightarrow> nat \<Rightarrow> 'c \<Rightarrow> (int \<times> 'c) option" where
  "report_zones_loop cb blkz i 0 data = Some (int i, data)"
| "report_zones_loop cb blkz i (Suc n) data =
     (if length blkz < SIZEOF_BLK_ZONE * (i + 1) then None
      else let (result, data) = cb i (bytes_at (SIZEOF_BLK_ZONE * i) SIZEOF_BLK_ZONE blkz) data
           in if result \<noteq> 0 then Some (result, data) else report_zones_loop cb blkz (Suc i) n data)"

datatype 'a call_result = Blocked | Returned 'a

text \<open>
  The rest, from \<^verbatim>\<open>down_killable\<close> on; \<open>killed\<close> says that the wait was interrupted. On return
  the frame with the request is gone.
\<close>

definition bius_report_zones_end ::
  "(nat \<Rightarrow> byte list \<Rightarrow> 'c \<Rightarrow> int \<times> 'c) \<Rightarrow> 'c \<Rightarrow> bool \<Rightarrow> ptr \<Rightarrow> 'bio kstate
     \<Rightarrow> (int \<times> 'c \<times> 'bio kstate) call_result option" where
  "bius_report_zones_end cb data killed p s = do {
     request \<leftarrow> ks_reqs s p;
     i \<leftarrow> int_fields request;
     let s' = s\<lparr>ks_reqs := (ks_reqs s)(p := None)\<rparr>;
     (if req_sem i = 0 then
        Some (if killed then Returned (- EINTR, data, s') else Blocked)
      else if req_int_result i < 0 then Some (Returned (req_int_result i, data, s'))
      else do {
        let nr_zones = nat (req_int_result i) div SIZEOF_BLK_ZONE;
        (result, data) \<leftarrow> report_zones_loop cb (req_data i) 0 nr_zones data;
        Some (Returned (result, data, s'))
      })
   }"

section \<open>Creating, finding and removing devices\<close>

datatype kernel_call =
    Register_blkdev "byte list" | Unregister_blkdev int "byte list"
  | Alloc_disk | Add_disk | Del_gendisk | Put_disk
  | Alloc_tag_set | Free_tag_set | Init_queue | Kmalloc_device | Kfree_device

text \<open>Results of the services \<open>create_block_device\<close> calls.\<close>

record create_env =
  ce_kmalloc :: "ptr option"
  ce_register_blkdev :: int
  ce_alloc_disk :: bool
  ce_alloc_tag_set :: int
  ce_init_queue :: int

definition device_limits :: "bius_block_device_options \<Rightarrow> queue_limits" where
  "device_limits options =
     \<lparr>ql_discard_granularity = 0, ql_discard_alignment = 0, ql_max_discard_sectors = 0,
      ql_max_segments = BIUS_MAX_SEGMENTS,
      ql_max_dev_sectors = BIUS_MAX_SIZE_PER_COMMAND div SECTOR_SIZE,
      ql_max_hw_sectors = BIUS_MAX_SIZE_PER_COMMAND div SECTOR_SIZE,
      ql_chunk_sectors = BIUS_MAX_SIZE_PER_COMMAND div SECTOR_SIZE,
      ql_io_min = 512 * 1024,
      ql_zoned = (if opt_model options \<noteq> BLK_ZONED_NONE then BLK_ZONED_HM else BLK_ZONED_NONE),
      ql_max_zone_append_sectors =
        (if opt_model options \<noteq> BLK_ZONED_NONE then BIUS_MAX_ZONE_SECTORS else 0),
      ql_max_open_zones =
        (if opt_model options \<noteq> BLK_ZONED_NONE then opt_max_open_zones options else 0),
      ql_max_active_zones =
        (if opt_model options \<noteq> BLK_ZONED_NONE then opt_max_active_zones options else 0)\<rparr>"

text \<open>The fields \<open>create_block_device\<close> gives the device it allocated.\<close>

definition new_block_device ::
  "bius_block_device_options \<Rightarrow> int \<Rightarrow> ptr \<Rightarrow> bius_block_device" where
  "new_block_device options major d = init_bius_block_device
     \<lparr>bd_major = major, bd_disk_name = strncpy (opt_disk_name options) DISK_NAME_LEN,
      bd_capacity = opt_disk_size options div of_nat SECTOR_SIZE,
      bd_tag_set = initialize_tag_set d, bd_limits = device_limits options,
      bd_model = opt_model options, bd_num_connection = 0, bd_pending = []\<rparr>"

text \<open>
  The result holds the return value, the value of \<^verbatim>\<open>*out_device\<close> (\<open>None\<close>: not written), the
  service calls in order and the new state. The labels \<^verbatim>\<open>out_free_tag_set\<close>,
  \<^verbatim>\<open>out_put_disk\<close>, \<^verbatim>\<open>out_unregister\<close> and \<^verbatim>\<open>out_free_device\<close> fall through to one another.
\<close>

definition out_free_device :: "kernel_call list" where
  "out_free_device = [Kfree_device]"

definition out_unregister :: "int \<Rightarrow> byte list \<Rightarrow> kernel_call list" where
  "out_unregister major name = Unregister_blkdev major name # out_free_device"

definition out_put_disk :: "int \<Rightarrow> byte list \<Rightarrow> kernel_call list" where
  "out_put_disk major name = Put_disk # out_unregister major name"

definition out_free_tag_set :: "int \<Rightarrow> byte list \<Rightarrow> kernel_call list" where
  "out_free_tag_set major name = Free_tag_set # out_put_disk major name"

definition create_block_device ::
  "create_env \<Rightarrow> bius_block_device_options \<Rightarrow> 'bio kstate
     \<Rightarrow> int \<times> ptr option \<times> kernel_call list \<times> 'bio kstate" where
  "create_block_device env options s =
     (let name = opt_disk_name options; major = ce_register_blkdev env in
      case ce_kmalloc env of
        None \<Rightarrow> (- ENOMEM, None, [], s)
      | Some d \<Rightarrow>
          if major < 0 then
            (major, None, [Kmalloc_device, Register_blkdev name] @ out_free_device, s)
          else if \<not> ce_alloc_disk env then
            (major, None, [Kmalloc_device, Register_blkdev name, Alloc_disk] @ out_unregister major name, s)
          else if ce_alloc_tag_set env < 0 then
            (ce_alloc_tag_set env, None,
             [Kmalloc_device, Register_blkdev name, Alloc_disk, Alloc_tag_set] @ out_put_disk major name, s)
          else if ce_init_queue env < 0 then
            (ce_init_queue env, None,
             [Kmalloc_device, Register_blkdev name, Alloc_disk, Alloc_tag_set, Init_queue] @
               out_free_tag_set major name, s)
          else
            (0, Some d,
             [Kmalloc_device, Register_blkdev name, Alloc_disk, Alloc_tag_set, Init_queue, Add_disk],
             (put_dev d (new_block_device options major d) s)
               \<lparr>ks_all_disk_list := ks_all_disk_list s @ [d]\<rparr>))"

text \<open>
  \<open>get_block_device\<close> walks the list of devices from its end. The outer \<open>None\<close> is a list entry
  that points to no device.
\<close>

fun find_device ::
  "(ptr \<Rightarrow> bius_block_device option) \<Rightarrow> byte list \<Rightarrow> ptr list \<Rightarrow> ptr option option" where
  "find_device devs disk_name [] = Some None"
| "find_device devs disk_name (d # ds) =
     (case devs d of
        None \<Rightarrow> None
      | Some device \<Rightarrow>
          if strncmp_eq (bd_disk_name device) disk_name DISK_NAME_LEN then Some (Some d)
          else find_device devs disk_name ds)"

definition get_block_device :: "byte list \<Rightarrow> 'bio kstate \<Rightarrow> ptr option option" where
  "get_block_device disk_name s = find_device (ks_devs s) disk_name (rev (ks_all_disk_list s))"

text \<open>
  Answering the pending requests: \<^verbatim>\<open>blk_mq_rq_from_pdu\<close> of an entry that is not the private
  area of a block request gives no valid request. The source walks the list with
  \<^verbatim>\<open>list_for_each_entry\<close>, which reads the link of a request after it was ended; the private area
  of a block request outlives its end, so that within one step the walk is over the list as it was.
  That the block layer may hand the ended request out again meanwhile is outside this model.
\<close>

fun end_pending :: "ptr list \<Rightarrow> 'bio kstate \<Rightarrow> 'bio kstate option" where
  "end_pending [] s = Some s"
| "end_pending (p # ps) s =
     (case ks_rqs s p of
        None \<Rightarrow> None
      | Some rq \<Rightarrow> end_pending ps (blk_mq_end_request p (ucast BLK_STS_IOERR) s))"

text \<open>
  The calls in their order. The name given to \<^verbatim>\<open>unregister_blkdev\<close> is the value at the start;
  the only caller passes a pointer into the disk that \<^verbatim>\<open>put_disk\<close> releases just before.
\<close>

definition remove_block_device ::
  "byte list \<Rightarrow> 'bio kstate \<Rightarrow> (kernel_call list \<times> 'bio kstate) option" where
  "remove_block_device name s = do {
     found \<leftarrow> get_block_device name s;
     (case found of
        None \<Rightarrow> Some ([], s)
      | Some d \<Rightarrow> do {
          device \<leftarrow> ks_devs s d;
          s \<leftarrow> end_pending (bd_pending device)
                 (s\<lparr>ks_all_disk_list := remove1 d (ks_all_disk_list s)\<rparr>);
          Some ([Del_gendisk, Free_tag_set, Put_disk, Unregister_blkdev (bd_major device) name], s)
        })
   }"

definition bius_revalidate :: "ptr \<Rightarrow> 'bio kstate \<Rightarrow> 'bio kstate" where
  "bius_revalidate d s = s\<lparr>ks_revalidating := ks_revalidating s @ [d]\<rparr>"

section \<open>Lemmas\<close>

lemma zone_codes_linux: "zone_codes_agree linux_codes"
  by (simp add: zone_codes_agree_def linux_codes_def)

lemma of_code_zone [simp]:
  "bius_req_of_code 10 = BIUS_ZONE_OPEN" "bius_req_of_code 11 = BIUS_ZONE_CLOSE"
  "bius_req_of_code 12 = BIUS_ZONE_FINISH" "bius_req_of_code 13 = BIUS_ZONE_APPEND"
  "bius_req_of_code 15 = BIUS_ZONE_RESET" "bius_req_of_code 17 = BIUS_ZONE_RESET_ALL"
  by (simp_all add: bius_req_of_code_def bius_req_enumerators_def)

lemma BIUS_INVALID_OP_other: "BIUS_INVALID_OP = BIUS_REQ_OTHER (- 1)"
  by (simp add: BIUS_INVALID_OP_def bius_req_of_code_def bius_req_enumerators_def)

lemma to_bius_request_cases:
  assumes "zone_codes_agree codes"
  shows "to_bius_request codes op \<in> {BIUS_READ, BIUS_WRITE, BIUS_FLUSH, BIUS_DISCARD,
     BIUS_ZONE_OPEN, BIUS_ZONE_CLOSE, BIUS_ZONE_FINISH, BIUS_ZONE_APPEND, BIUS_ZONE_RESET,
     BIUS_ZONE_RESET_ALL, BIUS_INVALID_OP}"
  using assms by (auto simp: to_bius_request_def zone_codes_agree_def)

lemma to_bius_request_blk: "zone_codes_agree codes \<Longrightarrow> is_blk_request (to_bius_request codes op)"
  by (drule to_bius_request_cases [of _ op]) (auto simp: is_blk_request_def BIUS_INVALID_OP_other)

lemma to_bius_request_append:
  "zone_codes_agree codes \<Longrightarrow> to_bius_request codes op = BIUS_ZONE_APPEND \<Longrightarrow>
     op = REQ_OP_ZONE_APPEND codes"
  by (auto simp: to_bius_request_def zone_codes_agree_def BIUS_INVALID_OP_other split: if_splits)

lemma c_str_strncpy [simp]: "c_str n (strncpy name n) = c_str n name"
proof -
  have len: "length (c_str n name) \<le> n"
    by (simp add: c_str_def length_takeWhile_le [THEN order.trans])
  have "\<forall>b \<in> set (c_str n name). b \<noteq> 0" by (auto simp: c_str_def dest: set_takeWhileD)
  then have "takeWhile (\<lambda>b. b \<noteq> 0) (c_str n name @ replicate k 0) = c_str n name" for k
    by (induction k) (simp_all add: takeWhile_append)
  then show ?thesis using len by (simp add: strncpy_def Let_def c_str_def [of n "_ @ _"])
qed

lemma find_device_in:
  "find_device devs name ds = Some (Some d) \<Longrightarrow> d \<in> set ds \<and> (\<exists>dev. devs d = Some dev \<and>
     c_str DISK_NAME_LEN (bd_disk_name dev) = c_str DISK_NAME_LEN name)"
  by (induction ds) (auto simp: strncmp_eq_def split: option.splits if_splits)

text \<open>On a list with at most one device of each name, the lookup finds the device of that name.\<close>

lemma find_device_unique:
  assumes "\<forall>x \<in> set ds. \<exists>dev. devs x = Some dev \<and>
      (c_str DISK_NAME_LEN (bd_disk_name dev) = c_str DISK_NAME_LEN name \<longrightarrow> x = d)"
    and "d \<in> set ds" "devs d = Some dev" "c_str DISK_NAME_LEN (bd_disk_name dev) = c_str DISK_NAME_LEN name"
  shows "find_device devs name ds = Some (Some d)"
  using assms(1,2)
proof (induction ds)
  case (Cons x ds)
  then show ?case using assms(3,4) by (auto simp: strncmp_eq_def)
qed simp

lemma find_device_upd:
  assumes "devs d = Some dev" "bd_disk_name dev' = bd_disk_name dev"
  shows "find_device (devs(d \<mapsto> dev')) name ds = find_device devs name ds"
  by (induction ds) (use assms in \<open>auto split: option.split\<close>)

end
