(* ===== verification/Bius_Data_Mapping.thy ===== *)
theory Bius_Data_Mapping
  imports Bius_Command
begin

text \<open>
  Mapping a request's pages into the user process instead of copying them (data_mapping.c),
  compiled in with \<^verbatim>\<open>CONFIG_BIUS_DATAMAP\<close>. Setting a page-table entry records the frame the
  user page now shows; cache and TLB flushes have no effect in this model. Indices outside
  the arrays the code uses (the entries of \<^verbatim>\<open>connection->ptes\<close>, the reserved pages, the part of
  the first two reserved pages that the mapping list may use) are undefined.
\<close>

section \<open>The mapped area\<close>

text \<open>
  \<open>bius_vm_open\<close>: the errors of \<^verbatim>\<open>partial_map_pfn\<close> and \<^verbatim>\<open>follow_pte\<close> are functions of the
  address. On an error the area is left without entries; the function reports nothing.
\<close>

function map_zero_pages :: "(nat \<Rightarrow> int) \<Rightarrow> nat \<Rightarrow> nat \<Rightarrow> bool" where
  "map_zero_pages partial_map_pfn addr vmend =
     (if addr < vmend then
        (if partial_map_pfn addr \<noteq> 0 then False
         else map_zero_pages partial_map_pfn (addr + PAGE_SIZE) vmend)
      else True)"
  by pat_completeness auto
termination
  by (relation "measure (\<lambda>(f, addr, e). e - addr)") (auto simp: PAGE_SIZE_def)

fun collect_ptes ::
  "(nat \<Rightarrow> int) \<Rightarrow> nat \<Rightarrow> nat \<Rightarrow> nat \<Rightarrow> nat \<Rightarrow> (nat \<Rightarrow> nat option) \<Rightarrow> (nat \<Rightarrow> nat option) option" where
  "collect_ptes follow_pte zero_page_pfn addr i 0 ptes = Some ptes"
| "collect_ptes follow_pte zero_page_pfn addr i (Suc n) ptes =
     (if follow_pte addr \<noteq> 0 then None
      else collect_ptes follow_pte zero_page_pfn (addr + PAGE_SIZE) (Suc i) n
             (ptes(i \<mapsto> zero_page_pfn)))"

definition bius_vm_open ::
  "(nat \<Rightarrow> int) \<Rightarrow> (nat \<Rightarrow> int) \<Rightarrow> nat \<Rightarrow> vm_area \<Rightarrow> bius_connection \<Rightarrow> bius_connection" where
  "bius_vm_open partial_map_pfn follow_pte zero_page_pfn vma connection =
     (if map_zero_pages partial_map_pfn (vm_start vma) (vm_end vma) then
        (case collect_ptes follow_pte zero_page_pfn (vm_start vma) 0 BIUS_PTES_PER_COMMAND
                (cn_ptes connection) of
           Some ptes \<Rightarrow> connection\<lparr>cn_ptes := ptes\<rparr>
         | None \<Rightarrow> connection\<lparr>cn_ptes := (\<lambda>_. None)\<rparr>)
      else connection\<lparr>cn_ptes := (\<lambda>_. None)\<rparr>)"

definition bius_vm_close :: "bius_connection \<Rightarrow> bius_connection" where
  "bius_vm_close connection = connection\<lparr>cn_vma := None\<rparr>"

section \<open>Mapping the segments of a request\<close>

text \<open>The locals of \<open>bius_map_data\<close> and the objects its loop writes.\<close>

record map_state =
  ms_list_entry_index :: nat
  ms_next_reserved :: nat
  ms_user_addr :: nat
  ms_user_page_num :: nat
  ms_segment_end_aligned :: bool
  ms_ptes :: "nat \<Rightarrow> nat option"
  ms_mapping_list :: "nat \<Rightarrow> nat"
  ms_reserve_list :: "nat \<Rightarrow> nat"
  ms_mem :: mem

text \<open>\<^verbatim>\<open>set_pte_at\<close> through \<^verbatim>\<open>connection->ptes[user_page_num]\<close>.\<close>

definition set_pte :: "(nat \<Rightarrow> nat option) \<Rightarrow> nat \<Rightarrow> nat \<Rightarrow> (nat \<Rightarrow> nat option) option" where
  "set_pte ptes i pfn =
     (if i < BIUS_PTES_PER_COMMAND \<and> ptes i \<noteq> None then Some (ptes(i \<mapsto> pfn)) else None)"

text \<open>
  The mapping list starts on the first reserved page and the reserve list on the second one,
  of which the entries 0 and 1 are never used: the mapping list has 512 + 2 words.
\<close>

definition MAPPING_LIST_WORDS :: nat where
  [bius_const]: "MAPPING_LIST_WORDS = PAGE_SIZE div 8 + 2"

definition list_store :: "(nat \<Rightarrow> nat) \<Rightarrow> nat \<Rightarrow> nat \<Rightarrow> (nat \<Rightarrow> nat) option" where
  "list_store l i v = (if i < MAPPING_LIST_WORDS then Some (l(i := v)) else None)"

text \<open>
  The two blocks that put a partly used page behind a reserved page: the page is cleared, for
  a write the used bytes are copied to it, and the user page and the reserve list name it.
\<close>

definition map_reserved ::
  "bool \<Rightarrow> bius_connection \<Rightarrow> nat \<Rightarrow> nat \<Rightarrow> nat \<Rightarrow> map_state \<Rightarrow> map_state option" where
  "map_reserved is_write connection data_address off n st =
     (if ms_next_reserved st < BIUS_NUM_RESERVED_PAGES then do {
        let reserved = cn_reserved_pages connection + PAGE_SIZE * ms_next_reserved st;
        let m = mem_set (ms_mem st) reserved PAGE_SIZE 0;
        let m = (if is_write then mem_copy m (reserved + off) (data_address + off) n else m);
        ptes \<leftarrow> set_pte (ms_ptes st) (ms_user_page_num st)
                  (cn_reserved_pages_pfn connection + ms_next_reserved st);
        Some (st\<lparr>ms_mem := m, ms_ptes := ptes,
                 ms_reserve_list := (ms_reserve_list st)(ms_next_reserved st := data_address),
                 ms_next_reserved := ms_next_reserved st + 1,
                 ms_user_addr := ms_user_addr st + PAGE_SIZE,
                 ms_user_page_num := ms_user_page_num st + 1\<rparr>)
      } else None)"

function map_full_pages :: "nat \<Rightarrow> nat \<Rightarrow> nat \<Rightarrow> map_state \<Rightarrow> (nat \<times> nat \<times> map_state) option" where
  "map_full_pages data_pfn data_address remain_size st =
     (if PAGE_SIZE \<le> remain_size then
        (case set_pte (ms_ptes st) (ms_user_page_num st) data_pfn of
           None \<Rightarrow> None
         | Some ptes \<Rightarrow>
             map_full_pages (data_pfn + 1) (data_address + PAGE_SIZE) (remain_size - PAGE_SIZE)
               (st\<lparr>ms_ptes := ptes, ms_user_addr := ms_user_addr st + PAGE_SIZE,
                   ms_user_page_num := ms_user_page_num st + 1\<rparr>))
      else Some (data_address, remain_size, st))"
  by pat_completeness auto
termination
  by (relation "measure (\<lambda>(pfn, a, remain, st). remain)") (auto simp: PAGE_SIZE_def)

declare map_full_pages.simps [simp del] map_zero_pages.simps [simp del]

text \<open>The list entry of a segment: a new entry, or the last one extended.\<close>

definition map_list_entry :: "bio_vec \<Rightarrow> map_state \<Rightarrow> map_state option" where
  "map_list_entry bvec st = do {
     st \<leftarrow> (if \<not> ms_segment_end_aligned st \<or> bv_offset bvec \<noteq> 0 then do {
              l \<leftarrow> list_store (ms_mapping_list st) (ms_list_entry_index st * 2)
                     (ms_user_addr st + bv_offset bvec);
              l \<leftarrow> list_store l (ms_list_entry_index st * 2 + 1) 0;
              Some (st\<lparr>ms_mapping_list := l, ms_list_entry_index := ms_list_entry_index st + 1\<rparr>)
            } else Some st);
     (if ms_list_entry_index st = 0 then None
      else do {
        l \<leftarrow> list_store (ms_mapping_list st) (ms_list_entry_index st * 2 - 1)
               (ms_mapping_list st (ms_list_entry_index st * 2 - 1) + bv_len bvec);
        Some (st\<lparr>ms_mapping_list := l\<rparr>)
      })
   }"

text \<open>The part of the loop body behind a first partly used page: full pages, then the tail.\<close>

definition map_tail ::
  "bool \<Rightarrow> bius_connection \<Rightarrow> nat \<Rightarrow> nat \<Rightarrow> nat \<Rightarrow> map_state \<Rightarrow> map_state option" where
  "map_tail is_write connection data_pfn data_address remain_size st = do {
     (data_address, remain_size, st) \<leftarrow> map_full_pages data_pfn data_address remain_size st;
     (if 0 < remain_size then do {
        st \<leftarrow> map_reserved is_write connection data_address 0 remain_size st;
        Some (st\<lparr>ms_segment_end_aligned := False\<rparr>)
      } else Some (st\<lparr>ms_segment_end_aligned := True\<rparr>))
   }"

definition map_segment ::
  "'bio bio_api \<Rightarrow> bool \<Rightarrow> bius_connection \<Rightarrow> bio_vec \<Rightarrow> map_state \<Rightarrow> map_state option" where
  "map_segment api is_write connection bvec st = do {
     let data_address = page_address api (bv_page bvec);
     let data_pfn = page_to_pfn api (bv_page bvec);
     let remain_size = bv_len bvec;
     let off = bv_offset bvec;
     st \<leftarrow> map_list_entry bvec st;
     (if off \<noteq> 0 then do {
        let data_size_in_page = min (usub64 PAGE_SIZE off) (bv_len bvec);
        st \<leftarrow> map_reserved is_write connection data_address off data_size_in_page st;
        (if data_size_in_page \<noteq> usub64 PAGE_SIZE off
         then Some (st\<lparr>ms_segment_end_aligned := False\<rparr>)
         else map_tail is_write connection (data_pfn + 1) (data_address + PAGE_SIZE)
                (remain_size - data_size_in_page) st)
      }
      else map_tail is_write connection data_pfn data_address remain_size st)
   }"

fun map_segments ::
  "'bio bio_api \<Rightarrow> bool \<Rightarrow> bius_connection \<Rightarrow> bio_vec list \<Rightarrow> map_state \<Rightarrow> map_state option" where
  "map_segments api is_write connection [] st = Some st"
| "map_segments api is_write connection (bvec # segs) st =
     (case map_segment api is_write connection bvec st of
        None \<Rightarrow> None
      | Some st' \<Rightarrow> map_segments api is_write connection segs st')"

text \<open>After the loop: the list page and the map type, from the number of list entries.\<close>

definition map_finish ::
  "bius_connection \<Rightarrow> 'bio blk_part \<Rightarrow> map_state \<Rightarrow> ('bio blk_part \<times> map_state) option" where
  "map_finish connection b st =
     (if 1 < ms_list_entry_index st then do {
        ptes \<leftarrow> set_pte (ms_ptes st) (ms_user_page_num st) (cn_reserved_pages_pfn connection);
        l \<leftarrow> list_store (ms_mapping_list st) (ms_list_entry_index st * 2 + 1) 0;
        l \<leftarrow> list_store l (ms_list_entry_index st * 2) 0;
        Some (b\<lparr>req_map_type := BIUS_DATAMAP_LIST, req_map_data := ms_user_addr st\<rparr>,
              st\<lparr>ms_ptes := ptes, ms_mapping_list := l,
                 ms_user_addr := ms_user_addr st + PAGE_SIZE\<rparr>)
      }
      else if ms_list_entry_index st = 1 then
        Some (b\<lparr>req_map_type := BIUS_DATAMAP_SIMPLE,
                req_map_data := ms_mapping_list st 0 mod PAGE_SIZE\<rparr>, st)
      else Some (b\<lparr>req_map_type := BIUS_DATAMAP_UNMAPPED\<rparr>, st))"

definition bius_map_data ::
  "'bio bio_api \<Rightarrow> 'bio rq \<Rightarrow> 'bio bius_request \<Rightarrow> bius_connection \<Rightarrow> mem
     \<Rightarrow> (int \<times> 'bio bius_request \<times> bius_connection \<times> mem) option" where
  "bius_map_data api rq request connection m = do {
     vma \<leftarrow> cn_vma connection;
     b \<leftarrow> blk_fields request;
     (if req_map_type b \<noteq> BIUS_DATAMAP_UNMAPPED then Some (0, request, connection, m)
      else do {
        st \<leftarrow> map_segments api (request_is_write (req_type request)) connection
                (rq_segments api (rq_bio rq))
                \<lparr>ms_list_entry_index = 0, ms_next_reserved = 2, ms_user_addr = vm_start vma,
                 ms_user_page_num = 0, ms_segment_end_aligned = False,
                 ms_ptes = cn_ptes connection, ms_mapping_list = cn_mapping_list connection,
                 ms_reserve_list = cn_reserve_list connection, ms_mem = m\<rparr>;
        (b, st) \<leftarrow> map_finish connection b st;
        Some (0, set_blk_fields (b\<lparr>req_mapped_size := ms_user_addr st - vm_start vma\<rparr>) request,
              connection\<lparr>cn_ptes := ms_ptes st, cn_mapping_list := ms_mapping_list st,
                         cn_reserve_list := ms_reserve_list st\<rparr>, ms_mem st)
      })
   }"

section \<open>Copying partly used pages back\<close>

text \<open>
  The loop of \<open>bius_copy_in_misaligned_pages\<close>. The index expressions are those of the
  source: the front offset and the tail length read \<^verbatim>\<open>mapping_list[i]\<close>, the other accesses
  \<^verbatim>\<open>mapping_list[i * 2]\<close>.
\<close>

function misaligned_loop ::
  "(nat \<Rightarrow> nat) \<Rightarrow> (nat \<Rightarrow> nat) \<Rightarrow> nat \<Rightarrow> nat \<Rightarrow> nat \<Rightarrow> mem \<Rightarrow> mem option" where
  "misaligned_loop mapping_list reserve_list reserved_pages i reserved_page_num m =
     (if MAPPING_LIST_WORDS \<le> i * 2 + 1 then None
      else if mapping_list (i * 2) = 0 then Some m
      else
        (let front_aligned = (mapping_list (i * 2) mod PAGE_SIZE = 0);
             end_aligned = ((mapping_list (i * 2) + mapping_list (i * 2 + 1)) mod PAGE_SIZE = 0);
             offset = mapping_list i mod PAGE_SIZE;
             whole = (offset + mapping_list (i * 2 + 1) < PAGE_SIZE);
             len = (if whole then mapping_list (i * 2 + 1) else PAGE_SIZE - offset);
             (m1, end_aligned1, rpn1) =
               (if \<not> front_aligned then
                  (mem_copy m (reserve_list reserved_page_num + offset)
                     (reserved_pages + PAGE_SIZE * reserved_page_num + offset) len,
                   whole \<or> end_aligned, reserved_page_num + 1)
                else (m, end_aligned, reserved_page_num));
             (m2, rpn2) =
               (if \<not> end_aligned1 then
                  (mem_copy m1 (reserve_list rpn1) (reserved_pages + PAGE_SIZE * rpn1)
                     ((mapping_list i + mapping_list (i * 2 + 1)) mod PAGE_SIZE), rpn1 + 1)
                else (m1, rpn1))
         in if BIUS_NUM_RESERVED_PAGES < rpn2 then None
            else misaligned_loop mapping_list reserve_list reserved_pages (i + 1) rpn2 m2))"
  by pat_completeness auto
termination
  by (relation "measure (\<lambda>(l, r, p, i, n, m). MAPPING_LIST_WORDS - i * 2)") auto

declare misaligned_loop.simps [simp del]

definition bius_copy_in_misaligned_pages ::
  "'bio bius_request \<Rightarrow> bius_connection \<Rightarrow> mem \<Rightarrow> mem option" where
  "bius_copy_in_misaligned_pages request connection m = do {
     b \<leftarrow> blk_fields request;
     (case req_map_type b of
        BIUS_DATAMAP_UNMAPPED \<Rightarrow> Some m
      | BIUS_DATAMAP_SIMPLE \<Rightarrow> do {
          vma \<leftarrow> cn_vma connection;
          misaligned_loop ((\<lambda>_. 0)(0 := vm_start vma + req_map_data b, 1 := req_length request))
            (cn_reserve_list connection) (cn_reserved_pages connection) 0 2 m
        }
      | BIUS_DATAMAP_LIST \<Rightarrow>
          misaligned_loop (cn_mapping_list connection) (cn_reserve_list connection)
            (cn_reserved_pages connection) 0 2 m)
   }"

section \<open>Unmapping\<close>

fun unmap_loop :: "nat \<Rightarrow> nat \<Rightarrow> nat \<Rightarrow> (nat \<Rightarrow> nat option) \<Rightarrow> (nat \<Rightarrow> nat option) option" where
  "unmap_loop zero_page_pfn i 0 ptes = Some ptes"
| "unmap_loop zero_page_pfn i (Suc n) ptes =
     (case set_pte ptes i zero_page_pfn of
        None \<Rightarrow> None
      | Some ptes' \<Rightarrow> unmap_loop zero_page_pfn (Suc i) n ptes')"

definition bius_unmap_data ::
  "nat \<Rightarrow> 'bio bius_request \<Rightarrow> bius_connection \<Rightarrow> ('bio bius_request \<times> bius_connection) option" where
  "bius_unmap_data zero_page_pfn request connection = do {
     vma \<leftarrow> cn_vma connection;
     b \<leftarrow> blk_fields request;
     (if req_map_type b = BIUS_DATAMAP_UNMAPPED then Some (request, connection)
      else do {
        ptes \<leftarrow> unmap_loop zero_page_pfn 0 (req_mapped_size b div PAGE_SIZE) (cn_ptes connection);
        Some (set_blk_fields (b\<lparr>req_map_type := BIUS_DATAMAP_UNMAPPED\<rparr>) request,
              connection\<lparr>cn_ptes := ptes\<rparr>)
      })
   }"

end
