(* ===== verification/Bius_Char_Dev.thy ===== *)
theory Bius_Char_Dev
  imports Bius_Block_Dev Bius_Data_Mapping
begin

text \<open>
  The file operations of \<^verbatim>\<open>/dev/bius\<close> (char_dev.c): open, read, write with the
  initialisation messages, release and mmap. \<open>datamap\<close> says whether the module is built with
  \<^verbatim>\<open>CONFIG_BIUS_DATAMAP\<close>; both builds are modelled. A call that would sleep is \<open>Blocked\<close>.
\<close>

section \<open>open\<close>

text \<open>\<open>kmalloc\<close> gives the address of the connection, \<open>kmalloc_pages\<close> that of the reserved pages.\<close>

definition bius_dev_open ::
  "bool \<Rightarrow> ptr option \<Rightarrow> (nat \<times> nat) option \<Rightarrow> 'bio kstate \<Rightarrow> int \<times> ptr option \<times> 'bio kstate" where
  "bius_dev_open datamap kmalloc kmalloc_pages s =
     (case kmalloc of
        None \<Rightarrow> (- ENOMEM, None, s)
      | Some c \<Rightarrow>
          let connection = (init_bius_connection
                \<lparr>cn_block_dev = None, cn_waiting = [], cn_sending = None, cn_vma = None,
                 cn_ptes = (\<lambda>_. None), cn_reserved_pages = 0, cn_reserved_pages_pfn = 0,
                 cn_mapping_list = (\<lambda>_. 0), cn_reserve_list = (\<lambda>_. 0)\<rparr>)\<lparr>cn_block_dev := None\<rparr>
          in if datamap then
               (case kmalloc_pages of
                  None \<Rightarrow> (- ENOMEM, None, s)
                | Some (pages, pfn) \<Rightarrow>
                    (0, Some c, put_conn c (connection\<lparr>cn_reserved_pages := pages,
                                                       cn_reserved_pages_pfn := pfn\<rparr>) s))
             else (0, Some c, put_conn c connection s))"

section \<open>read\<close>

datatype read_output = No_output | Header_output bius_k2u_header | Data_output "byte list"

text \<open>The continuation of an interrupted data transfer.\<close>

definition dev_read_sending ::
  "'bio bio_api \<Rightarrow> (nat \<Rightarrow> nat \<Rightarrow> nat) \<Rightarrow> ptr \<Rightarrow> ptr \<Rightarrow> nat \<Rightarrow> 'bio kstate
     \<Rightarrow> (int \<times> read_output \<times> 'bio kstate) option" where
  "dev_read_sending api copy_to_iter c p user_buffer_size s = do {
     connection \<leftarrow> ks_conns s c;
     request \<leftarrow> ks_reqs s p;
     (total_read, out, request) \<leftarrow>
       bius_send_data api copy_to_iter (ks_mem s) request user_buffer_size;
     let s = put_req p request s;
     done \<leftarrow> request_io_done request;
     Some (total_read, Data_output out,
           (if done then put_conn c (connection\<lparr>cn_sending := None\<rparr>) s else s))
   }"

text \<open>
  Preparing the data of the request just taken from the pending list: it is mapped, or
  registered as the request whose data the next reads deliver, or left alone.
\<close>

definition dev_read_prepare ::
  "'bio bio_api \<Rightarrow> bool \<Rightarrow> ptr \<Rightarrow> ptr \<Rightarrow> 'bio kstate \<Rightarrow> (int \<times> 'bio kstate) option" where
  "dev_read_prepare api datamap c p s = do {
     connection \<leftarrow> ks_conns s c;
     request \<leftarrow> ks_reqs s p;
     (if request_may_have_data (req_type request) \<and> 0 < req_length request then
        (if datamap \<and> BIUS_MAP_DATA_THRESHOLD < req_length request then do {
           rq \<leftarrow> ks_rqs s p;
           (ret, request, connection, m) \<leftarrow> bius_map_data api rq request connection (ks_mem s);
           Some (ret, (put_conn c connection (put_req p request s))\<lparr>ks_mem := m\<rparr>)
         }
         else if request_is_write (req_type request) then do {
           b \<leftarrow> blk_fields request;
           Some (0, put_conn c (connection\<lparr>cn_sending := Some p\<rparr>)
                      (put_req p (set_blk_fields (b\<lparr>req_map_data := req_length request\<rparr>) request) s))
         }
         else Some (0, s))
      else Some (0, s))
   }"

text \<open>Sending the command header and moving the request to the waiting list.\<close>

definition dev_read_command ::
  "bool \<Rightarrow> (nat \<Rightarrow> nat \<Rightarrow> nat) \<Rightarrow> ptr \<Rightarrow> ptr \<Rightarrow> 'bio kstate
     \<Rightarrow> (int \<times> read_output \<times> 'bio kstate) option" where
  "dev_read_command datamap copy_to_iter c p s = do {
     connection \<leftarrow> ks_conns s c;
     request \<leftarrow> ks_reqs s p;
     (ret, header) \<leftarrow> bius_send_command datamap copy_to_iter connection request;
     (if ret \<le> 0 then do {
        s \<leftarrow> end_blk_request p (ucast BLK_STS_IOERR) s;
        Some (ret, No_output, put_conn c (connection\<lparr>cn_sending := None\<rparr>) s)
      }
      else Some (ret, Header_output header,
                 put_conn c (connection\<lparr>cn_waiting := cn_waiting connection @ [p]\<rparr>) s))
   }"

definition bius_dev_read ::
  "'bio bio_api \<Rightarrow> bool \<Rightarrow> (nat \<Rightarrow> nat \<Rightarrow> nat) \<Rightarrow> bool \<Rightarrow> ptr \<Rightarrow> nat \<Rightarrow> 'bio kstate
     \<Rightarrow> (int \<times> read_output \<times> 'bio kstate) call_result option" where
  "bius_dev_read api datamap copy_to_iter signal c user_buffer_size s = do {
     connection \<leftarrow> ks_conns s c;
     (case cn_block_dev connection of
        None \<Rightarrow> Some (Returned (- EIO, No_output, s))
      | Some d \<Rightarrow>
          (case cn_sending connection of
             Some p \<Rightarrow> do {
               r \<leftarrow> dev_read_sending api copy_to_iter c p user_buffer_size s;
               Some (Returned r)
             }
           | None \<Rightarrow>
               if user_buffer_size < SIZEOF_K2U_HEADER then Some (Returned (- EINVAL, No_output, s))
               else do {
                 device \<leftarrow> ks_devs s d;
                 (case bd_pending device of
                    [] \<Rightarrow> Some (if signal then Returned (- ERESTARTSYS, No_output, s) else Blocked)
                  | p # rest \<Rightarrow> do {
                      let s = put_dev d (device\<lparr>bd_pending := rest\<rparr>) s;
                      (ret, s) \<leftarrow> dev_read_prepare api datamap c p s;
                      (if ret < 0 then do {
                         s \<leftarrow> end_blk_request p (ucast BLK_STS_IOERR) s;
                         Some (Returned (ret, No_output, s))
                       }
                       else do {
                         r \<leftarrow> dev_read_command datamap copy_to_iter c p s;
                         Some (Returned r)
                       })
                    })
               }))
   }"

section \<open>write\<close>

text \<open>
  The initialisation messages. \<^verbatim>\<open>result\<close> is an \<^verbatim>\<open>unsigned long\<close>, so the test
  \<^verbatim>\<open>result < 0\<close> on the value of \<open>create_block_device\<close> never holds; when the creation failed
  the variable \<^verbatim>\<open>device\<close> is used without a value.
\<close>

definition init_device ::
  "create_env \<Rightarrow> user_env \<Rightarrow> bius_u2k_header \<Rightarrow> 'bio kstate \<Rightarrow> (int + (ptr \<times> 'bio kstate)) option" where
  "init_device env ue header s =
     (let user_buffer = unat (u2k_user_data header) in
      if u2k_type header = bius_req_code BIUS_CREATE then
        (let (result, bs) = copy_from_user ue user_buffer SIZEOF_OPTIONS; options = options_of_bytes bs in
         if result \<noteq> 0 then Some (Inl (- EIO))
         else
           (let (ret, device, calls, s) = create_block_device env options s;
                result = (word_of_int ret :: u64)
            in if result < 0 then Some (Inl (- ret))
               else do {
                 d \<leftarrow> device;
                 Some (Inr (d, if opt_model options \<noteq> BLK_ZONED_NONE then bius_revalidate d s else s))
               }))
      else if u2k_type header = bius_req_code BIUS_CONNECT then
        (let name_length = min DISK_NAME_LEN (unat (u2k_length header));
             (result, bs) = copy_from_user ue user_buffer name_length;
             disk_name = blit (replicate DISK_NAME_LEN 0) 0 bs
         in if result \<noteq> 0 then Some (Inl (- EIO))
            else do {
              found \<leftarrow> get_block_device disk_name s;
              (case found of
                 None \<Rightarrow> Some (Inl (- ENOENT))
               | Some d \<Rightarrow> Some (Inr (d, s)))
            })
      else Some (Inl (- EINVAL)))"

definition handle_initialization ::
  "create_env \<Rightarrow> user_env \<Rightarrow> ptr \<Rightarrow> bius_u2k_header \<Rightarrow> 'bio kstate \<Rightarrow> (int \<times> 'bio kstate) option" where
  "handle_initialization env ue c header s = do {
     r \<leftarrow> init_device env ue header s;
     (case r of
        Inl e \<Rightarrow> Some (e, s)
      | Inr (d, s) \<Rightarrow> do {
          device \<leftarrow> ks_devs s d;
          connection \<leftarrow> ks_conns s c;
          Some (int SIZEOF_U2K_HEADER,
                put_conn c (connection\<lparr>cn_block_dev := Some d\<rparr>)
                  (put_dev d (device\<lparr>bd_num_connection := bd_num_connection device + 1\<rparr>) s))
        })
   }"

text \<open>The data of a successful read, before the request is ended; a negative result is an error.\<close>

definition dev_write_data ::
  "'bio bio_api \<Rightarrow> bool \<Rightarrow> user_env \<Rightarrow> ptr \<Rightarrow> ptr \<Rightarrow> bius_u2k_header \<Rightarrow> 'bio kstate
     \<Rightarrow> (int \<times> 'bio kstate) option" where
  "dev_write_data api datamap ue c p header s = do {
     connection \<leftarrow> ks_conns s c;
     request \<leftarrow> ks_reqs s p;
     (if u2k_reply header = int (unat BLK_STS_OK) \<and> req_type request = BIUS_READ then
        (if \<not> datamap \<or> req_length request \<le> BIUS_MAP_DATA_THRESHOLD then do {
           rq \<leftarrow> ks_rqs s p;
           (ret, m) \<leftarrow> bius_receive_data api ue rq request (unat (u2k_user_data header)) (ks_mem s);
           Some (ret, s\<lparr>ks_mem := m\<rparr>)
         } else do {
           m \<leftarrow> bius_copy_in_misaligned_pages request connection (ks_mem s);
           Some (0, s\<lparr>ks_mem := m\<rparr>)
         })
      else Some (0, s))
   }"

definition dev_write_unmap ::
  "bool \<Rightarrow> nat \<Rightarrow> ptr \<Rightarrow> ptr \<Rightarrow> 'bio kstate \<Rightarrow> 'bio kstate option" where
  "dev_write_unmap datamap zero_page_pfn c p s =
     (if datamap then do {
        connection \<leftarrow> ks_conns s c;
        request \<leftarrow> ks_reqs s p;
        (request, connection) \<leftarrow> bius_unmap_data zero_page_pfn request connection;
        Some (put_conn c connection (put_req p request s))
      } else Some s)"

definition dev_write_blk ::
  "'bio bio_api \<Rightarrow> bool \<Rightarrow> nat \<Rightarrow> user_env \<Rightarrow> ptr \<Rightarrow> ptr \<Rightarrow> bius_u2k_header \<Rightarrow> int \<Rightarrow> 'bio kstate
     \<Rightarrow> (int \<times> 'bio kstate) option" where
  "dev_write_blk api datamap zero_page_pfn ue c p header total_written s = do {
     (ret, s) \<leftarrow> dev_write_data api datamap ue c p header s;
     (if ret < 0 then do {
        s \<leftarrow> end_blk_request p (ucast BLK_STS_IOERR) s;
        Some (ret, s)
      }
      else do {
        s \<leftarrow> dev_write_unmap datamap zero_page_pfn c p s;
        request \<leftarrow> ks_reqs s p;
        let s = (if req_type request = BIUS_ZONE_APPEND
                 then put_req p (request\<lparr>req_pos := u2k_user_data header\<rparr>) s else s);
        s \<leftarrow> end_blk_request p (word_of_int (u2k_reply header)) s;
        Some (total_written, s)
      })
   }"

text \<open>
  The answer to a zone report. The number of bytes copied is the reply of the user process;
  a reply that exceeds the buffer the request points to writes outside it.
\<close>

definition dev_write_zones ::
  "user_env \<Rightarrow> ptr \<Rightarrow> bius_u2k_header \<Rightarrow> int \<Rightarrow> 'bio kstate \<Rightarrow> (int \<times> 'bio kstate) option" where
  "dev_write_zones ue p header total_written s =
     (if u2k_reply header \<le> 0 then do {
        s \<leftarrow> end_request_int p (to_c_int (u2k_reply header)) s;
        Some (total_written, s)
      }
      else do {
        request \<leftarrow> ks_reqs s p;
        i \<leftarrow> int_fields request;
        let n = nat (u2k_reply header);
        (if length (req_data i) < n then None
         else do {
           let (result, bs) = copy_from_user ue (unat (u2k_user_data header)) n;
           let s = put_req p (set_int_fields (i\<lparr>req_data := blit (req_data i) 0 bs\<rparr>) request) s;
           s \<leftarrow> end_request_int p (if 0 < result then - EINVAL else to_c_int (u2k_reply header)) s;
           Some (total_written, s)
         })
      })"

text \<open>\<open>copied\<close> is the result of \<^verbatim>\<open>copy_from_iter\<close>, which fills the header.\<close>

definition bius_dev_write ::
  "'bio bio_api \<Rightarrow> bool \<Rightarrow> nat \<Rightarrow> create_env \<Rightarrow> user_env \<Rightarrow> nat \<Rightarrow> bius_u2k_header
     \<Rightarrow> ptr \<Rightarrow> nat \<Rightarrow> 'bio kstate \<Rightarrow> (int \<times> 'bio kstate) option" where
  "bius_dev_write api datamap zero_page_pfn env ue copied header c user_buffer_size s = do {
     connection \<leftarrow> ks_conns s c;
     (if user_buffer_size < SIZEOF_U2K_HEADER then Some (- EINVAL, s)
      else if copied = 0 then Some (0, s)
      else if cn_block_dev connection = None then handle_initialization env ue c header s
      else do {
        found \<leftarrow> get_request_by_id (ks_reqs s) (cn_waiting connection) (u2k_id header);
        (case found of
           None \<Rightarrow> Some (- EINVAL, s)
         | Some p \<Rightarrow> do {
             let s = put_conn c (connection\<lparr>cn_waiting := remove1 p (cn_waiting connection),
                       cn_sending := (if cn_sending connection = Some p then None
                                      else cn_sending connection)\<rparr>) s;
             request \<leftarrow> ks_reqs s p;
             (if is_blk_request (req_type request)
              then dev_write_blk api datamap zero_page_pfn ue c p header (int copied) s
              else dev_write_zones ue p header (int copied) s)
           })
      })
   }"

section \<open>release and mmap\<close>

text \<open>The walk over the waiting list reads links of ended requests like that of \<open>end_pending\<close>.\<close>

fun end_waiting :: "ptr list \<Rightarrow> 'bio kstate \<Rightarrow> 'bio kstate option" where
  "end_waiting [] s = Some s"
| "end_waiting (p # ps) s =
     (case end_blk_request p (ucast BLK_STS_IOERR) s of
        None \<Rightarrow> None
      | Some s' \<Rightarrow> end_waiting ps s')"

definition bius_dev_release :: "ptr \<Rightarrow> 'bio kstate \<Rightarrow> (int \<times> 'bio kstate) option" where
  "bius_dev_release c s = do {
     connection \<leftarrow> ks_conns s c;
     s \<leftarrow> end_waiting (cn_waiting connection) s;
     s \<leftarrow> (case cn_block_dev connection of
             None \<Rightarrow> Some s
           | Some d \<Rightarrow> do {
               device \<leftarrow> ks_devs s d;
               let n = bd_num_connection device - 1;
               let s = put_dev d (device\<lparr>bd_num_connection := n\<rparr>) s;
               (if n = 0 then do {
                  (calls, s) \<leftarrow> remove_block_device (bd_disk_name device) s;
                  Some s
                } else Some s)
             });
     Some (0, s\<lparr>ks_conns := (ks_conns s)(c := None)\<rparr>)
   }"

definition bius_dev_mmap ::
  "(nat \<Rightarrow> int) \<Rightarrow> (nat \<Rightarrow> int) \<Rightarrow> nat \<Rightarrow> ptr \<Rightarrow> vm_area \<Rightarrow> 'bio kstate \<Rightarrow> (int \<times> 'bio kstate) option" where
  "bius_dev_mmap partial_map_pfn follow_pte zero_page_pfn c vma s = do {
     connection \<leftarrow> ks_conns s c;
     (if cn_vma connection \<noteq> None then Some (- EBUSY, s)
      else if usub64 (vm_end vma) (vm_start vma) < BIUS_MAX_SIZE_PER_COMMAND then Some (- EINVAL, s)
      else Some (0, put_conn c (bius_vm_open partial_map_pfn follow_pte zero_page_pfn vma
                                  (connection\<lparr>cn_vma := Some vma\<rparr>)) s))
   }"

text \<open>Module initialisation: the zero page of the mapping build, then the misc device.\<close>

definition bius_dev_init :: "bool \<Rightarrow> nat option \<Rightarrow> int \<Rightarrow> int \<times> nat option" where
  "bius_dev_init datamap kzalloc misc_register =
     (if datamap then
        (case kzalloc of None \<Rightarrow> (- ENOMEM, None) | Some page \<Rightarrow> (misc_register, Some page))
      else (misc_register, None))"

text \<open>What unloading the module does: the entry points of main.c call these two functions.\<close>

datatype module_call = Misc_deregister | Kfree_zero_page nat

definition bius_dev_exit :: "nat option \<Rightarrow> module_call list" where
  "bius_dev_exit zero_page = Misc_deregister # (case zero_page of None \<Rightarrow> [] | Some page \<Rightarrow> [Kfree_zero_page page])"

definition bius_init :: "bool \<Rightarrow> nat option \<Rightarrow> int \<Rightarrow> int \<times> nat option" where
  "bius_init datamap kzalloc misc_register = bius_dev_init datamap kzalloc misc_register"

definition bius_exit :: "nat option \<Rightarrow> module_call list" where
  "bius_exit zero_page = bius_dev_exit zero_page"

end
