(* ===== verification/Bius_Lifecycle.thy ===== *)
theory Bius_Lifecycle
  imports Bius_Types
begin

text \<open>
  The abstract specification of the driver: what happens to a request, without the data, the
  identifiers and the memory. A request is pending at one device, or waiting at one
  connection for the user's answer, or nowhere; \<open>life_done\<close> is the log of answers given to the
  block layer. \<open>life_step\<close> is the step relation the kernel operations refine, and the law of
  conservation says that every submission is answered exactly once or is still in flight.
\<close>

section \<open>The state machine\<close>

datatype place = Pending ptr | Waiting ptr

record life =
  life_at :: "place \<Rightarrow> ptr list"
  life_done :: "(ptr \<times> kblk_status) list"

datatype life_event =
    Submit ptr ptr
  | Reject ptr kblk_status
  | Take ptr ptr ptr
  | Take_fail ptr ptr kblk_status
  | Answer ptr ptr kblk_status
  | Answer_zones ptr ptr
  | Drain place "ptr list" kblk_status

definition flying :: "(place \<Rightarrow> ptr list) \<Rightarrow> ptr \<Rightarrow> bool" where
  "flying f p \<longleftrightarrow> (\<exists>pl. p \<in> set (f pl))"

definition in_flight :: "life \<Rightarrow> ptr \<Rightarrow> bool" where
  "in_flight L p = flying (life_at L) p"

inductive life_step :: "life \<Rightarrow> life_event \<Rightarrow> life \<Rightarrow> bool" where
  submit: "\<not> in_flight L p \<Longrightarrow>
     life_step L (Submit d p)
       (L\<lparr>life_at := (life_at L)(Pending d := life_at L (Pending d) @ [p])\<rparr>)"
| reject: "\<not> in_flight L p \<Longrightarrow>
     life_step L (Reject p st) (L\<lparr>life_done := life_done L @ [(p, st)]\<rparr>)"
| take: "life_at L (Pending d) = p # rest \<Longrightarrow>
     life_step L (Take d c p)
       (L\<lparr>life_at := (life_at L)(Pending d := rest, Waiting c := life_at L (Waiting c) @ [p])\<rparr>)"
| take_fail: "life_at L (Pending d) = p # rest \<Longrightarrow>
     life_step L (Take_fail d p st)
       (L\<lparr>life_at := (life_at L)(Pending d := rest), life_done := life_done L @ [(p, st)]\<rparr>)"
| answer: "p \<in> set (life_at L (Waiting c)) \<Longrightarrow>
     life_step L (Answer c p st)
       (L\<lparr>life_at := (life_at L)(Waiting c := remove1 p (life_at L (Waiting c))),
          life_done := life_done L @ [(p, st)]\<rparr>)"
| answer_zones: "p \<in> set (life_at L (Waiting c)) \<Longrightarrow>
     life_step L (Answer_zones c p)
       (L\<lparr>life_at := (life_at L)(Waiting c := remove1 p (life_at L (Waiting c)))\<rparr>)"
| drain: "ps = life_at L pl \<Longrightarrow>
     life_step L (Drain pl ps st)
       (L\<lparr>life_at := (life_at L)(pl := []),
          life_done := life_done L @ map (\<lambda>p. (p, st)) ps\<rparr>)"

inductive life_run :: "life \<Rightarrow> life_event list \<Rightarrow> life \<Rightarrow> bool" where
  life_run_nil: "life_run L [] L"
| life_run_snoc: "life_run L es M \<Longrightarrow> life_step M e N \<Longrightarrow> life_run L (es @ [e]) N"

inductive_cases life_run_nilE: "life_run L [] M"

definition init_life :: life where
  "init_life = \<lparr>life_at = (\<lambda>_. []), life_done = []\<rparr>"

text \<open>Each request is at one place at most, once at most.\<close>

definition at_wf :: "(place \<Rightarrow> ptr list) \<Rightarrow> bool" where
  "at_wf f \<longleftrightarrow> (\<forall>pl. distinct (f pl)) \<and>
     (\<forall>pl pl' p. p \<in> set (f pl) \<longrightarrow> p \<in> set (f pl') \<longrightarrow> pl = pl')"

fun submissions :: "life_event \<Rightarrow> ptr list" where
  "submissions (Submit d p) = [p]"
| "submissions (Reject p st) = [p]"
| "submissions _ = []"

fun answers :: "life_event \<Rightarrow> ptr list" where
  "answers (Reject p st) = [p]"
| "answers (Take_fail d p st) = [p]"
| "answers (Answer c p st) = [p]"
| "answers (Answer_zones c p) = [p]"
| "answers (Drain pl ps st) = ps"
| "answers _ = []"

text \<open>The answers that reach the log: those to block requests.\<close>

fun logged :: "life_event \<Rightarrow> ptr list" where
  "logged (Answer_zones c p) = []"
| "logged e = answers e"

section \<open>Places\<close>

lemma at_wf_shrink:
  "at_wf f \<Longrightarrow> set xs \<subseteq> set (f pl) \<Longrightarrow> distinct xs \<Longrightarrow> at_wf (f(pl := xs))"
  by (auto simp: at_wf_def)

lemma at_wf_append: "at_wf f \<Longrightarrow> \<not> flying f p \<Longrightarrow> at_wf (f(pl := f pl @ [p]))"
  by (auto simp: at_wf_def flying_def)

lemma at_wf_distinct: "at_wf f \<Longrightarrow> distinct (f pl)"
  by (simp add: at_wf_def)

lemma at_wf_unique: "at_wf f \<Longrightarrow> p \<in> set (f pl) \<Longrightarrow> p \<in> set (f pl') \<Longrightarrow> pl = pl'"
  by (auto simp: at_wf_def)

lemma flying_append: "flying (f(pl := f pl @ [p])) q \<longleftrightarrow> flying f q \<or> q = p"
  by (auto simp: flying_def split: if_splits)

lemma flying_shrink:
  assumes "at_wf f" "set (f pl) = set xs \<union> ps" "set xs \<inter> ps = {}"
  shows "flying (f(pl := xs)) q \<longleftrightarrow> flying f q \<and> q \<notin> ps"
proof -
  have "q \<notin> set (f pl')" if "q \<in> set (f pl)" "pl' \<noteq> pl" for pl'
    using at_wf_unique [OF assms(1) that(1)] that(2) by blast
  moreover have "q \<in> set (f pl) \<longleftrightarrow> q \<in> set xs \<or> q \<in> ps" "\<not> (q \<in> set xs \<and> q \<in> ps)"
    using assms(2,3) by auto
  ultimately show ?thesis by (auto simp: flying_def)
qed

lemma flying_head:
  "at_wf f \<Longrightarrow> f pl = p # rest \<Longrightarrow> flying (f(pl := rest)) q \<longleftrightarrow> flying f q \<and> q \<noteq> p"
  using flying_shrink [of f pl rest "{p}" q] at_wf_distinct [of f pl] by auto

lemma flying_remove1:
  "at_wf f \<Longrightarrow> p \<in> set (f pl) \<Longrightarrow>
     flying (f(pl := remove1 p (f pl))) q \<longleftrightarrow> flying f q \<and> q \<noteq> p"
  using flying_shrink [of f pl "remove1 p (f pl)" "{p}" q] at_wf_distinct [of f pl]
  by (auto simp: set_remove1_distinct)

lemma flying_clear: "at_wf f \<Longrightarrow> flying (f(pl := [])) q \<longleftrightarrow> flying f q \<and> q \<notin> set (f pl)"
  using flying_shrink [of f pl "[]" "set (f pl)" q] by simp

lemma at_wf_tail: "at_wf f \<Longrightarrow> f pl = p # rest \<Longrightarrow> at_wf (f(pl := rest))"
  using at_wf_distinct [of f pl] by (intro at_wf_shrink) auto

lemma move_eq: "pl \<noteq> pl' \<Longrightarrow>
    f(pl := rest, pl' := f pl' @ [p]) = (f(pl := rest))(pl' := (f(pl := rest)) pl' @ [p])"
  by simp

lemma at_wf_move:
  assumes "at_wf f" "f pl = p # rest" "pl \<noteq> pl'"
  shows "at_wf (f(pl := rest, pl' := f pl' @ [p]))"
  unfolding move_eq [OF assms(3)]
  by (rule at_wf_append [OF at_wf_tail [OF assms(1,2)]]) (simp add: flying_head [OF assms(1,2)])

lemma flying_move:
  assumes "at_wf f" "f pl = p # rest" "pl \<noteq> pl'"
  shows "flying (f(pl := rest, pl' := f pl' @ [p])) q \<longleftrightarrow> flying f q"
proof -
  have "flying f p" using assms(2) by (auto simp: flying_def intro: exI [of _ pl])
  then show ?thesis
    unfolding move_eq [OF assms(3)] flying_append flying_head [OF assms(1,2)] by auto
qed

lemma at_wf_remove1: "at_wf f \<Longrightarrow> at_wf (f(pl := remove1 p (f pl)))"
  by (rule at_wf_shrink) (auto simp: at_wf_distinct set_remove1_distinct)

lemma at_wf_clear: "at_wf f \<Longrightarrow> at_wf (f(pl := []))"
  by (rule at_wf_shrink) auto

lemmas at_wf_intros = at_wf_append at_wf_move at_wf_tail at_wf_remove1 at_wf_clear

lemmas flying_simps = flying_append flying_head flying_remove1 flying_clear flying_move

section \<open>Invariance and conservation\<close>

lemma at_wf_init: "at_wf (life_at init_life)"
  by (simp add: at_wf_def init_life_def)

lemma life_step_at_wf:
  assumes "life_step L e M" "at_wf (life_at L)"
  shows "at_wf (life_at M)"
  using assms
  by (cases rule: life_step.cases)
    (auto simp: in_flight_def intro: at_wf_intros)

definition flight_count :: "life \<Rightarrow> ptr \<Rightarrow> nat" where
  "flight_count L p = (if in_flight L p then 1 else 0)"

lemma count_list_distinct: "distinct xs \<Longrightarrow> count_list xs p = (if p \<in> set xs then 1 else 0)"
  by (induction xs) auto

lemma flying_here: "p \<in> set (f pl) \<Longrightarrow> flying f p"
  by (auto simp: flying_def)

text \<open>Whether a request is in flight changes by its submission and its answer only.\<close>

lemma flight_count_step:
  assumes step: "life_step L e M" and wf: "at_wf (life_at L)"
  shows "count_list (submissions e) p + flight_count L p = count_list (answers e) p + flight_count M p"
  using step
proof (cases rule: life_step.cases)
  case (take_fail d q rest st)
  then have "flying (life_at L) q" by (auto intro: flying_here [of _ _ "Pending d"])
  with take_fail wf show ?thesis by (auto simp: flight_count_def in_flight_def flying_simps)
next
  case (drain ps pl st)
  then show ?thesis
    using wf at_wf_distinct [OF wf, of pl] flying_here [of p "life_at L" pl]
    by (auto simp: flight_count_def in_flight_def flying_simps count_list_distinct)
qed (use wf in \<open>auto simp: flight_count_def in_flight_def flying_simps dest: flying_here\<close>)

lemma life_run_at_wf: "life_run L es M \<Longrightarrow> at_wf (life_at L) \<Longrightarrow> at_wf (life_at M)"
  by (induction rule: life_run.induct) (auto intro: life_step_at_wf)

lemma life_run_conservation:
  assumes "life_run L es M" "at_wf (life_at L)"
  shows "count_list (concat (map submissions es)) p + flight_count L p =
         count_list (concat (map answers es)) p + flight_count M p"
  using assms
proof (induction rule: life_run.induct)
  case (life_run_snoc L es M e N)
  with flight_count_step [OF life_run_snoc.hyps(2) life_run_at_wf, of L es p] show ?case by simp
qed simp

lemma life_step_logged:
  "life_step L e M \<Longrightarrow> map fst (life_done M) = map fst (life_done L) @ logged e"
  by (cases rule: life_step.cases) (auto simp: comp_def)

lemma life_run_logged:
  "life_run L es M \<Longrightarrow> map fst (life_done M) = map fst (life_done L) @ concat (map logged es)"
  by (induction rule: life_run.induct) (auto dest: life_step_logged)

lemma life_run_single: "life_step L e M \<Longrightarrow> life_run L [e] M"
  using life_run_snoc [OF life_run_nil, of L e M] by simp

lemma life_run_pair: "life_step L e M \<Longrightarrow> life_step M f N \<Longrightarrow> life_run L [e, f] N"
  using life_run_snoc [OF life_run_single, of L e M f N] by simp

lemma life_run_append: "life_run M fs N \<Longrightarrow> life_run L es M \<Longrightarrow> life_run L (es @ fs) N"
proof (induction rule: life_run.induct)
  case (life_run_snoc M fs N f K)
  then show ?case using life_run.life_run_snoc [of L "es @ fs" N f K] by simp
qed simp

end
