(* ===== verification/Bius_Invariant.thy ===== *)
theory Bius_Invariant
  imports Bius_Char_Dev Bius_Lifecycle
begin

text \<open>
  The invariant of the kernel module. It is stated on a view of the state that keeps what the
  life of requests depends on: the lists, the kind and identifier of each request, the number
  of connections of each device. Each lemma of the last section says that one kind of change
  to the view keeps the invariant; the operations are shown to make these changes elsewhere.
\<close>

section \<open>The view\<close>

record req_view =
  rv_id :: u64
  rv_type :: bius_req
  rv_end :: request_end_fn
  rv_blk :: bool
  rv_woken :: bool

record conn_view =
  cv_dev :: "ptr option"
  cv_waiting :: "ptr list"
  cv_sending :: "ptr option"

record kview =
  kv_next :: u64
  kv_list :: "ptr list"
  kv_devs :: "ptr \<Rightarrow> bius_block_device option"
  kv_conns :: "ptr \<Rightarrow> conn_view option"
  kv_reqs :: "ptr \<Rightarrow> req_view option"
  kv_rqs :: "ptr \<Rightarrow> bool option"

definition req_view_of :: "'bio bius_request \<Rightarrow> req_view" where
  "req_view_of r = \<lparr>rv_id = req_id r, rv_type = req_type r, rv_end = on_request_end r,
                    rv_blk = (blk_fields r \<noteq> None),
                    rv_woken = (case int_fields r of None \<Rightarrow> False | Some i \<Rightarrow> req_sem i \<noteq> 0)\<rparr>"

definition conn_view_of :: "bius_connection \<Rightarrow> conn_view" where
  "conn_view_of c = \<lparr>cv_dev = cn_block_dev c, cv_waiting = cn_waiting c, cv_sending = cn_sending c\<rparr>"

text \<open>Of a block-layer request the view keeps whether it has a bio.\<close>

definition rq_view_of :: "'bio rq \<Rightarrow> bool" where
  "rq_view_of q = (rq_bio q \<noteq> [])"

definition view_of :: "'bio kstate \<Rightarrow> kview" where
  "view_of s = \<lparr>kv_next = ks_next_request_id s, kv_list = ks_all_disk_list s, kv_devs = ks_devs s,
     kv_conns = map_option conn_view_of \<circ> ks_conns s,
     kv_reqs = map_option req_view_of \<circ> ks_reqs s,
     kv_rqs = map_option rq_view_of \<circ> ks_rqs s\<rparr>"

text \<open>The lists that hold requests. A device that was removed holds none.\<close>

fun place_list :: "kview \<Rightarrow> place \<Rightarrow> ptr list" where
  "place_list v (Pending d) =
     (if d \<in> set (kv_list v) then (case kv_devs v d of None \<Rightarrow> [] | Some dev \<Rightarrow> bd_pending dev) else [])"
| "place_list v (Waiting c) = (case kv_conns v c of None \<Rightarrow> [] | Some cn \<Rightarrow> cv_waiting cn)"

declare place_list.simps [simp del]

definition live :: "kview \<Rightarrow> ptr \<Rightarrow> bool" where
  "live v p = flying (place_list v) p"

definition users :: "kview \<Rightarrow> ptr \<Rightarrow> ptr set" where
  "users v d = {c. \<exists>cn. kv_conns v c = Some cn \<and> cv_dev cn = Some d}"

section \<open>The invariant\<close>

definition request_ok :: "kview \<Rightarrow> ptr \<Rightarrow> req_view \<Rightarrow> bool" where
  "request_ok v p r \<longleftrightarrow>
     0 < unat (rv_id r) \<and> unat (rv_id r) \<le> unat (kv_next v) \<and>
     rv_blk r = is_blk_request (rv_type r) \<and> \<not> rv_woken r \<and>
     rv_end r = (if is_blk_request (rv_type r) then Blk_request_end else Report_zones_request_end) \<and>
     (if is_blk_request (rv_type r) then kv_rqs v p \<noteq> None else kv_rqs v p = None) \<and>
     (rv_type r = BIUS_ZONE_APPEND \<longrightarrow> kv_rqs v p = Some True)"

definition requests_inv :: "kview \<Rightarrow> bool" where
  "requests_inv v \<longleftrightarrow>
     at_wf (place_list v) \<and>
     (\<forall>p. live v p \<longrightarrow> (\<exists>r. kv_reqs v p = Some r \<and> request_ok v p r)) \<and>
     (\<forall>p q r r'. live v p \<longrightarrow> live v q \<longrightarrow> kv_reqs v p = Some r \<longrightarrow> kv_reqs v q = Some r' \<longrightarrow>
        rv_id r = rv_id r' \<longrightarrow> p = q)"

definition conn_ok :: "kview \<Rightarrow> conn_view \<Rightarrow> bool" where
  "conn_ok v cn \<longleftrightarrow>
     (case cv_dev cn of None \<Rightarrow> cv_waiting cn = [] | Some d \<Rightarrow> d \<in> set (kv_list v)) \<and>
     (\<forall>p. cv_sending cn = Some p \<longrightarrow> p \<in> set (cv_waiting cn) \<and>
        (\<exists>r. kv_reqs v p = Some r \<and> request_is_write (rv_type r)))"

definition conns_inv :: "kview \<Rightarrow> bool" where
  "conns_inv v \<longleftrightarrow> (\<forall>c cn. kv_conns v c = Some cn \<longrightarrow> conn_ok v cn)"

definition disk_key :: "kview \<Rightarrow> ptr \<Rightarrow> byte list option" where
  "disk_key v d = map_option (\<lambda>dev. c_str DISK_NAME_LEN (bd_disk_name dev)) (kv_devs v d)"

definition devs_inv :: "kview \<Rightarrow> bool" where
  "devs_inv v \<longleftrightarrow>
     distinct (kv_list v) \<and> inj_on (disk_key v) (set (kv_list v)) \<and> finite (dom (kv_conns v)) \<and>
     (\<forall>d \<in> set (kv_list v). \<exists>dev. kv_devs v d = Some dev \<and>
        unat (bd_num_connection dev) = card (users v d))"

definition view_inv :: "kview \<Rightarrow> bool" where
  "view_inv v \<longleftrightarrow> requests_inv v \<and> conns_inv v \<and> devs_inv v"

definition kinv :: "'bio kstate \<Rightarrow> bool" where
  "kinv s = view_inv (view_of s)"

definition life_of :: "'bio kstate \<Rightarrow> life" where
  "life_of s = \<lparr>life_at = place_list (view_of s), life_done = ks_ended s\<rparr>"

section \<open>Changes that keep the invariant\<close>

lemma requests_invD:
  assumes "requests_inv v" "live v p"
  obtains r where "kv_reqs v p = Some r" "request_ok v p r"
  using assms by (auto simp: requests_inv_def)

text \<open>
  A change that leaves the requests that stay live as they are, and adds none, keeps the
  request invariant as soon as the places stay well formed.
\<close>

lemma requests_inv_sub:
  assumes "requests_inv v" "at_wf (place_list v')" "\<And>p. live v' p \<Longrightarrow> live v p"
    and "\<And>p. live v' p \<Longrightarrow> kv_reqs v' p = kv_reqs v p \<and> kv_rqs v' p = kv_rqs v p"
    and "unat (kv_next v) \<le> unat (kv_next v')"
  shows "requests_inv v'"
proof -
  have "\<exists>r. kv_reqs v' p = Some r \<and> request_ok v' p r" if l: "live v' p" for p
  proof -
    obtain r where "kv_reqs v p = Some r" "request_ok v p r"
      using requests_invD [OF assms(1) assms(3) [OF l]] by blast
    then show ?thesis using assms(4) [OF l] assms(5) by (simp add: request_ok_def order.trans)
  qed
  moreover have "p = q" if "live v' p" "live v' q" "kv_reqs v' p = Some r" "kv_reqs v' q = Some r'"
    "rv_id r = rv_id r'" for p q r r'
    using assms(1) that(3-5) assms(3,4) [OF that(1)] assms(3,4) [OF that(2)]
    by (auto simp: requests_inv_def)
  ultimately show ?thesis using assms(2) by (auto simp: requests_inv_def)
qed

text \<open>A new request with the next identifier.\<close>

lemma requests_inv_submit:
  assumes inv: "requests_inv v" and p: "\<not> live v p" and wf: "at_wf (place_list v')"
    and live: "\<And>q. live v' q \<longleftrightarrow> live v q \<or> q = p"
    and same: "\<And>q. q \<noteq> p \<Longrightarrow> kv_reqs v' q = kv_reqs v q \<and> kv_rqs v' q = kv_rqs v q"
    and nxt: "kv_next v' = kv_next v + 1" "kv_next v \<noteq> - 1"
    and r: "kv_reqs v' p = Some r" "rv_id r = kv_next v'" "request_ok v' p r"
  shows "requests_inv v'"
proof -
  have up: "unat (kv_next v') = Suc (unat (kv_next v))"
    using nxt by (simp add: unat_inc)
  have old: "\<exists>r. kv_reqs v' q = Some r \<and> request_ok v' q r \<and> unat (rv_id r) \<le> unat (kv_next v)"
    if l: "live v q" for q
  proof -
    from l p have "q \<noteq> p" by blast
    obtain r where "kv_reqs v q = Some r" "request_ok v q r"
      using requests_invD [OF inv l] by blast
    then show ?thesis using same [OF \<open>q \<noteq> p\<close>] up by (auto simp: request_ok_def)
  qed
  have fresh: "rv_id r' \<noteq> rv_id r" if "live v q" "kv_reqs v' q = Some r'" for q r'
    using old [OF that(1)] that(2) r(2) up by auto
  have "a = b" if ab: "live v' a" "live v' b" "kv_reqs v' a = Some ra" "kv_reqs v' b = Some rb"
    "rv_id ra = rv_id rb" for a b ra rb
  proof (cases "a = p \<or> b = p")
    case True
    then show ?thesis using ab live fresh r(1) p by (metis option.inject)
  next
    case False
    then show ?thesis using ab live same inv by (auto simp: requests_inv_def)
  qed
  then show ?thesis unfolding requests_inv_def using wf live old r by blast
qed

lemma place_list_eqI:
  assumes "kv_list v' = kv_list v" "kv_devs v' = kv_devs v" "kv_conns v' = kv_conns v"
  shows "place_list v' = place_list v"
proof
  show "place_list v' pl = place_list v pl" for pl using assms by (cases pl) (simp_all add: place_list.simps)
qed

lemma place_list_dev:
  "d \<in> set (kv_list v) \<Longrightarrow>
     place_list (v\<lparr>kv_devs := (kv_devs v)(d \<mapsto> dev)\<rparr>) = (place_list v)(Pending d := bd_pending dev)"
proof
  show "d \<in> set (kv_list v) \<Longrightarrow> place_list (v\<lparr>kv_devs := (kv_devs v)(d \<mapsto> dev)\<rparr>) pl =
      ((place_list v)(Pending d := bd_pending dev)) pl" for pl
    by (cases pl) (auto simp: place_list.simps)
qed

lemma place_list_conn:
  "place_list (v\<lparr>kv_conns := (kv_conns v)(c := cn)\<rparr>) =
     (place_list v)(Waiting c := (case cn of None \<Rightarrow> [] | Some x \<Rightarrow> cv_waiting x))"
proof
  show "place_list (v\<lparr>kv_conns := (kv_conns v)(c := cn)\<rparr>) pl =
      ((place_list v)(Waiting c := (case cn of None \<Rightarrow> [] | Some x \<Rightarrow> cv_waiting x))) pl" for pl
    by (cases pl) (auto simp: place_list.simps)
qed

lemma place_list_unlist:
  "distinct (kv_list v) \<Longrightarrow>
     place_list (v\<lparr>kv_list := remove1 d (kv_list v)\<rparr>) = (place_list v)(Pending d := [])"
proof
  show "distinct (kv_list v) \<Longrightarrow> place_list (v\<lparr>kv_list := remove1 d (kv_list v)\<rparr>) pl =
      ((place_list v)(Pending d := [])) pl" for pl
    by (cases pl) (auto simp: place_list.simps set_remove1_distinct)
qed

lemma place_list_enlist:
  "place_list (v\<lparr>kv_list := kv_list v @ [d], kv_devs := (kv_devs v)(d \<mapsto> dev)\<rparr>) =
     (place_list v)(Pending d := bd_pending dev)"
proof
  show "place_list (v\<lparr>kv_list := kv_list v @ [d], kv_devs := (kv_devs v)(d \<mapsto> dev)\<rparr>) pl =
      ((place_list v)(Pending d := bd_pending dev)) pl" for pl
    by (cases pl) (auto simp: place_list.simps)
qed

lemmas place_list_upd = place_list_dev place_list_conn place_list_unlist place_list_enlist

lemma liveI: "p \<in> set (place_list v pl) \<Longrightarrow> live v p"
  by (auto simp: live_def flying_def)

lemma view_inv_places: "view_inv v \<Longrightarrow> at_wf (place_list v)"
  by (simp add: view_inv_def requests_inv_def)

lemma live_waiting: "kv_conns v c = Some cn \<Longrightarrow> p \<in> set (cv_waiting cn) \<Longrightarrow> live v p"
  by (rule liveI [of _ _ "Waiting c"]) (simp add: place_list.simps)

lemma live_pending:
  "d \<in> set (kv_list v) \<Longrightarrow> kv_devs v d = Some dev \<Longrightarrow> p \<in> set (bd_pending dev) \<Longrightarrow> live v p"
  by (rule liveI [of _ _ "Pending d"]) (simp add: place_list.simps)

text \<open>The device invariant sees a device's name and connection count, and the connections' devices.\<close>

definition dev_sig :: "bius_block_device \<Rightarrow> byte list \<times> u32" where
  "dev_sig dev = (c_str DISK_NAME_LEN (bd_disk_name dev), bd_num_connection dev)"

lemma devs_inv_cong:
  assumes "devs_inv v" "kv_list v' = kv_list v"
    and "\<And>d. d \<in> set (kv_list v) \<Longrightarrow> map_option dev_sig (kv_devs v' d) = map_option dev_sig (kv_devs v d)"
    and "\<And>c. map_option cv_dev (kv_conns v' c) = map_option cv_dev (kv_conns v c)"
  shows "devs_inv v'"
proof -
  have key: "disk_key v' d = disk_key v d" if "d \<in> set (kv_list v)" for d
    using assms(3) [OF that]
    by (cases "kv_devs v d"; cases "kv_devs v' d") (auto simp: disk_key_def dev_sig_def)
  have users: "users v' d = users v d" for d
    using assms(4) by (auto simp: users_def) (metis map_option_eq_Some)+
  have dom: "dom (kv_conns v') = dom (kv_conns v)"
    using assms(4) by (auto simp: dom_def) (metis map_option_eq_Some option.distinct(1) not_None_eq)+
  have count: "\<exists>dev. kv_devs v' d = Some dev \<and> unat (bd_num_connection dev) = card (users v d)"
    if d: "d \<in> set (kv_list v)" for d
  proof -
    obtain dev where "kv_devs v d = Some dev" "unat (bd_num_connection dev) = card (users v d)"
      using assms(1) d by (auto simp: devs_inv_def)
    then show ?thesis using assms(3) [OF d] by (auto simp: dev_sig_def)
  qed
  have "inj_on (disk_key v') (set (kv_list v'))"
    using assms(1,2) inj_on_cong [of "set (kv_list v)" "disk_key v'" "disk_key v"] key
    by (simp add: devs_inv_def)
  then show ?thesis using assms(1,2) count by (auto simp: devs_inv_def users dom)
qed

text \<open>The connection invariant under a change of requests that are not live.\<close>

lemma conns_invD: "conns_inv v \<Longrightarrow> kv_conns v c = Some cn \<Longrightarrow> conn_ok v cn"
  by (simp add: conns_inv_def)

lemma conn_ok_cong:
  assumes "conn_ok v cn" "kv_list v' = kv_list v"
    and "\<And>p. p \<in> set (cv_waiting cn) \<Longrightarrow>
           map_option rv_type (kv_reqs v' p) = map_option rv_type (kv_reqs v p)"
  shows "conn_ok v' cn"
proof -
  have "\<exists>r. kv_reqs v' p = Some r \<and> request_is_write (rv_type r)" if p: "cv_sending cn = Some p" for p
  proof -
    obtain r where "p \<in> set (cv_waiting cn)" "kv_reqs v p = Some r" "request_is_write (rv_type r)"
      using assms(1) p unfolding conn_ok_def by blast
    with assms(3) [of p] show ?thesis by auto
  qed
  then show ?thesis using assms(1,2) by (auto simp: conn_ok_def split: option.splits)
qed

lemma conn_ok_eqI: "kv_list v' = kv_list v \<Longrightarrow> kv_reqs v' = kv_reqs v \<Longrightarrow> conn_ok v' cn = conn_ok v cn"
  by (auto simp: conn_ok_def split: option.split)

lemma conns_inv_cong:
  assumes "conns_inv v" "kv_conns v' = kv_conns v" "kv_list v' = kv_list v"
    and "\<And>p. live v p \<Longrightarrow> map_option rv_type (kv_reqs v' p) = map_option rv_type (kv_reqs v p)"
  shows "conns_inv v'"
proof -
  have "conn_ok v' cn" if "kv_conns v' c = Some cn" for c cn
    by (rule conn_ok_cong [of v]) (use assms that in \<open>auto simp: conns_inv_def intro: live_waiting\<close>)
  then show ?thesis by (simp add: conns_inv_def)
qed

text \<open>Updating one connection.\<close>

lemma conns_inv_upd:
  assumes "conns_inv v" "conn_ok v cn"
  shows "conns_inv (v\<lparr>kv_conns := (kv_conns v)(c \<mapsto> cn)\<rparr>)"
  using assms conn_ok_eqI [of "v\<lparr>kv_conns := (kv_conns v)(c \<mapsto> cn)\<rparr>" v]
  by (simp add: conns_inv_def)

subsection \<open>Requests that are not live\<close>

lemma view_inv_same_places:
  assumes "view_inv v" "kv_list v' = kv_list v" "kv_devs v' = kv_devs v" "kv_conns v' = kv_conns v"
    and "unat (kv_next v) \<le> unat (kv_next v')"
    and "\<And>p. live v p \<Longrightarrow> kv_reqs v' p = kv_reqs v p \<and> kv_rqs v' p = kv_rqs v p"
  shows "view_inv v'"
proof -
  have pl: "place_list v' = place_list v" using assms(2-4) by (rule place_list_eqI)
  then have live: "live v' q = live v q" for q by (simp add: live_def)
  have "requests_inv v'"
  proof (rule requests_inv_sub [of v])
    show "at_wf (place_list v')" using view_inv_places [OF assms(1)] pl by simp
  qed (use assms live in \<open>auto simp: view_inv_def\<close>)
  moreover have "conns_inv v'"
    by (rule conns_inv_cong [OF _ assms(4,2)]) (use assms(1,6) in \<open>simp_all add: view_inv_def\<close>)
  moreover have "devs_inv v'"
    by (rule devs_inv_cong [OF _ assms(2)]) (use assms(1) in \<open>simp_all add: view_inv_def assms(3,4)\<close>)
  ultimately show ?thesis by (simp add: view_inv_def)
qed

lemma view_inv_dead_request:
  "view_inv v \<Longrightarrow> \<not> live v p \<Longrightarrow> view_inv (v\<lparr>kv_reqs := (kv_reqs v)(p := r)\<rparr>)"
  by (rule view_inv_same_places [of v]) auto

lemma view_inv_dead_rq:
  "view_inv v \<Longrightarrow> \<not> live v p \<Longrightarrow> view_inv (v\<lparr>kv_rqs := (kv_rqs v)(p := q)\<rparr>)"
  by (rule view_inv_same_places [of v]) auto

subsection \<open>Submission, delivery and answer\<close>

definition view_submit :: "ptr \<Rightarrow> ptr \<Rightarrow> bius_block_device \<Rightarrow> req_view \<Rightarrow> kview \<Rightarrow> kview" where
  "view_submit d p dev r v =
     v\<lparr>kv_next := kv_next v + 1, kv_reqs := (kv_reqs v)(p \<mapsto> r),
       kv_devs := (kv_devs v)(d \<mapsto> dev\<lparr>bd_pending := bd_pending dev @ [p]\<rparr>)\<rparr>"

lemma place_list_submit:
  assumes "d \<in> set (kv_list v)" "kv_devs v d = Some dev"
  shows "place_list (view_submit d p dev r v) =
     (place_list v)(Pending d := place_list v (Pending d) @ [p])"
proof -
  have "place_list (view_submit d p dev r v) =
      place_list (v\<lparr>kv_devs := (kv_devs v)(d \<mapsto> dev\<lparr>bd_pending := bd_pending dev @ [p]\<rparr>)\<rparr>)"
    by (rule place_list_eqI) (simp_all add: view_submit_def)
  then show ?thesis using assms by (simp add: place_list_dev place_list.simps)
qed

lemma view_inv_submit:
  assumes inv: "view_inv v" and d: "d \<in> set (kv_list v)" "kv_devs v d = Some dev"
    and p: "\<not> live v p" and nxt: "kv_next v \<noteq> - 1"
    and r: "rv_id r = kv_next v + 1" "request_ok (view_submit d p dev r v) p r"
  shows "view_inv (view_submit d p dev r v)"
proof -
  let ?v = "view_submit d p dev r v"
  note pl = place_list_submit [OF d, of p r]
  have "requests_inv ?v"
  proof (rule requests_inv_submit [of v p])
    show "at_wf (place_list ?v)"
      using view_inv_places [OF inv] p by (simp add: pl at_wf_append live_def)
    show "live ?v q \<longleftrightarrow> live v q \<or> q = p" for q
      by (simp add: live_def pl flying_append)
  qed (use assms in \<open>auto simp: view_inv_def view_submit_def\<close>)
  moreover have "conns_inv ?v"
    by (rule conns_inv_cong [of v]) (use inv p in \<open>auto simp: view_inv_def view_submit_def\<close>)
  moreover have "devs_inv ?v"
    by (rule devs_inv_cong [of v]) (use inv d in \<open>auto simp: view_inv_def view_submit_def dev_sig_def\<close>)
  ultimately show ?thesis by (simp add: view_inv_def)
qed

lemma place_list_Waiting:
  "kv_conns v c = Some cn \<Longrightarrow> place_list v (Waiting c) = cv_waiting cn"
  by (simp add: place_list.simps)

lemma place_list_Pending:
  "d \<in> set (kv_list v) \<Longrightarrow> kv_devs v d = Some dev \<Longrightarrow> place_list v (Pending d) = bd_pending dev"
  by (simp add: place_list.simps)

lemma devs_inv_conn:
  assumes "devs_inv v" "kv_conns v c = Some cn" "cv_dev cn' = cv_dev cn"
  shows "devs_inv (v\<lparr>kv_conns := (kv_conns v)(c \<mapsto> cn')\<rparr>)"
  by (rule devs_inv_cong [of v]) (use assms in auto)

lemma devs_inv_pending:
  assumes "devs_inv v" "kv_devs v d = Some dev"
  shows "devs_inv (v\<lparr>kv_devs := (kv_devs v)(d \<mapsto> dev\<lparr>bd_pending := ps\<rparr>)\<rparr>)"
  by (rule devs_inv_cong [of v]) (use assms in \<open>auto simp: dev_sig_def\<close>)

text \<open>A connection's lists may shrink.\<close>

lemma view_inv_conn_shrink:
  assumes inv: "view_inv v" and c: "kv_conns v c = Some cn" and dev: "cv_dev cn' = cv_dev cn"
    and sub: "set (cv_waiting cn') \<subseteq> set (cv_waiting cn)" "distinct (cv_waiting cn')"
    and ok: "conn_ok v cn'"
  shows "view_inv (v\<lparr>kv_conns := (kv_conns v)(c \<mapsto> cn')\<rparr>)"
proof -
  let ?v = "v\<lparr>kv_conns := (kv_conns v)(c \<mapsto> cn')\<rparr>"
  have pl: "place_list ?v = (place_list v)(Waiting c := cv_waiting cn')"
    by (simp add: place_list_conn)
  have "requests_inv ?v"
  proof (rule requests_inv_sub [of v])
    show "at_wf (place_list ?v)"
      unfolding pl
      by (rule at_wf_shrink) (use view_inv_places [OF inv] sub c in \<open>simp_all add: place_list_Waiting\<close>)
    show "live v p" if "live ?v p" for p
      using that sub(1) live_waiting [OF c, of p] unfolding live_def pl flying_def
      by (auto split: if_splits)
  qed (use inv in \<open>simp_all add: view_inv_def\<close>)
  then show ?thesis
    using inv devs_inv_conn [OF _ c dev] conns_inv_upd [OF _ ok] by (simp add: view_inv_def)
qed

text \<open>The head of a pending list may be taken off.\<close>

lemma view_inv_drop_head:
  assumes inv: "view_inv v" and d: "d \<in> set (kv_list v)" "kv_devs v d = Some dev"
    and head: "bd_pending dev = p # rest"
  shows "view_inv (v\<lparr>kv_devs := (kv_devs v)(d \<mapsto> dev\<lparr>bd_pending := rest\<rparr>)\<rparr>)"
proof -
  let ?v = "v\<lparr>kv_devs := (kv_devs v)(d \<mapsto> dev\<lparr>bd_pending := rest\<rparr>)\<rparr>"
  note wf = view_inv_places [OF inv]
  have hd: "place_list v (Pending d) = p # rest" using d head by (simp add: place_list_Pending)
  have pl: "place_list ?v = (place_list v)(Pending d := rest)"
    using d by (simp add: place_list_dev)
  have "requests_inv ?v"
  proof (rule requests_inv_sub [of v])
    show "at_wf (place_list ?v)" unfolding pl using wf hd by (rule at_wf_tail)
    show "live ?v q \<Longrightarrow> live v q" for q
      unfolding live_def pl flying_head [OF wf hd] by simp
  qed (use inv in \<open>simp_all add: view_inv_def\<close>)
  moreover have "conns_inv ?v"
    by (rule conns_inv_cong [of v]) (use inv in \<open>simp_all add: view_inv_def\<close>)
  ultimately show ?thesis
    using inv devs_inv_pending [OF _ d(2)] by (simp add: view_inv_def)
qed

definition view_take ::
  "ptr \<Rightarrow> bius_block_device \<Rightarrow> ptr list \<Rightarrow> ptr \<Rightarrow> conn_view \<Rightarrow> ptr \<Rightarrow> ptr option \<Rightarrow> kview \<Rightarrow> kview" where
  "view_take d dev rest c cn p snd_p v =
     v\<lparr>kv_devs := (kv_devs v)(d \<mapsto> dev\<lparr>bd_pending := rest\<rparr>),
       kv_conns := (kv_conns v)(c \<mapsto> cn\<lparr>cv_waiting := cv_waiting cn @ [p], cv_sending := snd_p\<rparr>)\<rparr>"

lemma place_list_take:
  assumes "d \<in> set (kv_list v)" "kv_conns v c = Some cn"
  shows "place_list (view_take d dev rest c cn p snd_p v) =
     (place_list v)(Pending d := rest, Waiting c := place_list v (Waiting c) @ [p])"
  using assms place_list_conn [of "v\<lparr>kv_devs := (kv_devs v)(d \<mapsto> dev\<lparr>bd_pending := rest\<rparr>)\<rparr>" c
      "Some (cn\<lparr>cv_waiting := cv_waiting cn @ [p], cv_sending := snd_p\<rparr>)"]
  by (simp add: view_take_def place_list_dev place_list_Waiting)

lemma view_inv_take:
  assumes inv: "view_inv v" and c: "kv_conns v c = Some cn" "cv_dev cn = Some d"
    and dev: "kv_devs v d = Some dev" "bd_pending dev = p # rest"
    and snd_p: "snd_p = cv_sending cn \<or>
        snd_p = Some p \<and> (\<exists>r. kv_reqs v p = Some r \<and> request_is_write (rv_type r))"
  shows "view_inv (view_take d dev rest c cn p snd_p v)"
proof -
  let ?v = "view_take d dev rest c cn p snd_p v"
  let ?cn = "cn\<lparr>cv_waiting := cv_waiting cn @ [p], cv_sending := snd_p\<rparr>"
  have ok: "conn_ok v cn" using inv c by (simp add: view_inv_def conns_inv_def)
  then have d: "d \<in> set (kv_list v)" using c by (simp add: conn_ok_def)
  note wf = view_inv_places [OF inv]
  have hd: "place_list v (Pending d) = p # rest" using d dev by (simp add: place_list_Pending)
  note pl = place_list_take [OF d c(1), of dev rest p snd_p]
  have "requests_inv ?v"
  proof (rule requests_inv_sub [of v])
    show "at_wf (place_list ?v)" unfolding pl using wf hd by (rule at_wf_move) simp
    show "live ?v q \<Longrightarrow> live v q" for q
      unfolding live_def pl using flying_move [OF wf hd] by simp
  qed (use inv in \<open>simp_all add: view_inv_def view_take_def\<close>)
  moreover have "conns_inv ?v"
  proof -
    have "conn_ok v ?cn" using ok snd_p c(2) by (auto simp: conn_ok_def)
    then have "conns_inv (v\<lparr>kv_conns := (kv_conns v)(c \<mapsto> ?cn)\<rparr>)"
      using inv by (intro conns_inv_upd) (simp_all add: view_inv_def)
    then show ?thesis by (rule conns_inv_cong) (simp_all add: view_take_def)
  qed
  moreover have "devs_inv ?v"
    using devs_inv_conn [OF devs_inv_pending [OF _ dev(1)], of rest c cn ?cn] inv c
    by (simp add: view_inv_def view_take_def)
  ultimately show ?thesis by (simp add: view_inv_def)
qed

definition view_answer :: "ptr \<Rightarrow> conn_view \<Rightarrow> ptr \<Rightarrow> kview \<Rightarrow> kview" where
  "view_answer c cn p v = v\<lparr>kv_conns := (kv_conns v)(c \<mapsto>
     cn\<lparr>cv_waiting := remove1 p (cv_waiting cn),
        cv_sending := (if cv_sending cn = Some p then None else cv_sending cn)\<rparr>)\<rparr>"

lemma view_inv_answer:
  assumes "view_inv v" "kv_conns v c = Some cn"
  shows "view_inv (view_answer c cn p v)"
  unfolding view_answer_def
proof (rule view_inv_conn_shrink [OF assms])
  have "distinct (cv_waiting cn)"
    using at_wf_distinct [OF view_inv_places [OF assms(1)], of "Waiting c"] assms(2)
    by (simp add: place_list_Waiting)
  then show "distinct (cv_waiting (cn\<lparr>cv_waiting := remove1 p (cv_waiting cn),
      cv_sending := (if cv_sending cn = Some p then None else cv_sending cn)\<rparr>))" by simp
  have "conn_ok v cn" using assms by (simp add: view_inv_def conns_inv_def)
  then show "conn_ok v (cn\<lparr>cv_waiting := remove1 p (cv_waiting cn),
      cv_sending := (if cv_sending cn = Some p then None else cv_sending cn)\<rparr>)"
    by (auto simp: conn_ok_def split: option.splits if_splits)
qed (simp_all add: set_remove1_subset)

lemma view_inv_sent:
  assumes "view_inv v" "kv_conns v c = Some cn"
  shows "view_inv (v\<lparr>kv_conns := (kv_conns v)(c \<mapsto> cn\<lparr>cv_sending := None\<rparr>)\<rparr>)"
proof (rule view_inv_conn_shrink [OF assms])
  show "distinct (cv_waiting (cn\<lparr>cv_sending := None\<rparr>))"
    using at_wf_distinct [OF view_inv_places [OF assms(1)], of "Waiting c"] assms(2)
    by (simp add: place_list_Waiting)
  show "conn_ok v (cn\<lparr>cv_sending := None\<rparr>)"
    using conns_invD [OF _ assms(2)] assms(1)
    by (auto simp: view_inv_def conn_ok_def split: option.splits)
qed simp_all

subsection \<open>Connections and devices come and go\<close>

lemma devs_invD:
  assumes "devs_inv v" "d \<in> set (kv_list v)"
  obtains dev where "kv_devs v d = Some dev" "unat (bd_num_connection dev) = card (users v d)"
  using assms by (auto simp: devs_inv_def)

lemma finite_users: "finite (dom (kv_conns v)) \<Longrightarrow> finite (users v d)"
  by (rule finite_subset [of _ "dom (kv_conns v)"]) (auto simp: users_def)

text \<open>
  The device invariant when the connections change: it is enough to know the users of every
  listed device and that names and counts fit.
\<close>

lemma devs_invI:
  assumes "distinct (kv_list v)" "finite (dom (kv_conns v))" "inj_on (disk_key v) (set (kv_list v))"
    and "\<And>d. d \<in> set (kv_list v) \<Longrightarrow>
           \<exists>dev. kv_devs v d = Some dev \<and> unat (bd_num_connection dev) = card (users v d)"
  shows "devs_inv v"
  using assms by (auto simp: devs_inv_def)

lemma disk_key_conns [simp]: "disk_key (v\<lparr>kv_conns := f\<rparr>) = disk_key v"
  by (rule ext) (simp add: disk_key_def)

lemma conn_ok_list:
  assumes "conn_ok v cn" "kv_reqs v' = kv_reqs v" "\<And>d. cv_dev cn = Some d \<Longrightarrow> d \<in> set (kv_list v')"
  shows "conn_ok v' cn"
  using assms by (auto simp: conn_ok_def split: option.splits)

lemma conns_inv_list:
  assumes "conns_inv v" "kv_reqs v' = kv_reqs v" "\<And>c. kv_conns v' c = kv_conns v c \<or> kv_conns v' c = None"
    and "\<And>c cn d. kv_conns v' c = Some cn \<Longrightarrow> cv_dev cn = Some d \<Longrightarrow> d \<in> set (kv_list v')"
  shows "conns_inv v'"
proof -
  have "conn_ok v' cn" if "kv_conns v' c = Some cn" for c cn
  proof (rule conn_ok_list [of v])
    have "kv_conns v c = Some cn" using assms(3) [of c] that by auto
    then show "conn_ok v cn" using assms(1) by (rule conns_invD [rotated])
  qed (use assms that in auto)
  then show ?thesis by (simp add: conns_inv_def)
qed

lemma conn_dev_listed:
  "conns_inv v \<Longrightarrow> kv_conns v c = Some cn \<Longrightarrow> cv_dev cn = Some d \<Longrightarrow> d \<in> set (kv_list v)"
  by (drule (1) conns_invD) (simp add: conn_ok_def)

lemma view_inv_open:
  assumes inv: "view_inv v" and c: "kv_conns v c = None"
  shows "view_inv (v\<lparr>kv_conns := (kv_conns v)(c \<mapsto> \<lparr>cv_dev = None, cv_waiting = [], cv_sending = None\<rparr>)\<rparr>)"
    (is "view_inv ?v")
proof -
  have pl: "place_list ?v = place_list v"
    using c by (simp add: place_list_conn fun_upd_idem_iff place_list.simps)
  have users: "users ?v d = users v d" for d using c by (auto simp: users_def)
  have "requests_inv ?v"
    by (rule requests_inv_sub [of v])
      (use inv pl view_inv_places [OF inv] in \<open>simp_all add: view_inv_def live_def\<close>)
  moreover have "conns_inv ?v"
    using inv by (intro conns_inv_upd) (simp_all add: view_inv_def conn_ok_def)
  moreover have "devs_inv ?v"
    using inv by (intro devs_invI) (auto simp: view_inv_def devs_inv_def users disk_key_def)
  ultimately show ?thesis by (simp add: view_inv_def)
qed

lemma view_inv_create:
  assumes inv: "view_inv v" and d: "d \<notin> set (kv_list v)"
    and dev: "bd_pending dev = []" "bd_num_connection dev = 0"
    and name: "Some (c_str DISK_NAME_LEN (bd_disk_name dev)) \<notin> disk_key v ` set (kv_list v)"
  shows "view_inv (v\<lparr>kv_list := kv_list v @ [d], kv_devs := (kv_devs v)(d \<mapsto> dev)\<rparr>)"
    (is "view_inv ?v")
proof -
  have pl: "place_list ?v = place_list v"
    using d dev by (simp add: place_list_enlist fun_upd_idem_iff place_list.simps)
  have none: "users v d = {}"
    using inv d conn_dev_listed [of v] by (auto simp: users_def view_inv_def)
  have "requests_inv ?v"
    by (rule requests_inv_sub [of v])
      (use inv pl view_inv_places [OF inv] in \<open>simp_all add: view_inv_def live_def\<close>)
  moreover have "conns_inv ?v"
    by (rule conns_inv_list [of v]) (use inv conn_dev_listed in \<open>auto simp: view_inv_def\<close>)
  moreover have "devs_inv ?v"
  proof (rule devs_invI)
    have "inj_on (disk_key ?v) (set (kv_list v)) = inj_on (disk_key v) (set (kv_list v))"
      by (rule inj_on_cong) (use d in \<open>auto simp: disk_key_def\<close>)
    then have "inj_on (disk_key ?v) (set (kv_list v))"
      using inv by (simp add: view_inv_def devs_inv_def)
    moreover have "disk_key ?v d \<notin> disk_key ?v ` set (kv_list v)"
      using name d by (auto simp: disk_key_def image_iff)
    ultimately show "inj_on (disk_key ?v) (set (kv_list ?v))" using d by simp
    show "\<exists>dev. kv_devs ?v x = Some dev \<and> unat (bd_num_connection dev) = card (users ?v x)"
      if "x \<in> set (kv_list ?v)" for x
    proof -
      have "users ?v x = users v x" by (simp add: users_def)
      then show ?thesis using that inv d dev none by (auto simp: view_inv_def devs_inv_def)
    qed
  qed (use inv d in \<open>auto simp: view_inv_def devs_inv_def\<close>)
  ultimately show ?thesis by (simp add: view_inv_def)
qed

lemma view_inv_connect:
  assumes inv: "view_inv v" and c: "kv_conns v c = Some cn" "cv_dev cn = None"
    and d: "d \<in> set (kv_list v)" "kv_devs v d = Some dev"
    and room: "bd_num_connection dev \<noteq> - 1"
  shows "view_inv (v\<lparr>kv_conns := (kv_conns v)(c \<mapsto> cn\<lparr>cv_dev := Some d\<rparr>),
      kv_devs := (kv_devs v)(d \<mapsto> dev\<lparr>bd_num_connection := bd_num_connection dev + 1\<rparr>)\<rparr>)"
    (is "view_inv ?v")
proof -
  let ?dev = "dev\<lparr>bd_num_connection := bd_num_connection dev + 1\<rparr>"
  have pl: "place_list ?v = place_list v"
  proof
    show "place_list ?v pl = place_list v pl" for pl
      using c d by (cases pl) (auto simp: place_list.simps)
  qed
  have fin: "finite (dom (kv_conns v))" using inv by (simp add: view_inv_def devs_inv_def)
  have users: "users ?v x = (if x = d then insert c (users v x) else users v x)" for x
    using c by (auto simp: users_def)
  have new: "c \<notin> users v d" using c by (auto simp: users_def)
  have "requests_inv ?v"
    by (rule requests_inv_sub [of v])
      (use inv pl view_inv_places [OF inv] in \<open>simp_all add: view_inv_def live_def\<close>)
  moreover have "conns_inv ?v"
  proof -
    have "conn_ok v (cn\<lparr>cv_dev := Some d\<rparr>)"
      using inv c d conns_invD [of v c cn]
      by (cases "cv_sending cn") (auto simp: view_inv_def conn_ok_def)
    then have "conns_inv (v\<lparr>kv_conns := (kv_conns v)(c \<mapsto> cn\<lparr>cv_dev := Some d\<rparr>)\<rparr>)"
      using inv by (intro conns_inv_upd) (simp_all add: view_inv_def)
    then show ?thesis by (rule conns_inv_cong) simp_all
  qed
  moreover have "devs_inv ?v"
  proof (rule devs_invI)
    have "disk_key ?v x = disk_key v x" for x using d by (simp add: disk_key_def)
    then have "disk_key ?v = disk_key v" by blast
    then show "inj_on (disk_key ?v) (set (kv_list ?v))"
      using inv by (simp add: view_inv_def devs_inv_def)
    show "\<exists>dev. kv_devs ?v x = Some dev \<and> unat (bd_num_connection dev) = card (users ?v x)"
      if x: "x \<in> set (kv_list ?v)" for x
    proof -
      obtain y where y: "kv_devs v x = Some y" "unat (bd_num_connection y) = card (users v x)"
        using inv x by (auto simp: view_inv_def elim: devs_invD)
      then show ?thesis
        using d new finite_users [OF fin] room by (auto simp: users unat_inc)
    qed
  qed (use inv fin in \<open>auto simp: view_inv_def devs_inv_def\<close>)
  ultimately show ?thesis by (simp add: view_inv_def)
qed

text \<open>Closing a connection, and with the last one of a device removing the device.\<close>

definition view_close :: "ptr \<Rightarrow> kview \<Rightarrow> kview" where
  "view_close c v = v\<lparr>kv_conns := (kv_conns v)(c := None)\<rparr>"

definition view_release :: "ptr \<Rightarrow> ptr \<Rightarrow> bius_block_device \<Rightarrow> kview \<Rightarrow> kview" where
  "view_release c d dev v =
     (let n = bd_num_connection dev - 1 in
      v\<lparr>kv_conns := (kv_conns v)(c := None),
        kv_devs := (kv_devs v)(d \<mapsto> dev\<lparr>bd_num_connection := n\<rparr>),
        kv_list := (if n = 0 then remove1 d (kv_list v) else kv_list v)\<rparr>)"

lemma users_close: "users (view_close c v) d = users v d - {c}"
  by (auto simp: users_def view_close_def)

lemma place_list_close: "place_list (view_close c v) = (place_list v)(Waiting c := [])"
  by (simp add: view_close_def place_list_conn)

lemma requests_inv_close:
  assumes "view_inv v"
  shows "requests_inv (view_close c v)"
proof (rule requests_inv_sub [of v])
  note wf = view_inv_places [OF assms]
  show "at_wf (place_list (view_close c v))"
    unfolding place_list_close using wf by (rule at_wf_clear)
  show "live (view_close c v) p \<Longrightarrow> live v p" for p
    unfolding live_def place_list_close flying_clear [OF wf] by simp
qed (use assms in \<open>simp_all add: view_inv_def view_close_def\<close>)

lemma view_inv_close:
  assumes inv: "view_inv v" and c: "kv_conns v c = Some cn" "cv_dev cn = None"
  shows "view_inv (view_close c v)"
proof -
  have users: "users (view_close c v) d = users v d" for d
    using c by (auto simp: users_def view_close_def)
  have "conns_inv (view_close c v)"
    by (rule conns_inv_list [of v])
      (use inv conn_dev_listed [of v] in \<open>auto simp: view_inv_def view_close_def split: if_splits\<close>)
  moreover have "devs_inv (view_close c v)"
  proof (rule devs_invI)
    show "\<exists>dev. kv_devs (view_close c v) d = Some dev \<and>
        unat (bd_num_connection dev) = card (users (view_close c v) d)"
      if "d \<in> set (kv_list (view_close c v))" for d
      using that inv unfolding users by (auto simp: view_inv_def devs_inv_def view_close_def)
  qed (use inv in \<open>auto simp: view_inv_def devs_inv_def view_close_def\<close>)
  ultimately show ?thesis using requests_inv_close [OF inv] by (simp add: view_inv_def)
qed

lemma place_list_release:
  assumes "distinct (kv_list v)" "kv_devs v d = Some dev"
  shows "place_list (view_release c d dev v) =
     (if bd_num_connection dev = 1 then (place_list (view_close c v))(Pending d := [])
      else place_list (view_close c v))"
proof
  show "place_list (view_release c d dev v) pl =
      (if bd_num_connection dev = 1 then (place_list (view_close c v))(Pending d := [])
       else place_list (view_close c v)) pl" for pl
    using assms by (cases pl)
      (auto simp: place_list.simps view_release_def view_close_def Let_def set_remove1_distinct)
qed

lemma requests_inv_release:
  assumes inv: "view_inv v" and dev: "kv_devs v d = Some dev"
  shows "requests_inv (view_release c d dev v)"
proof (rule requests_inv_sub [OF requests_inv_close [OF inv, of c]])
  have "distinct (kv_list v)" using inv by (simp add: view_inv_def devs_inv_def)
  note pl = place_list_release [OF this dev, of c]
  have wf: "at_wf (place_list (view_close c v))"
    using requests_inv_close [OF inv, of c] by (simp add: requests_inv_def)
  then show "at_wf (place_list (view_release c d dev v))"
    unfolding pl by (simp add: at_wf_clear)
  show "live (view_release c d dev v) p \<Longrightarrow> live (view_close c v) p" for p
    unfolding live_def pl using flying_clear [OF wf, of "Pending d" p] by (auto split: if_splits)
qed (simp_all add: view_release_def view_close_def Let_def)

lemma view_inv_release:
  assumes inv: "view_inv v" and c: "kv_conns v c = Some cn" "cv_dev cn = Some d"
    and dev: "kv_devs v d = Some dev"
  shows "view_inv (view_release c d dev v)"
proof -
  let ?v = "view_release c d dev v" and ?n = "bd_num_connection dev - 1"
  have parts: "requests_inv v" "conns_inv v" "devs_inv v" using inv by (simp_all add: view_inv_def)
  have d: "d \<in> set (kv_list v)" using conn_dev_listed [OF parts(2) c] .
  have dist: "distinct (kv_list v)" and fin: "finite (dom (kv_conns v))"
    using parts(3) by (simp_all add: devs_inv_def)
  have users: "users ?v x = users v x - {c}" for x
    by (auto simp: users_def view_release_def Let_def)
  have c_user: "c \<in> users v d" and other: "x \<noteq> d \<Longrightarrow> c \<notin> users v x" for x
    using c by (auto simp: users_def)
  have num: "unat (bd_num_connection dev) = card (users v d)"
    using devs_invD [OF parts(3) d] dev by auto
  then have "bd_num_connection dev \<noteq> 0"
    using c_user finite_users [OF fin, of d] by (auto simp: card_eq_0_iff)
  then have num': "unat ?n = card (users v d - {c})"
    using num c_user finite_users [OF fin, of d] by (simp add: unat_minus_one card_Diff_singleton)
  have alone: "users v d = {c}" if "?n = 0"
  proof -
    have "card (users v d - {c}) = 0" using num' that by (simp only: unat_0)
    then have "users v d - {c} = {}" using finite_users [OF fin] by (metis card_0_eq finite_Diff)
    then show ?thesis using c_user by blast
  qed
  have "conns_inv ?v"
  proof (rule conns_inv_list [OF parts(2)])
    show "x \<in> set (kv_list ?v)" if "kv_conns ?v c' = Some cn'" "cv_dev cn' = Some x" for c' cn' x
      using that alone conn_dev_listed [OF parts(2), of c' cn' x] dist
      by (auto simp: view_release_def Let_def users_def split: if_splits)
  qed (auto simp: view_release_def Let_def)
  moreover have "devs_inv ?v"
  proof (rule devs_invI)
    have key: "disk_key ?v = disk_key v"
      using dev by (intro ext) (simp add: disk_key_def view_release_def Let_def)
    have sub: "set (kv_list ?v) \<subseteq> set (kv_list v)"
      by (auto simp: view_release_def Let_def dest: set_remove1_subset [THEN subsetD])
    show "inj_on (disk_key ?v) (set (kv_list ?v))"
      unfolding key by (rule inj_on_subset [OF _ sub]) (use parts(3) in \<open>simp add: devs_inv_def\<close>)
    show "\<exists>dev. kv_devs ?v x = Some dev \<and> unat (bd_num_connection dev) = card (users ?v x)"
      if "x \<in> set (kv_list ?v)" for x
    proof (cases "x = d")
      case True
      then show ?thesis using num' by (simp add: users) (simp add: view_release_def Let_def)
    next
      case False
      moreover have "x \<in> set (kv_list v)" using that sub by blast
      ultimately show ?thesis
        using parts(3) other by (simp add: users devs_inv_def) (simp add: view_release_def Let_def)
    qed
  qed (use dist fin in \<open>auto simp: view_release_def Let_def\<close>)
  ultimately show ?thesis using requests_inv_release [OF inv dev] by (simp add: view_inv_def)
qed

end
