(* ===== verification/Bius_Driver.thy ===== *)
theory Bius_Driver
  imports Bius_Invariant
begin

text \<open>
  The kernel module as a whole: what each entry point does to the view and to the log of
  answers, the step relation of the module under any interleaving of its entry points, and
  the refinement of the abstract life of requests.
\<close>

section \<open>Effects on the view\<close>

lemma view_put_req: "ks_reqs s p = Some r \<Longrightarrow> req_view_of r' = req_view_of r \<Longrightarrow>
    view_of (put_req p r' s) = view_of s"
  by (auto simp: view_of_def put_req_def fun_eq_iff)

lemma view_put_req_new:
  "view_of (put_req p r s) = (view_of s)\<lparr>kv_reqs := (kv_reqs (view_of s))(p \<mapsto> req_view_of r)\<rparr>"
  by (auto simp: view_of_def put_req_def fun_eq_iff)

lemma view_put_rq: "ks_rqs s p = Some q \<Longrightarrow> rq_view_of q' = rq_view_of q \<Longrightarrow>
    view_of (put_rq p q' s) = view_of s"
  by (auto simp: view_of_def put_rq_def fun_eq_iff)

lemma view_put_rq_new:
  "view_of (put_rq p q s) = (view_of s)\<lparr>kv_rqs := (kv_rqs (view_of s))(p \<mapsto> rq_view_of q)\<rparr>"
  by (auto simp: view_of_def put_rq_def fun_eq_iff)

lemma view_put_conn:
  "view_of (put_conn c cn s) = (view_of s)\<lparr>kv_conns := (kv_conns (view_of s))(c \<mapsto> conn_view_of cn)\<rparr>"
  by (auto simp: view_of_def put_conn_def fun_eq_iff)

lemma view_put_dev:
  "view_of (put_dev d dev s) = (view_of s)\<lparr>kv_devs := (kv_devs (view_of s))(d \<mapsto> dev)\<rparr>"
  by (simp add: view_of_def put_dev_def)

lemma view_neutral [simp]:
  "view_of (s\<lparr>ks_mem := m\<rparr>) = view_of s" "view_of (s\<lparr>ks_ended := e\<rparr>) = view_of s"
  "view_of (s\<lparr>ks_revalidating := x\<rparr>) = view_of s"
  by (simp_all add: view_of_def)

lemma view_sel [simp]:
  "kv_next (view_of s) = ks_next_request_id s" "kv_list (view_of s) = ks_all_disk_list s"
  "kv_devs (view_of s) = ks_devs s" "kv_conns (view_of s) c = map_option conn_view_of (ks_conns s c)"
  "kv_reqs (view_of s) p = map_option req_view_of (ks_reqs s p)"
  "kv_rqs (view_of s) p = map_option rq_view_of (ks_rqs s p)"
  by (simp_all add: view_of_def)

lemma req_view_set_blk [simp]:
  "blk_fields r = Some b \<Longrightarrow> req_view_of (set_blk_fields b' r) = req_view_of r"
  by (cases "req_union r") (auto simp: req_view_of_def set_blk_fields_def blk_fields_def int_fields_def)

lemma req_view_set_int:
  "int_fields r = Some i \<Longrightarrow>
     req_view_of (set_int_fields i' r) = (req_view_of r)\<lparr>rv_woken := (req_sem i' \<noteq> 0)\<rparr>"
  by (cases "req_union r") (auto simp: req_view_of_def set_int_fields_def blk_fields_def int_fields_def)

lemma req_view_set_int_same [simp]:
  "int_fields r = Some i \<Longrightarrow> req_sem i' = req_sem i \<Longrightarrow> req_view_of (set_int_fields i' r) = req_view_of r"
  by (simp add: req_view_set_int) (simp add: req_view_of_def)

lemma blk_int_fields: "blk_fields r = Some b \<Longrightarrow> int_fields r = None"
  by (cases "req_union r") (auto simp: blk_fields_def int_fields_def)

lemma fields_set [simp]:
  "blk_fields (set_blk_fields b r) = Some b" "int_fields (set_int_fields i r) = Some i"
  "int_fields (set_blk_fields b r) = None" "blk_fields (set_int_fields i r) = None"
  by (simp_all add: blk_fields_def int_fields_def set_blk_fields_def set_int_fields_def)

lemma req_sel_set [simp]:
  "req_type (set_blk_fields b r) = req_type r" "req_id (set_blk_fields b r) = req_id r"
  "req_pos (set_blk_fields b r) = req_pos r" "req_length (set_blk_fields b r) = req_length r"
  "on_request_end (set_blk_fields b r) = on_request_end r"
  "req_type (set_int_fields i r) = req_type r" "req_id (set_int_fields i r) = req_id r"
  "req_pos (set_int_fields i r) = req_pos r" "req_length (set_int_fields i r) = req_length r"
  "on_request_end (set_int_fields i r) = on_request_end r"
  by (simp_all add: set_blk_fields_def set_int_fields_def)

text \<open>A successful call of \<open>f\<close>, named after the C function, changes nothing in the view.\<close>

lemma end_blk_request_effect:
  assumes "end_blk_request p st s = Some s'"
  shows "view_of s' = view_of s" "ks_ended s' = ks_ended s @ [(p, st)]" "ks_rqs s p \<noteq> None"
proof -
  obtain r b where r: "ks_reqs s p = Some r" "blk_fields r = Some b"
    using assms by (auto simp: end_blk_request_def dest!: option_bind_SomeD)
  let ?s = "put_req p (set_blk_fields (b\<lparr>req_blk_result := st\<rparr>) r) s"
  have v: "view_of ?s = view_of s" using r by (simp add: view_put_req)
  have run: "run_request_end p ?s = Some s'" using assms r by (simp add: end_blk_request_def)
  have "on_request_end r = Blk_request_end"
    using run r by (cases "on_request_end r")
      (auto simp: run_request_end_def bius_report_zones_request_end_def bius_sel)
  then have "bius_blk_request_end p ?s = Some s'"
    using run by (simp add: run_request_end_def bius_sel)
  then have "view_of s' = view_of ?s \<and> ks_ended s' = ks_ended s @ [(p, st)] \<and> ks_rqs s p \<noteq> None"
    by (auto simp: bius_blk_request_end_def blk_mq_end_request_def bius_sel view_put_rq rq_view_of_def
        dest!: option_bind_SomeD split: if_splits)
  then show "view_of s' = view_of s" "ks_ended s' = ks_ended s @ [(p, st)]" "ks_rqs s p \<noteq> None"
    using v by simp_all
qed

lemma end_request_int_effect:
  assumes "end_request_int p r s = Some s'"
  shows "\<exists>q. view_of s' = (view_of s)\<lparr>kv_reqs := (kv_reqs (view_of s))(p \<mapsto> q)\<rparr>"
    "ks_ended s' = ks_ended s"
proof -
  obtain q i where q: "ks_reqs s p = Some q" "int_fields q = Some i"
    using assms by (auto simp: end_request_int_def dest!: option_bind_SomeD)
  let ?s = "put_req p (set_int_fields (i\<lparr>req_int_result := r\<rparr>) q) s"
  have run: "run_request_end p ?s = Some s'" using assms q by (simp add: end_request_int_def)
  have "on_request_end q = Report_zones_request_end"
    using run q by (cases "on_request_end q")
      (auto simp: run_request_end_def bius_blk_request_end_def bius_sel)
  then have "bius_report_zones_request_end p ?s = Some s'"
    using run by (simp add: run_request_end_def bius_sel)
  then have "(\<exists>q. s' = put_req p q ?s)"
    by (auto simp: bius_report_zones_request_end_def bius_sel dest!: option_bind_SomeD)
  then show "\<exists>q. view_of s' = (view_of s)\<lparr>kv_reqs := (kv_reqs (view_of s))(p \<mapsto> q)\<rparr>"
    "ks_ended s' = ks_ended s" by (auto simp: view_put_req_new bius_sel)
qed

lemma bius_send_data_view:
  "bius_send_data api cti m r n = Some (t, out, r') \<Longrightarrow> req_view_of r' = req_view_of r"
  by (auto simp: bius_send_data_def dest!: option_bind_SomeD split: if_splits)

text \<open>Sending data keeps the view, up to the \<open>sending\<close> mark of the connection.\<close>

lemma dev_read_sending_effect:
  assumes "dev_read_sending api cti c p n s = Some (t, out, s')" "ks_conns s c = Some cn"
  shows "ks_ended s' = ks_ended s \<and>
    (view_of s' = view_of s \<or>
     view_of s' = (view_of s)\<lparr>kv_conns := (kv_conns (view_of s))
                     (c \<mapsto> (conn_view_of cn)\<lparr>cv_sending := None\<rparr>)\<rparr>)"
proof -
  obtain r r' b where r: "ks_reqs s p = Some r" "bius_send_data api cti (ks_mem s) r n = Some (t, b, r')"
    and s': "s' = put_req p r' s \<or> s' = put_conn c (cn\<lparr>cn_sending := None\<rparr>) (put_req p r' s)"
    using assms by (auto simp: dev_read_sending_def Let_def Option.bind_eq_Some_conv split: if_splits)
  have "view_of (put_req p r' s) = view_of s"
    using r(1) bius_send_data_view [OF r(2)] by (rule view_put_req)
  then show ?thesis using s' by (auto simp: bius_sel view_put_conn conn_view_of_def)
qed

lemma bius_map_data_view:
  assumes "bius_map_data api q r cn m = Some (ret, r', cn', m')"
  shows "req_view_of r' = req_view_of r" "conn_view_of cn' = conn_view_of cn" "ret = 0"
  using assms
  by (auto simp: bius_map_data_def map_finish_def conn_view_of_def dest!: option_bind_SomeD
      split: if_splits)

lemma dev_read_prepare_effect:
  assumes "dev_read_prepare api datamap c p s = Some (ret, s')" "ks_conns s c = Some cn"
  shows "ret = 0 \<and> ks_ended s' = ks_ended s \<and>
    (view_of s' = view_of s \<or>
     view_of s' = (view_of s)\<lparr>kv_conns := (kv_conns (view_of s))
                     (c \<mapsto> (conn_view_of cn)\<lparr>cv_sending := Some p\<rparr>)\<rparr> \<and>
     (\<exists>r. ks_reqs s p = Some r \<and> request_is_write (req_type r)))"
proof -
  obtain r where r: "ks_reqs s p = Some r"
    using assms by (auto simp: dev_read_prepare_def dest!: option_bind_SomeD)
  note def = assms(1) [unfolded dev_read_prepare_def] assms(2) r
  show ?thesis
  proof (cases "request_may_have_data (req_type r) \<and> 0 < req_length r")
    case data: True
    show ?thesis
    proof (cases "datamap \<and> BIUS_MAP_DATA_THRESHOLD < req_length r")
      case True
      then obtain q r' cn' m where m: "bius_map_data api q r cn (ks_mem s) = Some (ret, r', cn', m)"
        "s' = (put_conn c cn' (put_req p r' s))\<lparr>ks_mem := m\<rparr>"
        using def data by (auto simp: Option.bind_eq_Some_conv)
      note eff = bius_map_data_view [OF m(1)]
      have "view_of s' = (view_of s)\<lparr>kv_conns := (kv_conns (view_of s))(c \<mapsto> conn_view_of cn)\<rparr>"
        using m(2) eff r by (simp add: view_put_conn view_put_req)
      also have "\<dots> = view_of s" using assms(2) by (simp add: view_of_def fun_eq_iff)
      finally show ?thesis using m(2) eff by (simp add: bius_sel)
    next
      case False
      then show ?thesis
        using def data
        by (auto simp: Option.bind_eq_Some_conv view_put_conn view_put_req bius_sel conn_view_of_def
            split: if_splits)
    qed
  qed (use def in auto)
qed

text \<open>Whether a read gave the process the header of a command.\<close>

fun handed_out :: "read_output \<Rightarrow> bool" where
  "handed_out (Header_output h) = True"
| "handed_out _ = False"

lemma dev_read_command_effect:
  assumes "dev_read_command datamap cti c p s = Some (ret, out, s')" "ks_conns s c = Some cn"
  shows "(ret \<le> 0 \<and> \<not> handed_out out \<and> ks_ended s' = ks_ended s @ [(p, ucast BLK_STS_IOERR)] \<and> ks_rqs s p \<noteq> None \<and>
      view_of s' = (view_of s)\<lparr>kv_conns := (kv_conns (view_of s))
                     (c \<mapsto> (conn_view_of cn)\<lparr>cv_sending := None\<rparr>)\<rparr>) \<or>
    (0 < ret \<and> handed_out out \<and> ks_ended s' = ks_ended s \<and>
      view_of s' = (view_of s)\<lparr>kv_conns := (kv_conns (view_of s))
                     (c \<mapsto> (conn_view_of cn)\<lparr>cv_waiting := cn_waiting cn @ [p]\<rparr>)\<rparr>)"
proof -
  obtain r hdr where r: "ks_reqs s p = Some r" "bius_send_command datamap cti cn r = Some (ret, hdr)"
    using assms by (auto simp: dev_read_command_def dest!: option_bind_SomeD split: if_splits)
  show ?thesis
  proof (cases "ret \<le> 0")
    case True
    then obtain s1 where s1: "end_blk_request p (ucast BLK_STS_IOERR) s = Some s1"
      "s' = put_conn c (cn\<lparr>cn_sending := None\<rparr>) s1" "out = No_output"
      using assms r by (auto simp: dev_read_command_def dest!: option_bind_SomeD)
    with True end_blk_request_effect [OF s1(1)] show ?thesis
      by (simp add: view_put_conn bius_sel conn_view_of_def)
  next
    case False
    then have "s' = put_conn c (cn\<lparr>cn_waiting := cn_waiting cn @ [p]\<rparr>) s" "out = Header_output hdr"
      using assms r by (auto simp: dev_read_command_def)
    with False show ?thesis by (simp add: view_put_conn bius_sel conn_view_of_def)
  qed
qed

section \<open>Each entry point keeps the invariant and makes a step of the specification\<close>

lemma kinv_view: "kinv s \<Longrightarrow> view_of s' = view_of s \<Longrightarrow> kinv s'"
  by (simp add: kinv_def)

lemma life_of_same: "view_of s' = view_of s \<Longrightarrow> ks_ended s' = ks_ended s \<Longrightarrow> life_of s' = life_of s"
  by (simp add: life_of_def)

lemma kinv_conn_dev:
  assumes "kinv s" "ks_conns s c = Some cn" "cn_block_dev cn = Some d"
  obtains dev where "d \<in> set (ks_all_disk_list s)" "ks_devs s d = Some dev"
  using assms conn_dev_listed [of "view_of s" c "conn_view_of cn" d] devs_invD [of "view_of s" d]
  by (auto simp: kinv_def view_inv_def conn_view_of_def)

text \<open>Reading: the head of the pending list moves to the end of the reader's waiting list.\<close>

lemma kinv_drop_head:
  assumes inv: "kinv s" and c: "ks_conns s c = Some cn" "cn_block_dev cn = Some d"
    and dev: "ks_devs s d = Some dev" "bd_pending dev = p # rest"
    and v: "view_of s' = (view_of s)\<lparr>kv_devs := (ks_devs s)(d \<mapsto> dev\<lparr>bd_pending := rest\<rparr>),
        kv_conns := (kv_conns (view_of s))(c \<mapsto> (conn_view_of cn)\<lparr>cv_sending := None\<rparr>)\<rparr>"
    and e: "ks_ended s' = ks_ended s @ [(p, st)]"
  shows "kinv s' \<and> life_step (life_of s) (Take_fail d p st) (life_of s')"
proof -
  obtain d: "d \<in> set (ks_all_disk_list s)" using kinv_conn_dev [OF inv c] by blast
  let ?v1 = "(view_of s)\<lparr>kv_devs := (ks_devs s)(d \<mapsto> dev\<lparr>bd_pending := rest\<rparr>)\<rparr>"
  have v1: "view_inv ?v1"
    using view_inv_drop_head [of "view_of s" d dev p rest] inv d dev by (simp add: kinv_def)
  have s': "view_of s' = ?v1\<lparr>kv_conns := (kv_conns ?v1)(c \<mapsto> (conn_view_of cn)\<lparr>cv_sending := None\<rparr>)\<rparr>"
    using v by simp
  have "kinv s'"
    unfolding kinv_def s' by (rule view_inv_sent [OF v1]) (use c in simp)
  moreover have "place_list (view_of s') = (place_list (view_of s))(Pending d := rest)"
  proof -
    have "place_list ?v1 = (place_list (view_of s))(Pending d := rest)"
      using d place_list_dev [of d "view_of s" "dev\<lparr>bd_pending := rest\<rparr>"] by simp
    moreover have "place_list (view_of s') = place_list ?v1"
      unfolding s' place_list_conn
      using c by (auto simp: place_list.simps fun_upd_idem_iff conn_view_of_def)
    ultimately show ?thesis by simp
  qed
  moreover have "place_list (view_of s) (Pending d) = p # rest"
    using d dev by (simp add: place_list_Pending)
  ultimately show ?thesis
    using life_step.take_fail [of "life_of s" d p rest st] e by (simp add: life_of_def)
qed

lemma kinv_take:
  assumes inv: "kinv s" and c: "ks_conns s c = Some cn" "cn_block_dev cn = Some d"
    and dev: "ks_devs s d = Some dev" "bd_pending dev = p # rest"
    and v: "view_of s' = view_take d dev rest c (conn_view_of cn) p snd_p (view_of s)"
    and snd_p: "snd_p = cn_sending cn \<or>
        snd_p = Some p \<and> (\<exists>r. ks_reqs s p = Some r \<and> request_is_write (req_type r))"
    and e: "ks_ended s' = ks_ended s"
  shows "kinv s' \<and> life_step (life_of s) (Take d c p) (life_of s')"
proof -
  have cv: "kv_conns (view_of s) c = Some (conn_view_of cn)" "cv_dev (conn_view_of cn) = Some d"
    using c by (simp_all add: conn_view_of_def)
  obtain d: "d \<in> set (kv_list (view_of s))" using kinv_conn_dev [OF inv c] by auto
  have "view_inv (view_of s')"
    unfolding v by (rule view_inv_take)
      (use inv cv dev snd_p in \<open>auto simp: kinv_def conn_view_of_def req_view_of_def\<close>)
  moreover have "life_step (life_of s) (Take d c p) (life_of s')"
    using life_step.take [of "life_of s" d p rest c] e d dev place_list_take [OF d cv(1), of dev rest p snd_p]
    by (simp add: life_of_def v place_list_Pending)
  ultimately show ?thesis by (simp add: kinv_def)
qed

lemma view_rqs_None:
  "kv_rqs (view_of s') = kv_rqs (view_of s) \<Longrightarrow> (ks_rqs s' p = None) = (ks_rqs s p = None)"
  by (drule fun_cong [of _ _ p]) (cases "ks_rqs s p"; auto)

text \<open>A state with the view \<open>v\<close> has, at a connection of the view, an object with that view.\<close>

lemma view_connE:
  assumes "view_of s = v" "kv_conns v c = Some cv"
  obtains cn where "ks_conns s c = Some cn" "conn_view_of cn = cv"
  using assms by (auto simp: view_of_def)

lemma dev_read_pending_refines:
  assumes inv: "kinv s" and c: "ks_conns s c = Some cn" "cn_block_dev cn = Some d" "cn_sending cn = None"
    and dev: "ks_devs s d = Some dev" "bd_pending dev = p # rest"
    and prep: "dev_read_prepare api datamap c p (put_dev d (dev\<lparr>bd_pending := rest\<rparr>) s) = Some (ret0, s2)"
    and cmd: "dev_read_command datamap cti c p s2 = Some (ret, out, s')"
  shows "kinv s' \<and> kv_rqs (view_of s') = kv_rqs (view_of s) \<and>
    (life_step (life_of s) (Take d c p) (life_of s') \<and> handed_out out \<or>
     life_step (life_of s) (Take_fail d p (ucast BLK_STS_IOERR)) (life_of s') \<and> ks_rqs s p \<noteq> None \<and> \<not> handed_out out)"
proof -
  let ?s1 = "put_dev d (dev\<lparr>bd_pending := rest\<rparr>) s"
  have c1: "ks_conns ?s1 c = Some cn" using c by (simp add: bius_sel)
  note eff1 = dev_read_prepare_effect [OF prep c1]
  obtain snd_p where snd_p: "view_of s2 = (view_of ?s1)\<lparr>kv_conns := (kv_conns (view_of ?s1))
        (c \<mapsto> (conn_view_of cn)\<lparr>cv_sending := snd_p\<rparr>)\<rparr>"
    "snd_p = cn_sending cn \<or> snd_p = Some p \<and> (\<exists>r. ks_reqs s p = Some r \<and> request_is_write (req_type r))"
  proof -
    have "view_of ?s1 = (view_of ?s1)\<lparr>kv_conns := (kv_conns (view_of ?s1))
        (c \<mapsto> (conn_view_of cn)\<lparr>cv_sending := cn_sending cn\<rparr>)\<rparr>"
      using c1 by (auto simp: view_of_def conn_view_of_def fun_eq_iff)
    then show thesis using that eff1 by (auto simp: bius_sel)
  qed
  obtain cn2 where cn2: "ks_conns s2 c = Some cn2"
    "conn_view_of cn2 = (conn_view_of cn)\<lparr>cv_sending := snd_p\<rparr>"
    by (rule view_connE [OF snd_p(1), of c "(conn_view_of cn)\<lparr>cv_sending := snd_p\<rparr>"]) simp_all
  then have w: "cn_waiting cn2 = cn_waiting cn" by (simp add: conn_view_of_def)
  have e2: "ks_ended s2 = ks_ended s" using eff1 by (simp add: bius_sel)
  from dev_read_command_effect [OF cmd cn2(1)] show ?thesis
  proof (elim disjE conjE)
    assume out: "\<not> handed_out out" and e: "ks_ended s' = ks_ended s2 @ [(p, ucast BLK_STS_IOERR)]" and rq2: "ks_rqs s2 p \<noteq> None"
      and v: "view_of s' = (view_of s2)\<lparr>kv_conns := (kv_conns (view_of s2))
                 (c \<mapsto> (conn_view_of cn2)\<lparr>cv_sending := None\<rparr>)\<rparr>"
    have v': "view_of s' = (view_of s)\<lparr>kv_devs := (ks_devs s)(d \<mapsto> dev\<lparr>bd_pending := rest\<rparr>),
        kv_conns := (kv_conns (view_of s))(c \<mapsto> (conn_view_of cn)\<lparr>cv_sending := None\<rparr>)\<rparr>"
      unfolding v snd_p(1) by (simp add: cn2 view_put_dev)
    have "ks_rqs s p \<noteq> None"
      using rq2 view_rqs_None [of s2 s p] by (simp add: snd_p(1) view_put_dev)
    then show ?thesis
      using kinv_drop_head [OF inv c(1,2) dev v'] e e2 v' out by simp
  next
    assume out: "handed_out out" and e: "ks_ended s' = ks_ended s2"
      and v: "view_of s' = (view_of s2)\<lparr>kv_conns := (kv_conns (view_of s2))
                 (c \<mapsto> (conn_view_of cn2)\<lparr>cv_waiting := cn_waiting cn2 @ [p]\<rparr>)\<rparr>"
    have v': "view_of s' = view_take d dev rest c (conn_view_of cn) p snd_p (view_of s)"
      unfolding v snd_p(1) cn2(2) w by (simp add: view_put_dev view_take_def) (simp add: conn_view_of_def)
    show ?thesis
      using kinv_take [OF inv c(1,2) dev v' snd_p(2)] e e2 v' out
      by (simp add: view_take_def)
  qed
qed

lemma kinv_sent:
  assumes inv: "kinv s" and c: "ks_conns s c = Some cn"
    and v: "view_of s' = (view_of s)\<lparr>kv_conns := (kv_conns (view_of s))
                     (c \<mapsto> (conn_view_of cn)\<lparr>cv_sending := None\<rparr>)\<rparr>"
    and e: "ks_ended s' = ks_ended s"
  shows "kinv s' \<and> life_of s' = life_of s"
proof -
  have "view_inv (view_of s')"
    unfolding v by (rule view_inv_sent) (use inv c in \<open>simp_all add: kinv_def\<close>)
  moreover have "place_list (view_of s') = place_list (view_of s)"
    unfolding v place_list_conn
    using c by (auto simp: place_list.simps fun_upd_idem_iff conn_view_of_def)
  ultimately show ?thesis using e by (simp add: kinv_def life_of_def)
qed

lemma bius_dev_read_refines:
  assumes inv: "kinv s"
    and run: "bius_dev_read api datamap cti sig c n s = Some (Returned (ret, out, s'))"
  shows "kinv s' \<and> kv_rqs (view_of s') = kv_rqs (view_of s) \<and>
    (life_of s' = life_of s \<and> \<not> handed_out out \<or>
     (\<exists>d p. life_step (life_of s) (Take d c p) (life_of s') \<and> handed_out out) \<or>
     (\<exists>d p. life_step (life_of s) (Take_fail d p (ucast BLK_STS_IOERR)) (life_of s') \<and> ks_rqs s p \<noteq> None \<and>
        \<not> handed_out out))"
proof -
  obtain cn where c: "ks_conns s c = Some cn"
    using run by (auto simp: bius_dev_read_def Option.bind_eq_Some_conv)
  note run' = run [unfolded bius_dev_read_def, simplified c, simplified]
  have idle: "s' = s \<Longrightarrow> out = No_output \<Longrightarrow> ?thesis" using inv by simp
  show ?thesis
  proof (cases "cn_block_dev cn")
    case None
    then show ?thesis using run' idle by simp
  next
    case d: (Some d)
    show ?thesis
    proof (cases "cn_sending cn")
      case (Some p)
      then have "dev_read_sending api cti c p n s = Some (ret, out, s')"
        using run' d by (auto simp: Option.bind_eq_Some_conv)
      moreover from this obtain bs where "out = Data_output bs" by (auto simp: dev_read_sending_def Let_def Option.bind_eq_Some_conv)
      ultimately show ?thesis
        using dev_read_sending_effect [OF _ c, of api cti p n ret out s'] kinv_sent [OF inv c, of s'] kinv_view [OF inv, of s'] life_of_same [of s' s]
          by auto
    next
      case sending: None
      then obtain dev where dev: "ks_devs s d = Some dev" if "\<not> n < SIZEOF_K2U_HEADER"
        using run' d by (auto simp: Option.bind_eq_Some_conv split: if_splits)
      show ?thesis
      proof (cases "n < SIZEOF_K2U_HEADER \<or> bd_pending dev = []")
        case True
        then show ?thesis using run' d sending dev idle by (auto split: if_splits)
      next
        case False
        then obtain p rest where p: "bd_pending dev = p # rest" by (cases "bd_pending dev") auto
        with False dev have dev': "ks_devs s d = Some dev" by simp
        obtain ret0 s2 where prep: "dev_read_prepare api datamap c p
            (put_dev d (dev\<lparr>bd_pending := rest\<rparr>) s) = Some (ret0, s2)"
          using run' d sending dev' p False by (auto simp: Option.bind_eq_Some_conv)
        then have "ret0 = 0" using dev_read_prepare_effect [OF prep] c by (simp add: bius_sel)
        then have "dev_read_command datamap cti c p s2 = Some (ret, out, s')"
          using run' d sending dev' p False prep by (auto simp: Option.bind_eq_Some_conv)
        from dev_read_pending_refines [OF inv c d sending dev' p prep this] show ?thesis by blast
      qed
    qed
  qed
qed

text \<open>Queueing: the request goes to the end of its device's pending list, or is rejected at once.\<close>

lemma bius_queue_rq_refines:
  assumes inv: "kinv s" and d: "d \<in> set (ks_all_disk_list s)" and dead: "\<not> live (view_of s) p"
    and codes: "zone_codes_agree codes" and room: "ks_next_request_id s \<noteq> - 1"
    and q: "ks_rqs s p = Some q" "rq_op q = REQ_OP_ZONE_APPEND codes \<longrightarrow> rq_bio q \<noteq> []"
    and run: "bius_queue_rq codes d p s = Some (st, s')"
  shows "kinv s' \<and> kv_rqs (view_of s') = kv_rqs (view_of s) \<and>
    (if to_bius_request codes (rq_op q) = BIUS_INVALID_OP
     then st = ucast BLK_STS_NOTSUPP \<and> life_step (life_of s) (Reject p st) (life_of s')
     else st = ucast BLK_STS_OK \<and> life_step (life_of s) (Submit d p) (life_of s'))"
proof -
  let ?type = "to_bius_request codes (rq_op q)"
  let ?s1 = "s\<lparr>ks_next_request_id := ks_next_request_id s + 1\<rparr>"
  define r where "r = \<lparr>req_id = ks_next_request_id s + 1, req_type = ?type,
      req_pos = push_bit 9 (rq_sector q), req_length = rq_bytes q,
      req_union = Blk_part ((stale_blk_part ?s1 p)\<lparr>req_bio := rq_bio q,
                              req_map_type := BIUS_DATAMAP_UNMAPPED\<rparr>),
      on_request_end = Blk_request_end\<rparr>"
  have r: "req_id r = ks_next_request_id s + 1" "req_type r = ?type"
      "on_request_end r = Blk_request_end" "blk_fields r \<noteq> None" "int_fields r = None"
    by (simp_all add: r_def blk_fields_def int_fields_def)
  have s': "if ?type = BIUS_INVALID_OP
       then s' = blk_mq_end_request p (ucast BLK_STS_NOTSUPP) (put_req p r ?s1)
       else \<exists>dev. ks_devs s d = Some dev \<and>
         s' = put_dev d (dev\<lparr>bd_pending := bd_pending dev @ [p]\<rparr>) (put_req p r ?s1)"
    using run q(1)
    by (auto simp: bius_queue_rq_def inc_request_id_def Let_def list_add_pending_def bius_sel
        Option.bind_eq_Some_conv r_def split: if_splits)
  have st: "st = (if ?type = BIUS_INVALID_OP then ucast BLK_STS_NOTSUPP else ucast BLK_STS_OK)"
    using run q(1) by (auto simp: bius_queue_rq_def inc_request_id_def Let_def Option.bind_eq_Some_conv split: if_splits)
  have v1: "view_of ?s1 = (view_of s)\<lparr>kv_next := ks_next_request_id s + 1\<rparr>"
    by (simp add: view_of_def)
  show ?thesis
  proof (cases "?type = BIUS_INVALID_OP")
    case True
    with s' have v: "view_of s' = (view_of s)\<lparr>kv_next := ks_next_request_id s + 1,
        kv_reqs := (kv_reqs (view_of s))(p \<mapsto> req_view_of r)\<rparr>"
      and e: "ks_ended s' = ks_ended s @ [(p, ucast BLK_STS_NOTSUPP)]"
      by (simp_all add: blk_mq_end_request_def bius_sel view_put_req_new v1)
    have "kinv s'"
      unfolding kinv_def v
      by (rule view_inv_same_places [of "view_of s"])
        (use inv room dead in \<open>auto simp: kinv_def unat_inc\<close>)
    moreover have "place_list (view_of s') = place_list (view_of s)"
      by (rule place_list_eqI) (simp_all add: v)
    ultimately show ?thesis
      using life_step.reject [of "life_of s" p "ucast BLK_STS_NOTSUPP"] dead e st True
      by (simp add: life_of_def in_flight_def live_def v)
  next
    case False
    with s' obtain dev where dev: "ks_devs s d = Some dev"
      and s': "s' = put_dev d (dev\<lparr>bd_pending := bd_pending dev @ [p]\<rparr>) (put_req p r ?s1)" by auto
    have v: "view_of s' = view_submit d p dev (req_view_of r) (view_of s)"
      unfolding s' by (simp add: view_put_dev view_put_req_new v1 view_submit_def)
    have "kinv s'"
      unfolding kinv_def v
    proof (rule view_inv_submit)
      show "request_ok (view_submit d p dev (req_view_of r) (view_of s)) p (req_view_of r)"
        using r to_bius_request_blk [OF codes, of "rq_op q"] to_bius_request_append [OF codes, of "rq_op q"] q room
        by (auto simp: request_ok_def view_submit_def req_view_of_def unat_inc rq_view_of_def)
    qed (use inv d dev dead room r in \<open>auto simp: kinv_def req_view_of_def\<close>)
    moreover have "ks_ended s' = ks_ended s" by (simp add: s' bius_sel)
    ultimately show ?thesis
      using life_step.submit [of "life_of s" p d] dead d dev st False
        place_list_submit [of d "view_of s" dev p "req_view_of r"]
      by (simp add: life_of_def in_flight_def live_def v) (simp add: view_submit_def)
  qed
qed

text \<open>Writing: the answer to a waiting request.\<close>

lemma bius_unmap_data_view:
  assumes "bius_unmap_data z r cn = Some (r', cn')"
  shows "req_view_of r' = req_view_of r" "conn_view_of cn' = conn_view_of cn" "req_type r' = req_type r"
  using assms
  by (auto simp: bius_unmap_data_def conn_view_of_def Let_def Option.bind_eq_Some_conv split: if_splits)

lemma dev_write_data_effect:
  assumes "dev_write_data api datamap ue c p header s = Some (ret, s')"
  shows "view_of s' = view_of s \<and> ks_ended s' = ks_ended s"
  using assms by (auto simp: dev_write_data_def Option.bind_eq_Some_conv split: if_splits)

lemma view_put_same_conn:
  "ks_conns s c = Some cn \<Longrightarrow> conn_view_of cn' = conn_view_of cn \<Longrightarrow> view_of (put_conn c cn' s) = view_of s"
  by (auto simp: view_of_def put_conn_def fun_eq_iff)

lemma dev_write_unmap_effect:
  assumes "dev_write_unmap datamap z c p s = Some s'"
  shows "view_of s' = view_of s \<and> ks_ended s' = ks_ended s"
proof (cases datamap)
  case True
  then obtain cn r r' cn' where "ks_conns s c = Some cn" "ks_reqs s p = Some r"
    "bius_unmap_data z r cn = Some (r', cn')" "s' = put_conn c cn' (put_req p r' s)"
    using assms by (auto simp: dev_write_unmap_def Option.bind_eq_Some_conv)
  with bius_unmap_data_view [of z r cn r' cn'] show ?thesis
    by (simp add: view_put_same_conn [where cn = cn] view_put_req bius_sel)
qed (use assms in \<open>simp add: dev_write_unmap_def\<close>)

lemma dev_write_blk_effect:
  assumes run: "dev_write_blk api datamap z ue c p header t s = Some (ret, s')"
  shows "\<exists>st. view_of s' = view_of s \<and> ks_ended s' = ks_ended s @ [(p, st)] \<and>
    (st = ucast BLK_STS_IOERR \<and> ret < 0 \<or> st = word_of_int (u2k_reply header) \<and> ret = t)"
proof -
  obtain ret1 s1 where s1: "dev_write_data api datamap ue c p header s = Some (ret1, s1)"
    and run1: "(if ret1 < 0 then do {s \<leftarrow> end_blk_request p (ucast BLK_STS_IOERR) s1; Some (ret1, s)}
      else do {
        s \<leftarrow> dev_write_unmap datamap z c p s1;
        request \<leftarrow> ks_reqs s p;
        let s = (if req_type request = BIUS_ZONE_APPEND
                 then put_req p (request\<lparr>req_pos := u2k_user_data header\<rparr>) s else s);
        s \<leftarrow> end_blk_request p (word_of_int (u2k_reply header)) s;
        Some (t, s)
      }) = Some (ret, s')"
    using run by (auto simp: dev_write_blk_def Option.bind_eq_Some_conv)
  have v1: "view_of s1 = view_of s" "ks_ended s1 = ks_ended s"
    using dev_write_data_effect [OF s1] by auto
  show ?thesis
  proof (cases "ret1 < 0")
    case True
    then show ?thesis using run1 v1 end_blk_request_effect [of p "ucast BLK_STS_IOERR" s1 s']
      by (auto simp: Option.bind_eq_Some_conv)
  next
    case False
    then obtain s2 r s3 where s2: "dev_write_unmap datamap z c p s1 = Some s2" "ks_reqs s2 p = Some r"
      and s3: "s3 = s2 \<or> s3 = put_req p (r\<lparr>req_pos := u2k_user_data header\<rparr>) s2"
      and last: "end_blk_request p (word_of_int (u2k_reply header)) s3 = Some s'" and "ret = t"
      using run1 by (auto simp: Option.bind_eq_Some_conv Let_def split: if_splits)
    have "view_of s3 = view_of s2" "ks_ended s3 = ks_ended s2"
      using s3 s2(2) by (auto simp: view_put_req req_view_of_def blk_fields_def int_fields_def bius_sel)
    then show ?thesis
      using dev_write_unmap_effect [OF s2(1)] v1 end_blk_request_effect [OF last] \<open>ret = t\<close> by auto
  qed
qed

lemma dev_write_zones_effect:
  assumes run: "dev_write_zones ue p header t s = Some (ret, s')"
  shows "(\<exists>q. view_of s' = (view_of s)\<lparr>kv_reqs := (kv_reqs (view_of s))(p \<mapsto> q)\<rparr>) \<and>
    ks_ended s' = ks_ended s \<and> ret = t"
proof (cases "u2k_reply header \<le> 0")
  case True
  then show ?thesis
    using run end_request_int_effect [of p _ s s'] by (auto simp: dev_write_zones_def Option.bind_eq_Some_conv)
next
  case False
  then obtain r i i' n where r: "ks_reqs s p = Some r" "int_fields r = Some i" "ret = t"
    and run1: "end_request_int p n (put_req p (set_int_fields i' r) s) = Some s'"
    using run by (auto simp: dev_write_zones_def Option.bind_eq_Some_conv Let_def split: if_splits prod.splits)
  with end_request_int_effect [OF run1] show ?thesis by (auto simp: bius_sel view_put_req_new)
qed

lemma kinv_dead_request:
  assumes "kinv s" "\<not> live (view_of s) p"
    and "view_of s' = (view_of s)\<lparr>kv_reqs := (kv_reqs (view_of s))(p := q)\<rparr>"
  shows "kinv s' \<and> place_list (view_of s') = place_list (view_of s)"
  using assms view_inv_dead_request [of "view_of s" p q]
    place_list_eqI [of "(view_of s)\<lparr>kv_reqs := (kv_reqs (view_of s))(p := q)\<rparr>" "view_of s"]
  by (simp add: kinv_def)

lemma kinv_answer:
  assumes inv: "kinv s" and c: "ks_conns s c = Some cn"
    and v: "view_of s' = view_answer c (conn_view_of cn) p (view_of s)"
  shows "kinv s' \<and> place_list (view_of s') =
     (place_list (view_of s))(Waiting c := remove1 p (cn_waiting cn)) \<and>
     place_list (view_of s) (Waiting c) = cn_waiting cn"
  using inv c view_inv_answer [of "view_of s" c "conn_view_of cn" p]
  by (simp add: kinv_def v) (simp add: view_answer_def place_list_conn place_list_Waiting conn_view_of_def)

lemma kinv_waiting:
  assumes inv: "kinv s" and c: "ks_conns s c = Some cn" "p \<in> set (cn_waiting cn)"
  obtains r where "ks_reqs s p = Some r" "request_ok (view_of s) p (req_view_of r)"
proof -
  have "live (view_of s) p"
    using c by (intro live_waiting [of _ c "conn_view_of cn"]) (simp_all add: conn_view_of_def)
  then show thesis
    using inv requests_invD [of "view_of s" p] that by (auto simp: kinv_def view_inv_def)
qed

lemma bius_dev_write_answer_refines:
  assumes inv: "kinv s" and c: "ks_conns s c = Some cn" "p \<in> set (cn_waiting cn)"
    and s1: "s1 = put_conn c (cn\<lparr>cn_waiting := remove1 p (cn_waiting cn),
         cn_sending := (if cn_sending cn = Some p then None else cn_sending cn)\<rparr>) s"
    and r: "ks_reqs s p = Some r"
    and run: "(if is_blk_request (req_type r)
         then dev_write_blk api datamap z ue c p header t s1
         else dev_write_zones ue p header t s1) = Some (ret, s')"
  shows "kinv s' \<and> kv_rqs (view_of s') = kv_rqs (view_of s) \<and>
    ((\<exists>st \<in> {word_of_int (u2k_reply header), ucast BLK_STS_IOERR}.
        life_step (life_of s) (Answer c p st) (life_of s') \<and> ks_rqs s p \<noteq> None) \<or>
     life_step (life_of s) (Answer_zones c p) (life_of s') \<and> ks_rqs s p = None)"
proof -
  have v1: "view_of s1 = view_answer c (conn_view_of cn) p (view_of s)" "ks_ended s1 = ks_ended s"
    by (simp_all add: s1 view_put_conn view_answer_def conn_view_of_def bius_sel)
  have v: "view_of s' = view_of s1 \<or>
      (\<exists>q. view_of s' = (view_of s1)\<lparr>kv_reqs := (kv_reqs (view_of s1))(p \<mapsto> q)\<rparr>)"
    using run dev_write_blk_effect [of api datamap z ue c p header t s1 ret s']
      dev_write_zones_effect [of ue p header t s1 ret s'] by (auto split: if_splits)
  from kinv_answer [OF inv c(1) v1(1)] have k1: "kinv s1"
    "place_list (view_of s1) = (place_list (view_of s))(Waiting c := remove1 p (cn_waiting cn))"
    "place_list (view_of s) (Waiting c) = cn_waiting cn" by simp_all
  have "at_wf (place_list (view_of s))" using inv view_inv_places by (auto simp: kinv_def)
  then have "\<not> live (view_of s1) p"
    using c(2) flying_remove1 [of "place_list (view_of s)" p "Waiting c" p] by (simp add: live_def k1)
  then have k: "kinv s'"
    "place_list (view_of s') = (place_list (view_of s))(Waiting c := remove1 p (cn_waiting cn))"
    "place_list (view_of s) (Waiting c) = cn_waiting cn"
    using k1 v kinv_dead_request [OF k1(1), of p s'] kinv_view [OF k1(1), of s'] by auto
  have rqs: "kv_rqs (view_of s') = kv_rqs (view_of s)" using v v1 by (auto simp: view_answer_def)
  show ?thesis
  proof (cases "is_blk_request (req_type r)")
    case True
    then obtain st where st: "ks_ended s' = ks_ended s @ [(p, st)]" "st \<in> {word_of_int (u2k_reply header), ucast BLK_STS_IOERR}"
      using run v1 dev_write_blk_effect [of api datamap z ue c p header t s1 ret s'] by auto
    from st(1) have "life_step (life_of s) (Answer c p st) (life_of s')"
      using life_step.answer [of p "life_of s" c st] c(2) k by (simp add: life_of_def)
    moreover have "ks_rqs s p \<noteq> None"
      using kinv_waiting [OF inv c] r True by (auto simp: request_ok_def req_view_of_def)
    ultimately show ?thesis using k(1) rqs st(2) by blast
  next
    case False
    then have "ks_ended s' = ks_ended s"
      using run v1 dev_write_zones_effect [of ue p header t s1 ret s'] by auto
    then have "life_step (life_of s) (Answer_zones c p) (life_of s')"
      using life_step.answer_zones [of p "life_of s" c] c(2) k by (simp add: life_of_def)
    moreover have "ks_rqs s p = None"
      using kinv_waiting [OF inv c] r False by (auto simp: request_ok_def req_view_of_def)
    ultimately show ?thesis using k(1) rqs by blast
  qed
qed

text \<open>
  Writing the first message: creating a device or connecting to one. The kernel guarantees that the
  allocator gives an address in no use and that the 32-bit connection counters do not run over
  (\<open>alloc_guard\<close>). Nothing guarantees that a disk of the name asked for does not exist yet:
  \<open>create_block_device\<close> does not look (\<open>name_taken\<close>).
\<close>

definition created_name :: "user_env \<Rightarrow> bius_u2k_header \<Rightarrow> byte list" where
  "created_name ue header = c_str DISK_NAME_LEN (opt_disk_name (options_of_bytes
     (snd (copy_from_user ue (unat (u2k_user_data header)) SIZEOF_OPTIONS))))"

definition alloc_guard :: "create_env \<Rightarrow> 'bio kstate \<Rightarrow> bool" where
  "alloc_guard env s \<longleftrightarrow>
     (\<forall>d \<in> set (ks_all_disk_list s). ce_kmalloc env \<noteq> Some d \<and>
        (case ks_devs s d of None \<Rightarrow> True | Some dev \<Rightarrow> bd_num_connection dev \<noteq> - 1))"

definition name_taken :: "user_env \<Rightarrow> bius_u2k_header \<Rightarrow> 'bio kstate \<Rightarrow> bool" where
  "name_taken ue header s \<longleftrightarrow> u2k_type header = bius_req_code BIUS_CREATE \<and>
     (\<exists>d \<in> set (ks_all_disk_list s). case ks_devs s d of None \<Rightarrow> False
      | Some dev \<Rightarrow> c_str DISK_NAME_LEN (bd_disk_name dev) = created_name ue header)"

definition init_guard :: "create_env \<Rightarrow> user_env \<Rightarrow> bius_u2k_header \<Rightarrow> 'bio kstate \<Rightarrow> bool" where
  "init_guard env ue header s \<longleftrightarrow> alloc_guard env s \<and> \<not> name_taken ue header s"

lemmas init_guard_defs = init_guard_def alloc_guard_def name_taken_def

lemma new_block_device_sel [simp]:
  "bd_pending (new_block_device options major d) = []"
  "bd_num_connection (new_block_device options major d) = 0"
  "c_str DISK_NAME_LEN (bd_disk_name (new_block_device options major d)) =
     c_str DISK_NAME_LEN (opt_disk_name options)"
  by (simp_all add: new_block_device_def init_bius_block_device_def)

lemma create_block_device_device:
  "create_block_device env options s = (ret, Some d, calls, s') \<Longrightarrow>
     ce_kmalloc env = Some d \<and> s' = (put_dev d (new_block_device options (ce_register_blkdev env) d) s)
       \<lparr>ks_all_disk_list := ks_all_disk_list s @ [d]\<rparr>"
  by (auto simp: create_block_device_def Let_def split: option.splits if_splits)

lemma kinv_create:
  assumes inv: "kinv s" and d: "d \<notin> set (ks_all_disk_list s)"
    and dev: "bd_pending dev = []" "bd_num_connection dev = 0"
    and name: "\<forall>x \<in> set (ks_all_disk_list s). \<forall>y. ks_devs s x = Some y \<longrightarrow>
        c_str DISK_NAME_LEN (bd_disk_name y) \<noteq> c_str DISK_NAME_LEN (bd_disk_name dev)"
    and v: "view_of s' = view_of ((put_dev d dev s)\<lparr>ks_all_disk_list := ks_all_disk_list s @ [d]\<rparr>)"
  shows "kinv s' \<and> place_list (view_of s') = place_list (view_of s)"
proof -
  have v': "view_of s' = (view_of s)\<lparr>kv_list := kv_list (view_of s) @ [d],
      kv_devs := (kv_devs (view_of s))(d \<mapsto> dev)\<rparr>"
    unfolding v by (simp add: view_of_def put_dev_def)
  have "place_list (view_of s') = place_list (view_of s)"
    unfolding v' place_list_enlist using d dev by (simp add: fun_upd_idem_iff place_list.simps)
  moreover have "view_inv (view_of s')"
    unfolding v'
  proof (rule view_inv_create)
    show "Some (c_str DISK_NAME_LEN (bd_disk_name dev)) \<notin>
        disk_key (view_of s) ` set (kv_list (view_of s))"
      using name by (auto simp: disk_key_def eq_commute [of "Some _"])
  qed (use inv d dev in \<open>simp_all add: kinv_def\<close>)
  ultimately show ?thesis by (simp add: kinv_def)
qed

lemma kinv_connect:
  assumes inv: "kinv s" and c: "ks_conns s c = Some cn" "cn_block_dev cn = None"
    and d: "d \<in> set (ks_all_disk_list s)" "ks_devs s d = Some dev" and room: "bd_num_connection dev \<noteq> - 1"
    and s': "s' = put_conn c (cn\<lparr>cn_block_dev := Some d\<rparr>)
                  (put_dev d (dev\<lparr>bd_num_connection := bd_num_connection dev + 1\<rparr>) s)"
  shows "kinv s' \<and> place_list (view_of s') = place_list (view_of s)"
proof -
  have v: "view_of s' = (view_of s)\<lparr>
      kv_conns := (kv_conns (view_of s))(c \<mapsto> (conn_view_of cn)\<lparr>cv_dev := Some d\<rparr>),
      kv_devs := (kv_devs (view_of s))(d \<mapsto> dev\<lparr>bd_num_connection := bd_num_connection dev + 1\<rparr>)\<rparr>"
    unfolding s' by (simp add: view_put_conn view_put_dev conn_view_of_def)
  have "place_list (view_of s') pl = place_list (view_of s) pl" for pl
    using c d by (cases pl) (auto simp: v place_list.simps conn_view_of_def)
  moreover have "view_inv (view_of s')"
    unfolding v by (rule view_inv_connect) (use assms in \<open>simp_all add: kinv_def conn_view_of_def\<close>)
  ultimately show ?thesis by (auto simp: kinv_def)
qed

lemma init_device_refines:
  assumes inv: "kinv s" and guard: "init_guard env ue header s"
    and run: "init_device env ue header s = Some (Inr (d, s1))"
  shows "kinv s1 \<and> place_list (view_of s1) = place_list (view_of s) \<and> ks_conns s1 = ks_conns s \<and>
    ks_rqs s1 = ks_rqs s \<and> ks_ended s1 = ks_ended s \<and> d \<in> set (ks_all_disk_list s1) \<and>
    (\<exists>dev. ks_devs s1 d = Some dev \<and> bd_num_connection dev \<noteq> - 1)"
proof (cases "u2k_type header = bius_req_code BIUS_CREATE")
  case True
  let ?cp = "copy_from_user ue (unat (u2k_user_data header)) SIZEOF_OPTIONS"
  let ?opt = "options_of_bytes (snd ?cp)"
  obtain ret calls s2 where create: "create_block_device env ?opt s = (ret, Some d, calls, s2)"
    and s1: "s1 = s2 \<or> s1 = bius_revalidate d s2"
    using run True
    by (auto simp: init_device_def Let_def Option.bind_eq_Some_conv split: prod.splits if_splits)
  note dev = create_block_device_device [OF create]
  have "kinv s1 \<and> place_list (view_of s1) = place_list (view_of s)"
    by (rule kinv_create [OF inv, of d "new_block_device ?opt (ce_register_blkdev env) d"])
      (use guard dev True s1 in \<open>auto simp: init_guard_defs created_name_def bius_revalidate_def\<close>)
  then show ?thesis using s1 dev by (auto simp: bius_revalidate_def bius_sel)
next
  case False
  then obtain name where "s1 = s" "get_block_device name s = Some (Some d)"
    using run by (auto simp: init_device_def Let_def Option.bind_eq_Some_conv
        split: prod.splits if_splits option.splits)
  then show ?thesis
    using inv guard find_device_in [of "ks_devs s" name "rev (ks_all_disk_list s)" d]
    by (force simp: get_block_device_def init_guard_defs split: option.splits)
qed

lemma handle_initialization_refines:
  assumes inv: "kinv s" and c: "ks_conns s c = Some cn" "cn_block_dev cn = None"
    and guard: "init_guard env ue header s"
    and run: "handle_initialization env ue c header s = Some (ret, s')"
  shows "kinv s' \<and> kv_rqs (view_of s') = kv_rqs (view_of s) \<and> life_of s' = life_of s"
proof -
  obtain r where r: "init_device env ue header s = Some r"
    using run by (auto simp: handle_initialization_def Option.bind_eq_Some_conv)
  show ?thesis
  proof (cases r)
    case (Inl e)
    then show ?thesis using inv run r by (simp add: handle_initialization_def)
  next
    case (Inr ds)
    obtain d s1 where ds: "ds = (d, s1)" by (cases ds)
    note ini = init_device_refines [OF inv guard r [unfolded Inr ds]]
    then obtain dev where dev: "ks_devs s1 d = Some dev" "bd_num_connection dev \<noteq> - 1" by blast
    have s': "s' = put_conn c (cn\<lparr>cn_block_dev := Some d\<rparr>)
        (put_dev d (dev\<lparr>bd_num_connection := bd_num_connection dev + 1\<rparr>) s1)"
      using run r Inr ds dev ini c by (simp add: handle_initialization_def)
    from kinv_connect [of s1 c cn d dev, OF _ _ c(2) _ dev s'] ini c(1)
    have "kinv s' \<and> place_list (view_of s') = place_list (view_of s)" by simp
    moreover have "ks_rqs s' = ks_rqs s" "ks_ended s' = ks_ended s" using ini by (simp_all add: s' bius_sel)
    ultimately show ?thesis by (simp add: life_of_def) (simp add: view_of_def)
  qed
qed

lemma bius_dev_write_refines:
  assumes inv: "kinv s" and guard: "\<forall>cn. ks_conns s c = Some cn \<longrightarrow> cn_block_dev cn = None \<longrightarrow> init_guard env ue header s"
    and run: "bius_dev_write api datamap z env ue copied header c n s = Some (ret, s')"
  shows "kinv s' \<and> kv_rqs (view_of s') = kv_rqs (view_of s) \<and>
    (life_of s' = life_of s \<or>
     (\<exists>p. \<exists>st \<in> {word_of_int (u2k_reply header), ucast BLK_STS_IOERR}.
        life_step (life_of s) (Answer c p st) (life_of s') \<and> ks_rqs s p \<noteq> None) \<or>
     (\<exists>p. life_step (life_of s) (Answer_zones c p) (life_of s') \<and> ks_rqs s p = None))"
proof -
  obtain cn where c: "ks_conns s c = Some cn"
    using run by (auto simp: bius_dev_write_def Option.bind_eq_Some_conv)
  note run' = run [unfolded bius_dev_write_def, simplified c, simplified]
  have idle: "s' = s \<Longrightarrow> ?thesis" using inv by simp
  show ?thesis
  proof (cases "n < SIZEOF_U2K_HEADER \<or> copied = 0 \<or> cn_block_dev cn = None")
    case True
    then show ?thesis
      using run' idle handle_initialization_refines [OF inv c, of env ue header ret s'] guard c by (auto split: if_splits)
  next
    case False
    then obtain found where found: "get_request_by_id (ks_reqs s) (cn_waiting cn) (u2k_id header) = Some found"
      using run' by (auto simp: Option.bind_eq_Some_conv split: if_splits)
    show ?thesis
    proof (cases found)
      case None
      then show ?thesis using run' False found idle by (cases "cn_block_dev cn") simp_all
    next
      case (Some p)
      obtain r where r: "p \<in> set (cn_waiting cn)" "ks_reqs s p = Some r"
        using get_request_by_id_in_list [OF found [unfolded Some]] by blast
      have "(if is_blk_request (req_type r)
         then dev_write_blk api datamap z ue c p header (int copied) (put_conn c (cn\<lparr>cn_waiting := remove1 p (cn_waiting cn),
         cn_sending := (if cn_sending cn = Some p then None else cn_sending cn)\<rparr>) s)
         else dev_write_zones ue p header (int copied) (put_conn c (cn\<lparr>cn_waiting := remove1 p (cn_waiting cn),
         cn_sending := (if cn_sending cn = Some p then None else cn_sending cn)\<rparr>) s)) = Some (ret, s')"
        using run' False found Some r by (cases "cn_block_dev cn") (simp_all add: bius_sel Let_def)
      from bius_dev_write_answer_refines [OF inv c r(1) refl r(2) this] show ?thesis by blast
    qed
  qed
qed

text \<open>Closing: the waiting requests fail, and the pending ones too when the last user leaves.\<close>

lemma end_waiting_effect:
  "end_waiting ps s = Some s' \<Longrightarrow> view_of s' = view_of s \<and>
     ks_ended s' = ks_ended s @ map (\<lambda>p. (p, ucast BLK_STS_IOERR)) ps \<and> (\<forall>p \<in> set ps. ks_rqs s p \<noteq> None)"
proof (induction ps arbitrary: s)
  case (Cons p ps)
  then obtain s1 where s1: "end_blk_request p (ucast BLK_STS_IOERR) s = Some s1" "end_waiting ps s1 = Some s'"
    by (auto split: option.splits)
  with Cons.IH [OF s1(2)] end_blk_request_effect [OF s1(1)] view_rqs_None [of s1 s] show ?case by simp
qed simp

lemma end_pending_effect:
  "end_pending ps s = Some s' \<Longrightarrow>
     s' = s\<lparr>ks_ended := ks_ended s @ map (\<lambda>p. (p, ucast BLK_STS_IOERR)) ps\<rparr> \<and>
     (\<forall>p \<in> set ps. ks_rqs s p \<noteq> None)"
  by (induction ps arbitrary: s) (simp, fastforce simp: blk_mq_end_request_def split: option.splits)

lemma get_block_device_self:
  assumes inv: "devs_inv (view_of s)" and d: "d \<in> set (ks_all_disk_list s)" "ks_devs s d = Some dev"
  shows "get_block_device (bd_disk_name dev) s = Some (Some d)"
proof -
  have "\<exists>y. ks_devs s x = Some y \<and>
      (c_str DISK_NAME_LEN (bd_disk_name y) = c_str DISK_NAME_LEN (bd_disk_name dev) \<longrightarrow> x = d)"
    if x: "x \<in> set (ks_all_disk_list s)" for x
  proof -
    obtain y where y: "ks_devs s x = Some y" using devs_invD [OF inv, of x] x by auto
    have "inj_on (disk_key (view_of s)) (set (ks_all_disk_list s))" using inv by (simp add: devs_inv_def)
    from inj_onD [OF this _ x d(1)] show ?thesis using y d by (auto simp: disk_key_def)
  qed
  then show ?thesis
    unfolding get_block_device_def by (intro find_device_unique [where dev = dev]) (use d in auto)
qed

lemma get_block_device_kept:
  assumes "kinv s" "d \<in> set (ks_all_disk_list s)" "ks_devs s d = Some dev"
    and t: "ks_devs t = (ks_devs s)(d \<mapsto> dev\<lparr>bd_num_connection := n\<rparr>)" "ks_all_disk_list t = ks_all_disk_list s"
  shows "get_block_device (bd_disk_name dev) t = Some (Some d)"
proof -
  have "get_block_device (bd_disk_name dev) t = get_block_device (bd_disk_name dev) s"
    unfolding get_block_device_def t using assms by (intro find_device_upd) auto
  then show ?thesis using get_block_device_self [of s d dev] assms by (simp add: kinv_def view_inv_def)
qed

lemma view_of_close: "view_of (x\<lparr>ks_conns := (ks_conns x)(c := None)\<rparr>) = view_close c (view_of x)"
  by (auto simp: view_of_def view_close_def)

text \<open>What closing leaves of the view, and the answers it gives beyond those for the connection's own requests.\<close>

lemma release_detached_effect:
  assumes run: "bius_dev_release c s = Some (ret, s')" and cn: "ks_conns s c = Some cn" "cn_block_dev cn = None"
  shows "view_of s' = view_close c (view_of s) \<and> ks_ended s' = ks_ended s @ map (\<lambda>p. (p, ucast BLK_STS_IOERR)) (cn_waiting cn) \<and>
    (\<forall>p \<in> set (cn_waiting cn). ks_rqs s p \<noteq> None) \<and> ks_conns s' c = None"
proof -
  obtain s1 where s1: "end_waiting (cn_waiting cn) s = Some s1" and "s' = s1\<lparr>ks_conns := (ks_conns s1)(c := None)\<rparr>"
    using run cn by (auto simp: bius_dev_release_def Option.bind_eq_Some_conv)
  then show ?thesis using end_waiting_effect [OF s1] by (simp add: view_of_close)
qed

lemma release_attached_effect:
  assumes inv: "kinv s" and run: "bius_dev_release c s = Some (ret, s')"
    and cn: "ks_conns s c = Some cn" "cn_block_dev cn = Some d"
    and dev: "d \<in> set (ks_all_disk_list s)" "ks_devs s d = Some dev"
  defines "drained \<equiv> (if bd_num_connection dev = 1 then bd_pending dev else [])"
  shows "view_of s' = view_release c d dev (view_of s) \<and>
    ks_ended s' = ks_ended s @ map (\<lambda>p. (p, ucast BLK_STS_IOERR)) (cn_waiting cn @ drained) \<and>
    (\<forall>p \<in> set (cn_waiting cn @ drained). ks_rqs s p \<noteq> None) \<and> ks_conns s' c = None"
proof -
  obtain s1 where s1: "end_waiting (cn_waiting cn) s = Some s1"
    using run cn by (auto simp: bius_dev_release_def Option.bind_eq_Some_conv)
  note eff = end_waiting_effect [OF s1]
  have same: "ks_devs s1 = ks_devs s" "ks_all_disk_list s1 = ks_all_disk_list s"
    using arg_cong [OF conjunct1 [OF eff], of kv_devs] arg_cong [OF conjunct1 [OF eff], of kv_list] by simp_all
  let ?n = "bd_num_connection dev - 1"
  let ?s2 = "put_dev d (dev\<lparr>bd_num_connection := ?n\<rparr>) s1"
  have n: "?n = 0 \<longleftrightarrow> bd_num_connection dev = 1" by simp
  show ?thesis
  proof (cases "bd_num_connection dev = 1")
    case False
    then have s': "s' = ?s2\<lparr>ks_conns := (ks_conns ?s2)(c := None)\<rparr>"
      using run cn s1 dev same n by (simp add: bius_dev_release_def Let_def)
    then have "view_of s' = view_release c d dev (view_of s)"
      using eff False n by (simp add: view_of_close view_put_dev view_release_def view_close_def Let_def)
    then show ?thesis using eff False by (simp add: drained_def) (simp add: s' bius_sel)
  next
    case True
    have key: "get_block_device (bd_disk_name dev) ?s2 = Some (Some d)"
      by (rule get_block_device_kept [OF inv dev]) (simp_all add: same bius_sel)
    let ?s3 = "?s2\<lparr>ks_all_disk_list := remove1 d (ks_all_disk_list ?s2)\<rparr>"
    obtain s4 where s4: "end_pending (bd_pending dev) ?s3 = Some s4" and s': "s' = s4\<lparr>ks_conns := (ks_conns s4)(c := None)\<rparr>"
      using run cn s1 dev same n True key
      by (auto simp: bius_dev_release_def remove_block_device_def Let_def Option.bind_eq_Some_conv bius_sel
          split: option.splits if_splits)
    note eff4 = end_pending_effect [OF s4]
    have "view_of s4 = view_of ?s3" unfolding conjunct1 [OF eff4] by (rule view_neutral)
    moreover have "view_of ?s3 = (view_of s1)\<lparr>kv_devs := (ks_devs s)(d \<mapsto> dev\<lparr>bd_num_connection := ?n\<rparr>),
        kv_list := remove1 d (ks_all_disk_list s)\<rparr>"
      using same by (simp add: view_of_def bius_sel)
    ultimately have "view_of s' = view_release c d dev (view_of s)"
      using eff True by (simp add: s' view_of_close view_release_def view_close_def Let_def)
    moreover have "\<forall>p \<in> set (bd_pending dev). ks_rqs s p \<noteq> None"
      using conjunct2 [OF eff4] view_rqs_None [of s1 s] eff by (simp add: bius_sel)
    ultimately show ?thesis using eff eff4 True by (auto simp: drained_def s' bius_sel)
  qed
qed

lemma bius_dev_release_refines:
  assumes inv: "kinv s" and run: "bius_dev_release c s = Some (ret, s')"
    and cn: "ks_conns s c = Some cn"
  shows "kinv s' \<and> kv_rqs (view_of s') = kv_rqs (view_of s) \<and> ks_conns s' c = None \<and>
    (\<forall>p \<in> set (cn_waiting cn). ks_rqs s p \<noteq> None) \<and>
    (\<exists>L. life_step (life_of s) (Drain (Waiting c) (cn_waiting cn) (ucast BLK_STS_IOERR)) L \<and>
       (life_of s' = L \<or>
        (\<exists>d dev. cn_block_dev cn = Some d \<and> ks_devs s d = Some dev \<and>
           (\<forall>p \<in> set (bd_pending dev). ks_rqs s p \<noteq> None) \<and>
           life_step L (Drain (Pending d) (bd_pending dev) (ucast BLK_STS_IOERR)) (life_of s'))))"
proof -
  let ?io = "ucast BLK_STS_IOERR :: kblk_status"
  let ?L = "\<lparr>life_at = (place_list (view_of s))(Waiting c := []),
             life_done = ks_ended s @ map (\<lambda>p. (p, ?io)) (cn_waiting cn)\<rparr>"
  have cv: "kv_conns (view_of s) c = Some (conn_view_of cn)" using cn by simp
  have step: "life_step (life_of s) (Drain (Waiting c) (cn_waiting cn) ?io) ?L"
    using life_step.drain [of "cn_waiting cn" "life_of s" "Waiting c" ?io] cv
    by (simp add: life_of_def place_list_Waiting) (simp add: conn_view_of_def)
  show ?thesis
  proof (cases "cn_block_dev cn")
    case None
    note eff = release_detached_effect [OF run cn None]
    have "kinv s'"
      using view_inv_close [of "view_of s" c "conn_view_of cn"] inv cv None eff by (simp add: kinv_def conn_view_of_def)
    moreover have "life_of s' = ?L" using eff by (simp add: life_of_def place_list_close)
    ultimately show ?thesis using step eff by (auto simp: view_close_def)
  next
    case (Some d)
    obtain dev where dev: "d \<in> set (ks_all_disk_list s)" "ks_devs s d = Some dev"
      using kinv_conn_dev [OF inv cn Some] by blast
    note eff = release_attached_effect [OF inv run cn Some dev]
    have "kinv s'"
      using view_inv_release [of "view_of s" c "conn_view_of cn" d dev] inv cv Some dev eff
      by (simp add: kinv_def conn_view_of_def)
    moreover have "place_list (view_release c d dev (view_of s)) =
        (if bd_num_connection dev = 1 then (place_list (view_of s))(Waiting c := [], Pending d := [])
         else (place_list (view_of s))(Waiting c := []))"
      using place_list_release [of "view_of s" d dev c] inv dev
      by (simp add: kinv_def view_inv_def devs_inv_def place_list_close)
    then have "life_of s' = ?L \<or> bd_num_connection dev = 1 \<and> life_step ?L (Drain (Pending d) (bd_pending dev) ?io) (life_of s')"
      using life_step.drain [of "bd_pending dev" ?L "Pending d" ?io] dev eff
      by (cases "bd_num_connection dev = 1") (simp_all add: life_of_def place_list_Pending)
    ultimately show ?thesis using step Some dev eff by (auto simp: view_release_def Let_def)
  qed
qed

end
