(* ===== verification/Bius_Kernel.thy ===== *)
theory Bius_Kernel
  imports Bius_Driver
begin

text \<open>
  The kernel module under any interleaving of its entry points: the step relation \<open>kstep\<close> and
  its runs. A step is one call of an entry point that returns; a call that runs into undefined
  behaviour is no step. The guards are what the block layer and the kernel guarantee the module:
  a request is not queued again before it was answered and only at a registered disk, allocated
  objects have fresh addresses, and counters do not run over. What nobody guarantees is in the
  label of the step instead, and the theorems on runs say which labels they admit (\<open>orderly\<close>).
\<close>

section \<open>The remaining entry points\<close>

lemma bius_dev_open_refines:
  assumes inv: "kinv s" and c: "ks_conns s c = None"
    and run: "bius_dev_open datamap (Some c) pages s = (ret, oc, s')"
  shows "kinv s' \<and> kv_rqs (view_of s') = kv_rqs (view_of s) \<and> life_of s' = life_of s"
proof -
  have "s' = s \<or> (\<exists>cn. s' = put_conn c cn s \<and>
      conn_view_of cn = \<lparr>cv_dev = None, cv_waiting = [], cv_sending = None\<rparr>)"
    using run
    by (auto simp: bius_dev_open_def init_bius_connection_def Let_def conn_view_of_def
        split: option.splits if_splits)
  then show ?thesis
  proof (elim disjE exE conjE)
    fix cn
    assume s': "s' = put_conn c cn s"
      and cn: "conn_view_of cn = \<lparr>cv_dev = None, cv_waiting = [], cv_sending = None\<rparr>"
    have v: "view_of s' = (view_of s)\<lparr>kv_conns := (kv_conns (view_of s))
        (c \<mapsto> \<lparr>cv_dev = None, cv_waiting = [], cv_sending = None\<rparr>)\<rparr>"
      by (simp add: s' view_put_conn cn)
    have "view_inv (view_of s')"
      unfolding v by (rule view_inv_open) (use inv c in \<open>simp_all add: kinv_def\<close>)
    moreover have "place_list (view_of s') = place_list (view_of s)"
      unfolding v place_list_conn using c by (simp add: fun_upd_idem_iff place_list.simps)
    ultimately show ?thesis by (simp add: kinv_def life_of_def) (simp add: s' view_put_conn bius_sel)
  qed (use inv in simp)
qed

lemma bius_vm_open_view: "conn_view_of (bius_vm_open pmp fp z vma cn) = conn_view_of cn"
  by (simp add: bius_vm_open_def Let_def conn_view_of_def split: option.split)

lemma conn_view_vma: "conn_view_of (cn\<lparr>cn_vma := v\<rparr>) = conn_view_of cn"
  by (simp add: conn_view_of_def)

lemma bius_dev_mmap_refines:
  assumes inv: "kinv s" and run: "bius_dev_mmap pmp fp z c vma s = Some (ret, s')"
  shows "kinv s' \<and> kv_rqs (view_of s') = kv_rqs (view_of s) \<and> life_of s' = life_of s"
proof -
  obtain cn where cn: "ks_conns s c = Some cn"
    using run by (auto simp: bius_dev_mmap_def Option.bind_eq_Some_conv)
  have "view_of s' = view_of s \<and> ks_ended s' = ks_ended s"
    using run cn
    by (auto simp: bius_dev_mmap_def view_put_same_conn [OF cn] bius_sel bius_vm_open_view
        conn_view_vma split: if_splits)
  then show ?thesis using inv kinv_view life_of_same by auto
qed

lemma bius_report_zones_begin_refines:
  assumes inv: "kinv s" and d: "d \<in> set (ks_all_disk_list s)" and dead: "\<not> live (view_of s) p"
    and room: "ks_next_request_id s \<noteq> - 1" and p: "ks_rqs s p = None"
    and run: "bius_report_zones_begin ok d p sector nr s = Some (Inr s')"
  shows "kinv s' \<and> kv_rqs (view_of s') = kv_rqs (view_of s) \<and>
    life_step (life_of s) (Submit d p) (life_of s')"
proof -
  let ?s1 = "s\<lparr>ks_next_request_id := ks_next_request_id s + 1\<rparr>"
  define r where "r = (\<lparr>req_id = ks_next_request_id s + 1, req_type = BIUS_REPORT_ZONES,
      req_pos = push_bit 9 sector, req_length = min (unat nr) BIUS_MAX_ZONES,
      req_union = Int_part \<lparr>req_data = replicate (SIZEOF_BLK_ZONE * min (unat nr) BIUS_MAX_ZONES) 0,
                     req_sem = 0, req_int_result = 0\<rparr>,
      on_request_end = Report_zones_request_end\<rparr> :: 'a bius_request)"
  obtain dev where dev: "ks_devs s d = Some dev"
    and s': "s' = put_dev d (dev\<lparr>bd_pending := bd_pending dev @ [p]\<rparr>) (put_req p r ?s1)"
    using run
    by (auto simp: bius_report_zones_begin_def inc_request_id_def Let_def list_add_pending_def bius_sel
        Option.bind_eq_Some_conv r_def split: if_splits)
  have v: "view_of s' = view_submit d p dev (req_view_of r) (view_of s)"
    unfolding s' by (simp add: view_put_dev view_put_req_new view_submit_def) (simp add: view_of_def)
  have "kinv s'"
    unfolding kinv_def v
  proof (rule view_inv_submit)
    show "request_ok (view_submit d p dev (req_view_of r) (view_of s)) p (req_view_of r)"
      using p room
      by (auto simp: request_ok_def view_submit_def req_view_of_def unat_inc r_def is_blk_request_def
          blk_fields_def int_fields_def)
  qed (use inv d dev dead room in \<open>auto simp: kinv_def req_view_of_def r_def\<close>)
  moreover have "ks_ended s' = ks_ended s" by (simp add: s' bius_sel)
  ultimately show ?thesis
    using life_step.submit [of "life_of s" p d] dead d dev
      place_list_submit [of d "view_of s" dev p "req_view_of r"]
    by (simp add: life_of_def in_flight_def live_def v) (simp add: view_submit_def)
qed

lemma bius_report_zones_end_refines:
  assumes inv: "kinv s" and run: "bius_report_zones_end cb data False p s = Some (Returned (ret, data', s'))"
  shows "kinv s' \<and> kv_rqs (view_of s') = kv_rqs (view_of s) \<and> life_of s' = life_of s"
proof -
  obtain r i where r: "ks_reqs s p = Some r" "int_fields r = Some i" "req_sem i \<noteq> 0"
    and s': "s' = s\<lparr>ks_reqs := (ks_reqs s)(p := None)\<rparr>"
    using run by (auto simp: bius_report_zones_end_def Option.bind_eq_Some_conv Let_def split: if_splits)
  have "\<not> live (view_of s) p"
    using inv r by (auto simp: kinv_def view_inv_def request_ok_def req_view_of_def elim!: requests_invD)
  moreover have v: "view_of s' = (view_of s)\<lparr>kv_reqs := (kv_reqs (view_of s))(p := None)\<rparr>"
    by (auto simp: s' view_of_def)
  ultimately show ?thesis using kinv_dead_request [OF inv _ v] by (simp add: v life_of_def) (simp add: s')
qed

section \<open>The step relation\<close>

definition makes_double :: "ptr \<Rightarrow> user_env \<Rightarrow> bius_u2k_header \<Rightarrow> 'bio kstate \<Rightarrow> bool" where
  "makes_double c ue header s =
     (case ks_conns s c of None \<Rightarrow> False | Some cn \<Rightarrow> cn_block_dev cn = None \<and> name_taken ue header s)"

definition init_kstate :: "mem \<Rightarrow> 'bio kstate" where
  "init_kstate m = \<lparr>ks_next_request_id = 0, ks_all_disk_list = [], ks_devs = (\<lambda>_. None),
     ks_conns = (\<lambda>_. None), ks_reqs = (\<lambda>_. None), ks_rqs = (\<lambda>_. None), ks_mem = m,
     ks_ended = [], ks_revalidating = []\<rparr>"

text \<open>
  The label of a step names the call: its connection, device or request, for a queued request its
  operation, for a reply the message and whether it creates a disk under a name in use, for a read
  whether a command was handed out, and for a zone report whether its wait was killed.
\<close>

datatype kcall =
    Call_queue ptr ptr u32
  | Call_open ptr
  | Call_mmap ptr
  | Call_read ptr bool
  | Call_write ptr bius_u2k_header bool
  | Call_release ptr
  | Call_report ptr ptr
  | Call_report_end ptr bool
  | Call_memory

text \<open>
  A request that \<open>bius_queue_rq\<close> does not accept is ended by the block layer with the status returned.
\<close>

inductive kstep ::
  "'bio bio_api \<Rightarrow> bool \<Rightarrow> nat \<Rightarrow> req_op_codes \<Rightarrow> 'bio kstate \<Rightarrow> kcall \<Rightarrow> 'bio kstate \<Rightarrow> bool"
  for api :: "'bio bio_api" and datamap :: bool and zero_pfn :: nat and codes :: req_op_codes where
  k_queue: "\<lbrakk>\<not> live (view_of s) p; d \<in> set (ks_all_disk_list s); ks_next_request_id s \<noteq> - 1;
       rq_op q = REQ_OP_ZONE_APPEND codes \<longrightarrow> rq_bio q \<noteq> [];
       bius_queue_rq codes d p (put_rq p q s) = Some (st, s1);
       s' = (if st = ucast BLK_STS_OK then s1 else blk_mq_end_request p st s1)\<rbrakk>
     \<Longrightarrow> kstep api datamap zero_pfn codes s (Call_queue d p (rq_op q)) s'"
| k_open: "\<lbrakk>ks_conns s c = None; bius_dev_open datamap (Some c) pages s = (ret, oc, s')\<rbrakk>
     \<Longrightarrow> kstep api datamap zero_pfn codes s (Call_open c) s'"
| k_mmap: "bius_dev_mmap pmp fp zero_pfn c vma s = Some (ret, s')
     \<Longrightarrow> kstep api datamap zero_pfn codes s (Call_mmap c) s'"
| k_read: "bius_dev_read api datamap cti sig c n s = Some (Returned (ret, out, s'))
     \<Longrightarrow> kstep api datamap zero_pfn codes s (Call_read c (handed_out out)) s'"
| k_write: "\<lbrakk>\<forall>cn. ks_conns s c = Some cn \<longrightarrow> cn_block_dev cn = None \<longrightarrow> alloc_guard env s;
       bius_dev_write api datamap zero_pfn env ue copied header c n s = Some (ret, s')\<rbrakk>
     \<Longrightarrow> kstep api datamap zero_pfn codes s (Call_write c header (makes_double c ue header s)) s'"
| k_release: "bius_dev_release c s = Some (ret, s') \<Longrightarrow> kstep api datamap zero_pfn codes s (Call_release c) s'"
| k_zones_begin: "\<lbrakk>\<not> live (view_of s) p; d \<in> set (ks_all_disk_list s); ks_next_request_id s \<noteq> - 1;
       ks_rqs s p = None; bius_report_zones_begin True d p sector nr s = Some (Inr s')\<rbrakk>
     \<Longrightarrow> kstep api datamap zero_pfn codes s (Call_report d p) s'"
| k_zones_end: "bius_report_zones_end (cb :: nat \<Rightarrow> byte list \<Rightarrow> nat \<Rightarrow> int \<times> nat) data killed p s = Some (Returned (ret, data', s'))
     \<Longrightarrow> kstep api datamap zero_pfn codes s (Call_report_end p killed) s'"
| k_memory: "kstep api datamap zero_pfn codes s Call_memory (s\<lparr>ks_mem := m\<rparr>)"

inductive krun ::
  "'bio bio_api \<Rightarrow> bool \<Rightarrow> nat \<Rightarrow> req_op_codes \<Rightarrow> 'bio kstate \<Rightarrow> kcall list \<Rightarrow> 'bio kstate \<Rightarrow> bool"
  for api :: "'bio bio_api" and datamap :: bool and zero_pfn :: nat and codes :: req_op_codes where
  krun_init: "krun api datamap zero_pfn codes s [] s"
| krun_step: "krun api datamap zero_pfn codes s calls t \<Longrightarrow> kstep api datamap zero_pfn codes t k u \<Longrightarrow>
     krun api datamap zero_pfn codes s (calls @ [k]) u"

text \<open>
  The calls after which the module's lists are in order: no disk is created under a name in use, which
  the module does not check, and no zone report is killed while it waits, which leaves its request behind.
\<close>

fun orderly :: "kcall \<Rightarrow> bool" where
  "orderly (Call_write c header doubled) = (\<not> doubled)"
| "orderly (Call_report_end p killed) = (\<not> killed)"
| "orderly _ = True"

text \<open>How often a call makes the block layer wait for an answer: a refused request is ended twice.\<close>

fun submits :: "req_op_codes \<Rightarrow> kcall \<Rightarrow> ptr list" where
  "submits codes (Call_queue d p op) = (if to_bius_request codes op = BIUS_INVALID_OP then [p, p] else [p])"
| "submits codes _ = []"

text \<open>
  The events of the abstract state machine that a call may stand for. Only queueing a request or
  starting a zone report submits, only a queued request of unknown operation is rejected, a read that
  hands out a command takes one request for its connection, a reply answers one request of its own
  connection with its status (or an I/O error when its data cannot be copied), and closing drains the
  connection and possibly a device.
\<close>

fun explains :: "req_op_codes \<Rightarrow> kcall \<Rightarrow> life_event list \<Rightarrow> bool" where
  "explains codes (Call_queue d p op) es =
     (es = (if to_bius_request codes op = BIUS_INVALID_OP
            then [Reject p (ucast BLK_STS_NOTSUPP), Reject p (ucast BLK_STS_NOTSUPP)] else [Submit d p]))"
| "explains codes (Call_report d p) es = (es = [Submit d p])"
| "explains codes (Call_read c True) es = (\<exists>d p. es = [Take d c p])"
| "explains codes (Call_read c False) es = (es = [] \<or> (\<exists>d p. es = [Take_fail d p (ucast BLK_STS_IOERR)]))"
| "explains codes (Call_write c h doubled) es =
     (es = [] \<or> (\<exists>p. es = [Answer c p (word_of_int (u2k_reply h))] \<or> es = [Answer c p (ucast BLK_STS_IOERR)] \<or>
        es = [Answer_zones c p]))"
| "explains codes (Call_release c) es =
     (\<exists>ps. es = [Drain (Waiting c) ps (ucast BLK_STS_IOERR)] \<or>
        (\<exists>d qs. es = [Drain (Waiting c) ps (ucast BLK_STS_IOERR), Drain (Pending d) qs (ucast BLK_STS_IOERR)]))"
| "explains codes k es = (es = [])"

section \<open>The invariant and the account of submissions and answers\<close>

text \<open>A block request in flight: on one of the lists, and known to the block layer.\<close>

definition blk_in_flight :: "'bio kstate \<Rightarrow> ptr \<Rightarrow> bool" where
  "blk_in_flight s p \<longleftrightarrow> live (view_of s) p \<and> ks_rqs s p \<noteq> None"

definition answer_count :: "'bio kstate \<Rightarrow> ptr \<Rightarrow> nat" where
  "answer_count s p = count_list (map fst (ks_ended s)) p"

definition balanced :: "'bio kstate \<Rightarrow> ptr list \<Rightarrow> 'bio kstate \<Rightarrow> bool" where
  "balanced s subs s' \<longleftrightarrow> (\<forall>p. count_list subs p + of_bool (blk_in_flight s p) + answer_count s p =
     of_bool (blk_in_flight s' p) + answer_count s' p)"

lemma balanced_same:
  "life_of s' = life_of s \<Longrightarrow> kv_rqs (view_of s') = kv_rqs (view_of s) \<Longrightarrow> balanced s [] s'"
proof -
  assume "life_of s' = life_of s" "kv_rqs (view_of s') = kv_rqs (view_of s)"
  then have "ks_ended s' = ks_ended s" "place_list (view_of s') = place_list (view_of s)"
    "map_option rq_view_of (ks_rqs s' p) = map_option rq_view_of (ks_rqs s p)" for p
    by (simp_all add: life_of_def flip: view_sel)
  then show ?thesis
    by (simp add: balanced_def blk_in_flight_def answer_count_def live_def) (metis option.map_disc_iff)
qed

text \<open>
  A run of the specification that answers block requests as such: what one call of an entry
  point does.
\<close>

definition call_run :: "'bio kstate \<Rightarrow> life_event list \<Rightarrow> 'bio kstate \<Rightarrow> bool" where
  "call_run s es s' \<longleftrightarrow> kinv s' \<and> kv_rqs (view_of s') = kv_rqs (view_of s) \<and>
     life_run (life_of s) es (life_of s') \<and>
     (\<forall>e \<in> set es. (\<forall>p \<in> set (logged e). ks_rqs s p \<noteq> None) \<and>
        (\<forall>c p. e = Answer_zones c p \<longrightarrow> ks_rqs s p = None))"

definition blk_submissions :: "'bio kstate \<Rightarrow> life_event list \<Rightarrow> ptr list" where
  "blk_submissions s es = filter (\<lambda>p. ks_rqs s p \<noteq> None) (concat (map submissions es))"

lemma count_list_filter: "P p \<Longrightarrow> count_list (filter P xs) p = count_list xs p"
  by (induction xs) auto

lemma count_logged:
  assumes "\<forall>e \<in> set es. \<forall>c. e \<noteq> Answer_zones c p"
  shows "count_list (concat (map logged es)) p = count_list (concat (map answers es)) p"
  using assms
proof (induction es)
  case (Cons e es)
  then have "count_list (logged e) p = count_list (answers e) p" by (cases e) auto
  with Cons show ?case by simp
qed simp

lemma call_run_balanced:
  assumes inv: "kinv s" and run: "call_run s es s'"
  shows "balanced s (blk_submissions s es) s'"
  unfolding balanced_def
proof
  fix p
  have wf: "at_wf (life_at (life_of s))"
    using inv view_inv_places by (auto simp: kinv_def life_of_def)
  from run have life: "life_run (life_of s) es (life_of s')"
    and rqs: "(ks_rqs s' p = None) = (ks_rqs s p = None)"
    using view_rqs_None [of s' s p] by (simp_all add: call_run_def)
  have cnt: "answer_count s' p = answer_count s p + count_list (concat (map logged es)) p"
    using life_run_logged [OF life] by (simp add: answer_count_def life_of_def)
  show "count_list (blk_submissions s es) p + of_bool (blk_in_flight s p) + answer_count s p =
     of_bool (blk_in_flight s' p) + answer_count s' p"
  proof (cases "ks_rqs s p = None")
    case True
    then have "p \<notin> set (blk_submissions s es)" "p \<notin> set (concat (map logged es))"
      using run by (simp_all add: call_run_def blk_submissions_def) (metis option.distinct(1))
    then show ?thesis using cnt True rqs by (simp add: blk_in_flight_def)
  next
    case False
    then have fl: "of_bool (blk_in_flight x p) = flight_count (life_of x) p" if "x \<in> {s, s'}" for x
      using that rqs by (auto simp: blk_in_flight_def flight_count_def in_flight_def live_def life_of_def)
    have "count_list (concat (map logged es)) p = count_list (concat (map answers es)) p"
      by (rule count_logged) (use False run in \<open>auto simp: call_run_def\<close>)
    then show ?thesis
      using life_run_conservation [OF life wf, of p] cnt fl False
      by (simp add: blk_submissions_def count_list_filter)
  qed
qed

lemma call_run_idle:
  "kinv s' \<and> kv_rqs (view_of s') = kv_rqs (view_of s) \<and> life_of s' = life_of s \<Longrightarrow> call_run s [] s'"
  by (simp add: call_run_def life_run_nil)

lemma call_run_event:
  assumes "kinv s'" "kv_rqs (view_of s') = kv_rqs (view_of s)" "life_step (life_of s) e (life_of s')"
    and "\<forall>p \<in> set (logged e). ks_rqs s p \<noteq> None" "\<forall>c p. e = Answer_zones c p \<longrightarrow> ks_rqs s p = None"
  shows "call_run s [e] s'"
  using assms by (simp add: call_run_def life_run_single)

lemma balanced_trans: "balanced s xs t \<Longrightarrow> balanced t ys u \<Longrightarrow> balanced s (xs @ ys) u"
  unfolding balanced_def by (metis (no_types, opaque_lifting) add.assoc add.commute count_list_append)

lemma balanced_put_rq:
  assumes "kinv s" "\<not> live (view_of s) p"
  shows "kinv (put_rq p q s) \<and> live (view_of (put_rq p q s)) = live (view_of s) \<and> balanced s [] (put_rq p q s)"
proof -
  have v: "view_of (put_rq p q s) = (view_of s)\<lparr>kv_rqs := (kv_rqs (view_of s))(p \<mapsto> rq_view_of q)\<rparr>"
    by (rule view_put_rq_new)
  have "place_list (view_of (put_rq p q s)) = place_list (view_of s)"
    by (rule place_list_eqI) (simp_all add: v)
  then have "live (view_of (put_rq p q s)) = live (view_of s)" by (intro ext) (simp add: live_def)
  then show ?thesis
    using assms view_inv_dead_rq [of "view_of s" p]
    by (simp add: kinv_def v balanced_def blk_in_flight_def answer_count_def) (simp add: put_rq_def)
qed

lemma life_of_put_rq: "life_of (put_rq p q s) = life_of s"
proof -
  have "place_list (view_of (put_rq p q s)) = place_list (view_of s)"
    by (rule place_list_eqI) (simp_all add: view_put_rq_new)
  then show ?thesis by (simp add: life_of_def bius_sel)
qed

lemma end_again:
  assumes "kinv s" "\<not> live (view_of s) p"
  shows "kinv (blk_mq_end_request p st s)" "balanced s [p] (blk_mq_end_request p st s)"
    "life_step (life_of s) (Reject p st) (life_of (blk_mq_end_request p st s))"
proof -
  have v: "view_of (blk_mq_end_request p st s) = view_of s" by (simp add: blk_mq_end_request_def)
  then show "kinv (blk_mq_end_request p st s)" using assms(1) by (simp add: kinv_def)
  have "ks_rqs (blk_mq_end_request p st s) = ks_rqs s" "ks_ended (blk_mq_end_request p st s) = ks_ended s @ [(p, st)]"
    by (simp_all add: blk_mq_end_request_def)
  then show "balanced s [p] (blk_mq_end_request p st s)"
    by (simp add: balanced_def blk_in_flight_def answer_count_def v)
  show "life_step (life_of s) (Reject p st) (life_of (blk_mq_end_request p st s))"
    using life_step.reject [of "life_of s" p st] assms(2)
    by (simp add: life_of_def v in_flight_def live_def) (simp add: blk_mq_end_request_def)
qed

lemma queue_step:
  assumes inv: "kinv s" and codes: "zone_codes_agree codes"
    and guard: "\<not> live (view_of s) p" "d \<in> set (ks_all_disk_list s)" "ks_next_request_id s \<noteq> - 1"
      "rq_op q = REQ_OP_ZONE_APPEND codes \<longrightarrow> rq_bio q \<noteq> []"
    and run: "bius_queue_rq codes d p (put_rq p q s) = Some (st, s1)"
      "s' = (if st = ucast BLK_STS_OK then s1 else blk_mq_end_request p st s1)"
  shows "kinv s' \<and> balanced s (submits codes (Call_queue d p (rq_op q))) s' \<and>
    (\<exists>es. explains codes (Call_queue d p (rq_op q)) es \<and> life_run (life_of s) es (life_of s'))"
proof -
  let ?s = "put_rq p q s"
  from balanced_put_rq [OF inv guard(1), of q]
  have k: "kinv ?s" "\<not> live (view_of ?s) p" "balanced s [] ?s" using guard by auto
  have rq: "ks_rqs ?s p = Some q" "d \<in> set (ks_all_disk_list ?s)" "ks_next_request_id ?s \<noteq> - 1"
    using guard by (simp_all add: bius_sel)
  note r = bius_queue_rq_refines [OF k(1) rq(2) k(2) codes rq(3,1) guard(4) run(1)]
  have bal: "balanced s (submissions e) s1"
    if "life_step (life_of ?s) e (life_of s1)" "e = Submit d p \<or> e = Reject p st" for e
  proof -
    have "call_run ?s [e] s1" using r that rq(1) by (intro call_run_event) auto
    from call_run_balanced [OF k(1) this] that(2) rq(1) have "balanced ?s (submissions e) s1"
      by (auto simp: blk_submissions_def)
    with balanced_trans [OF k(3) this] show ?thesis by simp
  qed
  show ?thesis
  proof (cases "to_bius_request codes (rq_op q) = BIUS_INVALID_OP")
    case False
    then have "st = ucast BLK_STS_OK" "life_step (life_of ?s) (Submit d p) (life_of s1)" using r by simp_all
    then show ?thesis using bal [of "Submit d p"] r False run(2) by (auto simp: life_of_put_rq intro: life_run_single)
  next
    case True
    have st: "st = ucast BLK_STS_NOTSUPP" "life_step (life_of ?s) (Reject p st) (life_of s1)"
      using r unfolding if_P [OF True] by blast+
    have "\<not> in_flight (life_of s1) p"
      using st(2) k(2) by (cases rule: life_step.cases) (auto simp: in_flight_def live_def life_of_def)
    then have dead: "\<not> live (view_of s1) p" by (simp add: in_flight_def live_def life_of_def)
    have s': "s' = blk_mq_end_request p st s1" using run(2) st(1) by (simp add: bius_const)
    have "kinv s1" using r by simp
    note twice = end_again [OF this dead, of st]
    have "life_run (life_of s) [Reject p st, Reject p st] (life_of s')"
      using life_run_pair [OF st(2) twice(3)] by (simp add: s' life_of_put_rq)
    then show ?thesis
      using balanced_trans [OF bal [OF st(2)] twice(2)] twice(1) True by (simp add: s' st(1))
  qed
qed

lemma release_step:
  assumes inv: "kinv s" and run: "bius_dev_release c s = Some (ret, s')"
  shows "\<exists>es. call_run s es s' \<and> concat (map submissions es) = [] \<and> explains codes (Call_release c) es"
proof -
  let ?io = "ucast BLK_STS_IOERR :: kblk_status"
  obtain cn where cn: "ks_conns s c = Some cn"
    using run by (auto simp: bius_dev_release_def Option.bind_eq_Some_conv)
  let ?e = "Drain (Waiting c) (cn_waiting cn) ?io"
  note ref = bius_dev_release_refines [OF inv run cn]
  then have k: "kinv s'" "kv_rqs (view_of s') = kv_rqs (view_of s)"
    and w: "\<forall>p \<in> set (cn_waiting cn). ks_rqs s p \<noteq> None" by simp_all
  from ref show ?thesis
  proof (elim disjE exE conjE)
    fix L
    assume L: "life_step (life_of s) ?e L"
    show ?thesis if "life_of s' = L"
      using k w life_run_single [OF L] that by (intro exI [of _ "[?e]"]) (simp add: call_run_def)
    show ?thesis if "\<forall>p \<in> set (bd_pending dev). ks_rqs s p \<noteq> None"
      "life_step L (Drain (Pending d) (bd_pending dev) ?io) (life_of s')" for d and dev :: bius_block_device
      using k w life_run_pair [OF L] that
      by (intro exI [of _ "[?e, Drain (Pending d) (bd_pending dev) ?io]"]) (simp add: call_run_def)
  qed
qed

lemma read_step:
  assumes "kinv s" "bius_dev_read api datamap cti sig c n s = Some (Returned (ret, out, s'))"
  shows "\<exists>es. call_run s es s' \<and> concat (map submissions es) = [] \<and> explains codes (Call_read c (handed_out out)) es"
  using bius_dev_read_refines [OF assms]
proof (elim conjE disjE exE)
  assume *: "kinv s'" "kv_rqs (view_of s') = kv_rqs (view_of s)"
  show ?thesis if "life_of s' = life_of s" "\<not> handed_out out"
    using * that call_run_idle [of s' s] by (intro exI [of _ "[]"]) simp
  show ?thesis if "life_step (life_of s) (Take d c p) (life_of s')" "handed_out out" for d p
    using call_run_event [OF * that(1)] that(2) by (intro exI [of _ "[Take d c p]"]) simp
  show ?thesis if "life_step (life_of s) (Take_fail d p (ucast BLK_STS_IOERR)) (life_of s')"
    "ks_rqs s p \<noteq> None" "\<not> handed_out out" for d p
    using call_run_event [OF * that(1)] that(2,3)
    by (intro exI [of _ "[Take_fail d p (ucast BLK_STS_IOERR)]"]) simp
qed

lemma write_step:
  assumes "kinv s" "\<forall>cn. ks_conns s c = Some cn \<longrightarrow> cn_block_dev cn = None \<longrightarrow> alloc_guard env s"
    "\<not> makes_double c ue header s" "bius_dev_write api datamap z env ue copied header c n s = Some (ret, s')"
  shows "\<exists>es. call_run s es s' \<and> concat (map submissions es) = [] \<and> explains codes (Call_write c header doubled) es"
proof -
  have "\<forall>cn. ks_conns s c = Some cn \<longrightarrow> cn_block_dev cn = None \<longrightarrow> init_guard env ue header s"
    using assms(2,3) by (auto simp: init_guard_def makes_double_def)
  from bius_dev_write_refines [OF assms(1) this assms(4)] show ?thesis
  proof (elim conjE disjE exE bexE)
    assume *: "kinv s'" "kv_rqs (view_of s') = kv_rqs (view_of s)"
    show ?thesis if "life_of s' = life_of s"
      using * that call_run_idle [of s' s] by (intro exI [of _ "[]"]) simp
    show ?thesis if "life_step (life_of s) (Answer c p st) (life_of s')" "ks_rqs s p \<noteq> None"
      "st \<in> {word_of_int (u2k_reply header), ucast BLK_STS_IOERR}" for p st
      using call_run_event [OF * that(1)] that(2,3) by (intro exI [of _ "[Answer c p st]"]) auto
    show ?thesis if "life_step (life_of s) (Answer_zones c p) (life_of s')" "ks_rqs s p = None" for p
      using call_run_event [OF * that(1)] that(2) by (intro exI [of _ "[Answer_zones c p]"]) simp
  qed
qed

lemma call_run_quiet:
  assumes "kinv s" "\<exists>es. call_run s es s' \<and> concat (map submissions es) = [] \<and> explains codes k es" "submits codes k = []"
  shows "kinv s' \<and> balanced s (submits codes k) s' \<and> (\<exists>es. explains codes k es \<and> life_run (life_of s) es (life_of s'))"
proof -
  obtain es where es: "call_run s es s'" "concat (map submissions es) = []" "explains codes k es" using assms(2) by blast
  from call_run_balanced [OF assms(1) es(1)] have "balanced s [] s'"
    unfolding blk_submissions_def es(2) by simp
  with es(1,3) assms(3) show ?thesis by (auto simp: call_run_def)
qed

lemma call_idle:
  assumes "kinv s" "kinv s' \<and> kv_rqs (view_of s') = kv_rqs (view_of s) \<and> life_of s' = life_of s" "explains codes k []" "submits codes k = []"
  shows "kinv s' \<and> balanced s (submits codes k) s' \<and> (\<exists>es. explains codes k es \<and> life_run (life_of s) es (life_of s'))"
  by (rule call_run_quiet) (use assms call_run_idle [OF assms(2)] in \<open>auto intro: exI [of _ "[]"]\<close>)

text \<open>Every orderly step keeps the invariant and the account, and stands for events of the state machine.\<close>

lemma kstep_sound:
  assumes "kstep api datamap z codes s k s'" and inv: "kinv s" and codes: "zone_codes_agree codes" and ord: "orderly k"
  shows "kinv s' \<and> balanced s (submits codes k) s' \<and> (\<exists>es. explains codes k es \<and> life_run (life_of s) es (life_of s'))"
  using assms(1)
proof (cases rule: kstep.cases)
  case (k_queue p d q st s1)
  show ?thesis unfolding k_queue(1) by (rule queue_step [OF inv codes k_queue(2-7)])
next
  case (k_open c pages ret oc)
  then show ?thesis using bius_dev_open_refines [OF inv] by (intro call_idle [OF inv]) auto
next
  case (k_mmap pmp fp c vma ret)
  then show ?thesis using bius_dev_mmap_refines [OF inv] by (intro call_idle [OF inv]) auto
next
  case (k_read cti sig c n ret out)
  show ?thesis unfolding k_read(1) by (rule call_run_quiet [OF inv read_step [OF inv k_read(2)]]) simp
next
  case (k_write c env ue copied header n ret)
  then have "\<not> makes_double c ue header s" using ord by simp
  from write_step [OF inv k_write(2) this k_write(3)] show ?thesis
    unfolding k_write(1) by (rule call_run_quiet [OF inv]) simp
next
  case (k_release c ret)
  show ?thesis unfolding k_release(1) by (rule call_run_quiet [OF inv release_step [OF inv k_release(2)]]) simp
next
  case (k_zones_begin p d sector nr)
  from bius_report_zones_begin_refines [OF inv k_zones_begin(3,2,4,5,6)]
  have r: "kinv s'" "call_run s [Submit d p] s'" by (auto intro!: call_run_event)
  from call_run_balanced [OF inv r(2)] r k_zones_begin(1,5) show ?thesis
    by (auto simp: blk_submissions_def call_run_def)
next
  case (k_zones_end cb data killed p ret data')
  then show ?thesis using bius_report_zones_end_refines [OF inv, of cb data p ret data' s'] ord
    by (intro call_idle [OF inv]) auto
next
  case (k_memory m)
  then show ?thesis using inv kinv_view [of s s'] life_of_same [of s' s] by (intro call_idle [OF inv]) simp_all
qed

lemma kinv_init: "kinv (init_kstate m :: 'a kstate)"
proof -
  let ?v = "view_of (init_kstate m :: 'a kstate)"
  have pl: "place_list ?v pl = []" for pl
    by (cases pl) (simp_all add: place_list.simps init_kstate_def)
  then have "requests_inv ?v" by (simp add: requests_inv_def at_wf_def live_def flying_def)
  moreover have "conns_inv ?v" "devs_inv ?v"
    by (simp_all add: conns_inv_def devs_inv_def dom_def init_kstate_def)
  ultimately show ?thesis by (simp add: kinv_def view_inv_def)
qed

lemma krun_sound:
  assumes "krun api datamap z codes s calls s'" "kinv s" "zone_codes_agree codes" "\<forall>k \<in> set calls. orderly k"
  shows "kinv s' \<and> balanced s (concat (map (submits codes) calls)) s' \<and>
    (\<exists>ess. list_all2 (explains codes) calls ess \<and> life_run (life_of s) (concat ess) (life_of s'))"
  using assms(1,2,4)
proof (induction rule: krun.induct)
  case (krun_init s)
  then show ?case by (auto simp: balanced_def intro: exI [of _ "[]"] life_run_nil)
next
  case (krun_step s calls t k u)
  then have t: "kinv t" "balanced s (concat (map (submits codes) calls)) t" and ord: "orderly k" by auto
  obtain ess where ess: "list_all2 (explains codes) calls ess" "life_run (life_of s) (concat ess) (life_of t)"
    using krun_step by auto
  from kstep_sound [OF krun_step.hyps(2) t(1) assms(3) ord] obtain es where
    u: "kinv u" "balanced t (submits codes k) u" "explains codes k es" "life_run (life_of t) es (life_of u)" by blast
  have "list_all2 (explains codes) (calls @ [k]) (ess @ [es])" using ess(1) u(3) by (simp add: list_all2_appendI)
  moreover have "life_run (life_of s) (concat (ess @ [es])) (life_of u)" using life_run_append [OF u(4) ess(2)] by simp
  ultimately show ?case using u(1) balanced_trans [OF t(2) u(2)] by auto
qed

end
