(* ===== verification/Bius_Scenario.thy ===== *)
theory Bius_Scenario
  imports Bius_Kernel
begin

text \<open>
  A concrete instance of the kernel services the model takes as parameters: a bio is the list
  of the segments it still covers and pages are 4096 bytes apart. It satisfies what the model
  asks of the iterator, and it runs a small session in which a device is created, a request is
  queued, fetched and answered. The instance is used to evaluate the model and to show that the
  hypotheses of the theorems can hold.
\<close>

section \<open>Bios as segment lists\<close>

type_synonym seg_bio = "bio_vec list"

fun seg_advance :: "seg_bio \<Rightarrow> nat \<Rightarrow> seg_bio" where
  "seg_advance [] n = []"
| "seg_advance (v # vs) n =
     (if n < bv_len v then v\<lparr>bv_offset := bv_offset v + n, bv_len := bv_len v - n\<rparr> # vs
      else seg_advance vs (n - bv_len v))"

definition seg_iovec :: "seg_bio \<Rightarrow> bio_vec" where
  "seg_iovec b = (case dropWhile (\<lambda>v. bv_len v = 0) b of
     [] \<Rightarrow> \<lparr>bv_page = 0, bv_offset = 0, bv_len = 0\<rparr> | v # vs \<Rightarrow> v)"

definition seg_size :: "seg_bio \<Rightarrow> nat" where
  "seg_size b = sum_list (map bv_len b)"

definition seg_api :: "seg_bio bio_api" where
  "seg_api = \<lparr>mp_bio_iter_iovec = seg_iovec, bio_advance_iter = seg_advance, bi_size = seg_size,
     rq_segments = concat, page_address = (\<lambda>p. 4096 * p), page_to_pfn = (\<lambda>p. p)\<rparr>"

definition seg_addrs :: "seg_bio \<Rightarrow> nat list" where
  "seg_addrs b = concat (map (bvec_addrs seg_api) b)"

lemma seg_addrs_simps [simp]:
  "seg_addrs [] = []" "seg_addrs (v # vs) = bvec_addrs seg_api v @ seg_addrs vs"
  by (simp_all add: seg_addrs_def)

lemma seg_addrs_advance: "seg_addrs (seg_advance b n) = drop n (seg_addrs b)"
proof (induction b n rule: seg_advance.induct)
  case (2 v vs n)
  then show ?case
    by (auto simp: bvec_addrs_def drop_upt ac_simps)
qed simp

lemma length_seg_addrs: "length (seg_addrs b) = seg_size b"
  by (induction b) (simp_all add: seg_size_def)

lemma seg_iovec_first:
  "bv_len (seg_iovec b) \<le> seg_size b \<and> (0 < seg_size b \<longrightarrow> 0 < bv_len (seg_iovec b)) \<and>
   take (bv_len (seg_iovec b)) (seg_addrs b) = bvec_addrs seg_api (seg_iovec b)"
  by (induction b) (auto simp: seg_iovec_def seg_size_def bvec_addrs_def)

lemma seg_api_ok: "bio_api_ok seg_api seg_addrs"
proof -
  have "concat (map (bvec_addrs seg_api) (concat bs)) = chain_addrs seg_addrs bs" for bs
    by (induction bs) (simp_all add: seg_addrs_def)
  moreover have "mp_bio_iter_iovec seg_api = seg_iovec" "bio_advance_iter seg_api = seg_advance"
    "bi_size seg_api = seg_size" "rq_segments seg_api = concat"
    by (simp_all add: seg_api_def)
  ultimately show ?thesis
    using seg_iovec_first by (simp add: bio_api_ok_def seg_addrs_advance length_seg_addrs)
qed

section \<open>A session\<close>

text \<open>
  The user memory holds at address 100 the options of a 1 MiB disk named \<open>d\<close>; the other bytes
  count upwards. Every copy succeeds in full.
\<close>

definition demo_user :: user_env where
  "demo_user = \<lparr>ue_mem = (\<lambda>a. if a = 110 then 16 else if a = 124 then 100
                               else if 100 \<le> a \<and> a < 156 then 0 else of_nat a),
                ue_not_copied = (\<lambda>_ _. 0)\<rparr>"

definition demo_create :: create_env where
  "demo_create = \<lparr>ce_kmalloc = Some 10, ce_register_blkdev = 240, ce_alloc_disk = True,
                  ce_alloc_tag_set = 0, ce_init_queue = 0\<rparr>"

definition demo_init_header :: bius_u2k_header where
  "demo_init_header = \<lparr>u2k_id = 0, u2k_union = u2k_init_union 0 0, u2k_user_data = 100\<rparr>"

text \<open>A write or a read of 12 bytes that lie in two segments, at the second sector.\<close>

definition demo_rq :: "bool \<Rightarrow> seg_bio rq" where
  "demo_rq wr = \<lparr>rq_op = (if wr then 1 else 0), rq_sector = 1, rq_bytes = 12,
     rq_bio = [[\<lparr>bv_page = 5, bv_offset = 0, bv_len = 8\<rparr>], [\<lparr>bv_page = 7, bv_offset = 16, bv_len = 4\<rparr>]],
     rq_bio_sector = 0\<rparr>"

definition demo_answer :: bius_u2k_header where
  "demo_answer = \<lparr>u2k_id = 1, u2k_union = u2k_reply_union 0, u2k_user_data = 0\<rparr>"

definition demo_open :: "seg_bio kstate" where
  "demo_open = snd (snd (bius_dev_open False (Some 20) None (init_kstate of_nat)))"

definition demo_created :: "seg_bio kstate" where
  "demo_created = snd (the (bius_dev_write seg_api False 0 demo_create demo_user 24 demo_init_header 20 24 demo_open))"

definition demo_queued :: "bool \<Rightarrow> seg_bio kstate" where
  "demo_queued wr = snd (the (bius_queue_rq linux_codes 10 30 (put_rq 30 (demo_rq wr) demo_created)))"

fun returned_state :: "(int \<times> read_output \<times> 'bio kstate) call_result option \<Rightarrow> 'bio kstate option" where
  "returned_state (Some (Returned (ret, out, s))) = Some s"
| "returned_state _ = None"

definition demo_fetched :: "bool \<Rightarrow> seg_bio kstate" where
  "demo_fetched wr = the (returned_state (bius_dev_read seg_api False (\<lambda>_ n. n) False 20 4096 (demo_queued wr)))"

definition demo_answered :: "seg_bio kstate" where
  "demo_answered = snd (the (bius_dev_write seg_api False 0 demo_create demo_user 24 demo_answer 20 24 (demo_fetched True)))"

subsection \<open>The objects of the session\<close>

definition demo_conn :: bius_connection where
  "demo_conn = \<lparr>cn_block_dev = None, cn_waiting = [], cn_sending = None, cn_vma = None,
     cn_ptes = (\<lambda>_. None), cn_reserved_pages = 0, cn_reserved_pages_pfn = 0,
     cn_mapping_list = (\<lambda>_. 0), cn_reserve_list = (\<lambda>_. 0)\<rparr>"

definition demo_options :: bius_block_device_options where
  "demo_options = options_of_bytes (mem_read (ue_mem demo_user) 100 56)"

definition demo_device :: bius_block_device where
  "demo_device = new_block_device demo_options 240 10"

definition demo_req :: "bool \<Rightarrow> seg_bio bius_request" where
  "demo_req wr = \<lparr>req_id = 1, req_type = (if wr then BIUS_WRITE else BIUS_READ), req_pos = 512, req_length = 12,
     req_union = Blk_part \<lparr>req_bio = rq_bio (demo_rq wr), req_map_data = 0, req_mapped_size = 0,
                            req_map_type = BIUS_DATAMAP_UNMAPPED, req_blk_result = 0\<rparr>,
     on_request_end = Blk_request_end\<rparr>"

lemma demo_open_eq: "demo_open = put_conn 20 demo_conn (init_kstate of_nat)"
  by (simp add: demo_open_def bius_dev_open_def init_bius_connection_def demo_conn_def)

lemma demo_open_sel:
  "ks_conns demo_open = [20 \<mapsto> demo_conn]" "ks_all_disk_list demo_open = []" "ks_reqs demo_open = (\<lambda>_. None)"
  "ks_rqs demo_open = (\<lambda>_. None)" "ks_next_request_id demo_open = 0" "ks_ended demo_open = []"
  "ks_devs demo_open = (\<lambda>_. None)" "ks_mem demo_open = of_nat"
  by (simp_all add: demo_open_eq bius_sel init_kstate_def)

lemma demo_options_sel:
  "opt_model demo_options = BLK_ZONED_NONE" "opt_disk_size demo_options = 0x100000"
  "c_str DISK_NAME_LEN (opt_disk_name demo_options) = [100]"
  by (simp_all add: demo_options_def demo_user_def options_of_bytes_def MAX_DISK_NAME_LEN_def mem_read_def
      upt_rec_numeral bytes_at_def blk_zoned_model_of_code_def c_str_def DISK_NAME_LEN_def)

lemma demo_init:
  "init_device demo_create demo_user demo_init_header demo_open =
     Some (Inr (10, (put_dev 10 demo_device demo_open)\<lparr>ks_all_disk_list := [10]\<rparr>))"
proof -
  have "copy_from_user demo_user 100 56 = (0, mem_read (ue_mem demo_user) 100 56)"
    by (simp add: copy_from_user_def) (simp add: demo_user_def)
  then show ?thesis
    by (simp add: init_device_def demo_init_header_def demo_create_def u2k_type_def u2k_init_union_def
        create_block_device_def SIZEOF_OPTIONS_def Let_def demo_device_def demo_open_sel
        flip: demo_options_def)
      (simp add: demo_options_sel)
qed

lemma demo_create_run:
  "bius_dev_write seg_api False 0 demo_create demo_user 24 demo_init_header 20 24 demo_open =
     Some (24, put_conn 20 (demo_conn\<lparr>cn_block_dev := Some 10\<rparr>)
       (put_dev 10 (demo_device\<lparr>bd_num_connection := 1\<rparr>)
         ((put_dev 10 demo_device demo_open)\<lparr>ks_all_disk_list := [10]\<rparr>)))"
  by (simp add: bius_dev_write_def handle_initialization_def demo_init demo_open_sel bius_sel
      SIZEOF_U2K_HEADER_def) (simp add: demo_conn_def demo_device_def)

lemma demo_created_sel:
  "ks_conns demo_created = [20 \<mapsto> demo_conn\<lparr>cn_block_dev := Some 10\<rparr>]"
  "ks_all_disk_list demo_created = [10]" "ks_reqs demo_created = (\<lambda>_. None)"
  "ks_rqs demo_created = (\<lambda>_. None)" "ks_next_request_id demo_created = 0" "ks_ended demo_created = []"
  "ks_devs demo_created = [10 \<mapsto> demo_device\<lparr>bd_num_connection := 1\<rparr>]" "ks_mem demo_created = of_nat"
  by (simp_all add: demo_created_def demo_create_run demo_open_sel bius_sel)

lemma demo_queue_run:
  "bius_queue_rq linux_codes 10 30 (put_rq 30 (demo_rq wr) demo_created) =
     Some (0, put_dev 10 (demo_device\<lparr>bd_num_connection := 1, bd_pending := [30]\<rparr>)
       (put_req 30 (demo_req wr) ((put_rq 30 (demo_rq wr) demo_created)\<lparr>ks_next_request_id := 1\<rparr>)))"
  by (simp add: bius_queue_rq_def inc_request_id_def demo_created_sel bius_sel to_bius_request_def
      linux_codes_def demo_rq_def BIUS_INVALID_OP_other list_add_pending_def demo_device_def
      demo_req_def stale_blk_part_def BLK_STS_OK_def)

lemma demo_queued_sel:
  "ks_conns (demo_queued wr) = [20 \<mapsto> demo_conn\<lparr>cn_block_dev := Some 10\<rparr>]"
  "ks_all_disk_list (demo_queued wr) = [10]" "ks_reqs (demo_queued wr) = [30 \<mapsto> (demo_req wr)]"
  "ks_rqs (demo_queued wr) = [30 \<mapsto> (demo_rq wr)]" "ks_next_request_id (demo_queued wr) = 1" "ks_ended (demo_queued wr) = []"
  "ks_devs (demo_queued wr) = [10 \<mapsto> demo_device\<lparr>bd_num_connection := 1, bd_pending := [30]\<rparr>]"
  "ks_mem (demo_queued wr) = of_nat"
  by (simp_all add: demo_queued_def demo_queue_run demo_created_sel bius_sel)

text \<open>The header the user reads names the request, its opcode, position and length.\<close>

definition demo_header :: "bool \<Rightarrow> bius_k2u_header" where
  "demo_header wr = \<lparr>k2u_id = 1, k2u_opcode = (if wr then BIUS_WRITE else BIUS_READ), k2u_offset = 512, k2u_length = 12,
     k2u_data_address = 0, k2u_mapping_data = 0, k2u_data_map_type = BIUS_DATAMAP_UNMAPPED\<rparr>"

definition demo_sending_req :: "bool \<Rightarrow> seg_bio bius_request" where
  "demo_sending_req wr = set_blk_fields \<lparr>req_bio = rq_bio (demo_rq wr), req_map_data = (if wr then 12 else 0), req_mapped_size = 0,
     req_map_type = BIUS_DATAMAP_UNMAPPED, req_blk_result = 0\<rparr> (demo_req wr)"

lemmas demo_read_simps = bius_dev_read_def demo_queued_sel bius_sel demo_conn_def SIZEOF_K2U_HEADER_def
  dev_read_prepare_def dev_read_command_def demo_req_def request_may_have_data_def
  request_is_write_def blk_fields_def bius_send_command_def Let_def demo_sending_req_def
  set_blk_fields_def demo_header_def demo_device_def new_block_device_def init_bius_block_device_def

lemma demo_fetch_run:
  "bius_dev_read seg_api False (\<lambda>_ n. n) False 20 4096 (demo_queued wr) =
     Some (Returned (56, Header_output (demo_header wr), demo_fetched wr))"
  by (cases wr) (simp_all add: demo_fetched_def demo_read_simps)

lemma demo_fetched_sel:
  "ks_conns (demo_fetched wr) = [20 \<mapsto> demo_conn\<lparr>cn_block_dev := Some 10,
     cn_sending := (if wr then Some 30 else None), cn_waiting := [30]\<rparr>]"
  "ks_all_disk_list (demo_fetched wr) = [10]" "ks_reqs (demo_fetched wr) = [30 \<mapsto> demo_sending_req wr]"
  "ks_rqs (demo_fetched wr) = [30 \<mapsto> demo_rq wr]" "ks_next_request_id (demo_fetched wr) = 1"
  "ks_ended (demo_fetched wr) = []"
  "ks_devs (demo_fetched wr) = [10 \<mapsto> demo_device\<lparr>bd_num_connection := 1\<rparr>]" "ks_mem (demo_fetched wr) = of_nat"
  by (cases wr; simp add: demo_fetched_def demo_read_simps)+

lemma demo_answer_run:
  "bius_dev_write seg_api False 0 demo_create demo_user 24 demo_answer 20 24 (demo_fetched True) =
     Some (24, snd (the (bius_dev_write seg_api False 0 demo_create demo_user 24 demo_answer 20 24 (demo_fetched True))))"
  by (simp add: bius_dev_write_def demo_fetched_sel bius_sel demo_conn_def SIZEOF_U2K_HEADER_def demo_answer_def
      u2k_reply_def u2k_reply_union_def demo_sending_req_def demo_req_def set_blk_fields_def is_blk_request_def
      dev_write_blk_def dev_write_data_def dev_write_unmap_def end_blk_request_def blk_fields_def
      run_request_end_def bius_blk_request_end_def BLK_STS_OK_def)

lemma demo_answered_sel: "ks_ended demo_answered = [(30, 0)]" "ks_rqs demo_answered = [30 \<mapsto> (demo_rq True)]"
  "ks_conns demo_answered = [20 \<mapsto> demo_conn\<lparr>cn_block_dev := Some 10\<rparr>]"
  "ks_devs demo_answered = [10 \<mapsto> demo_device\<lparr>bd_num_connection := 1\<rparr>]" "ks_all_disk_list demo_answered = [10]"
  "ks_next_request_id demo_answered = 1"
  by (simp_all add: demo_answered_def bius_dev_write_def demo_fetched_sel bius_sel demo_conn_def SIZEOF_U2K_HEADER_def demo_answer_def
      u2k_reply_def u2k_reply_union_def demo_sending_req_def demo_req_def set_blk_fields_def is_blk_request_def
      dev_write_blk_def dev_write_data_def dev_write_unmap_def end_blk_request_def blk_fields_def
      run_request_end_def bius_blk_request_end_def BLK_STS_OK_def blk_mq_end_request_def)

lemma demo_live: "live (view_of demo_created) p = False"
proof -
  have "place_list (view_of demo_created) pl = []" for pl
    by (cases pl) (simp_all add: place_list.simps demo_created_sel conn_view_of_def demo_conn_def demo_device_def)
  then show ?thesis by (simp add: live_def flying_def)
qed

text \<open>The session is a run of the module that submits one block request.\<close>

definition demo_calls :: "kcall list" where
  "demo_calls = [Call_open 20, Call_write 20 demo_init_header False]"

definition demo_request :: "bool \<Rightarrow> kcall" where
  "demo_request wr = Call_queue 10 30 (rq_op (demo_rq wr))"

lemma demo_orderly [simp]: "\<forall>k \<in> set demo_calls. orderly k" "orderly (demo_request wr)"
  by (simp_all add: demo_calls_def demo_request_def)

lemma demo_krun_created: "krun seg_api False 0 linux_codes (init_kstate of_nat) demo_calls demo_created"
proof -
  let ?step = "kstep seg_api False 0 linux_codes" and ?run = "krun seg_api False 0 linux_codes (init_kstate of_nat)"
  have "?step (init_kstate of_nat) (Call_open 20) demo_open"
    by (rule k_open [of _ 20 _ None 0 "Some 20"])
      (simp_all add: init_kstate_def demo_open_def bius_dev_open_def)
  then have r1: "?run [Call_open 20] demo_open" using krun_step [OF krun_init] by fastforce
  have "?step demo_open (Call_write 20 demo_init_header (makes_double 20 demo_user demo_init_header demo_open)) demo_created"
    by (rule k_write [of _ 20 demo_create _ _ _ demo_user 24 demo_init_header 24 24])
      (simp_all add: alloc_guard_def demo_open_sel demo_created_def demo_create_run)
  then show ?thesis
    using krun_step [OF r1] by (simp add: demo_calls_def makes_double_def name_taken_def demo_open_sel)
qed

lemma demo_created_kinv: "kinv demo_created"
  using krun_sound [OF demo_krun_created kinv_init zone_codes_linux] by simp

lemma demo_krun_queued:
  "krun seg_api False 0 linux_codes (init_kstate of_nat) (demo_calls @ [demo_request wr]) (demo_queued wr)"
proof -
  have "kstep seg_api False 0 linux_codes demo_created (demo_request wr) (demo_queued wr)"
    unfolding demo_request_def
    by (rule k_queue [of _ 30 10 "demo_rq wr" _ 0])
      (use demo_queue_run in \<open>simp_all add: demo_live demo_created_sel demo_queued_def BLK_STS_OK_def\<close>,
       simp add: demo_rq_def linux_codes_def)
  then show ?thesis by (rule krun_step [OF demo_krun_created])
qed

lemma demo_krun_fetched:
  "krun seg_api False 0 linux_codes (init_kstate of_nat) ((demo_calls @ [demo_request wr]) @ [Call_read 20 True]) (demo_fetched wr)"
proof -
  have "kstep seg_api False 0 linux_codes (demo_queued wr) (Call_read 20 True) (demo_fetched wr)"
    using k_read [OF demo_fetch_run] by simp
  then show ?thesis by (rule krun_step [OF demo_krun_queued])
qed

definition demo_session :: "kcall list" where
  "demo_session = ((demo_calls @ [demo_request True]) @ [Call_read 20 True]) @ [Call_write 20 demo_answer False]"

lemma demo_session_orderly: "\<forall>k \<in> set demo_session. orderly k"
  using demo_orderly by (auto simp: demo_session_def)

lemma demo_krun: "krun seg_api False 0 linux_codes (init_kstate of_nat) demo_session demo_answered"
proof -
  have "kstep seg_api False 0 linux_codes (demo_fetched True)
      (Call_write 20 demo_answer (makes_double 20 demo_user demo_answer (demo_fetched True))) demo_answered"
    by (rule k_write [of _ 20 demo_create _ _ _ demo_user 24 demo_answer 24 24])
      (use demo_answer_run in \<open>simp_all add: demo_fetched_sel demo_answered_def\<close>)
  then have "kstep seg_api False 0 linux_codes (demo_fetched True) (Call_write 20 demo_answer False) demo_answered"
    by (simp add: makes_double_def demo_fetched_sel)
  then show ?thesis unfolding demo_session_def by (rule krun_step [OF demo_krun_fetched])
qed

lemma demo_kinv: "kinv (demo_queued wr)" "kinv (demo_fetched wr)"
  using krun_sound [OF demo_krun_queued kinv_init zone_codes_linux]
    krun_sound [OF demo_krun_fetched kinv_init zone_codes_linux] demo_orderly by auto

subsection \<open>A second request\<close>

text \<open>After the write, a read of the same range into one segment of another page is queued.\<close>

definition demo_rq2 :: "seg_bio rq" where
  "demo_rq2 = \<lparr>rq_op = 0, rq_sector = 1, rq_bytes = 12,
     rq_bio = [[\<lparr>bv_page = 9, bv_offset = 0, bv_len = 12\<rparr>]], rq_bio_sector = 0\<rparr>"

definition demo_req2 :: "seg_bio bius_request" where
  "demo_req2 = \<lparr>req_id = 2, req_type = BIUS_READ, req_pos = 512, req_length = 12,
     req_union = Blk_part \<lparr>req_bio = rq_bio demo_rq2, req_map_data = 0, req_mapped_size = 0,
                            req_map_type = BIUS_DATAMAP_UNMAPPED, req_blk_result = 0\<rparr>,
     on_request_end = Blk_request_end\<rparr>"

definition demo_two :: "seg_bio kstate" where
  "demo_two = snd (the (bius_queue_rq linux_codes 10 31 (put_rq 31 demo_rq2 (demo_queued True))))"

lemma demo_queue_two:
  "bius_queue_rq linux_codes 10 31 (put_rq 31 demo_rq2 (demo_queued True)) =
     Some (0, put_dev 10 (demo_device\<lparr>bd_num_connection := 1, bd_pending := [30, 31]\<rparr>)
       (put_req 31 demo_req2 ((put_rq 31 demo_rq2 (demo_queued True))\<lparr>ks_next_request_id := 2\<rparr>)))"
  by (simp add: bius_queue_rq_def inc_request_id_def demo_queued_sel bius_sel to_bius_request_def
      linux_codes_def demo_rq2_def BIUS_INVALID_OP_other list_add_pending_def demo_device_def
      demo_req2_def stale_blk_part_def BLK_STS_OK_def)

lemma demo_two_sel:
  "ks_conns demo_two = [20 \<mapsto> demo_conn\<lparr>cn_block_dev := Some 10\<rparr>]"
  "ks_reqs demo_two = [30 \<mapsto> demo_req True, 31 \<mapsto> demo_req2]"
  "ks_rqs demo_two = [30 \<mapsto> demo_rq True, 31 \<mapsto> demo_rq2]" "ks_ended demo_two = []"
  "ks_devs demo_two = [10 \<mapsto> demo_device\<lparr>bd_num_connection := 1, bd_pending := [30, 31]\<rparr>]"
  "ks_mem demo_two = of_nat"
  by (simp_all add: demo_two_def demo_queue_two demo_queued_sel bius_sel)

lemma demo_not_live: "\<not> live (view_of (demo_queued True)) 31"
proof -
  have "place_list (view_of (demo_queued True)) pl = (if pl = Pending 10 then [30] else [])" for pl
    by (cases pl) (auto simp: place_list.simps demo_queued_sel conn_view_of_def demo_conn_def)
  then show ?thesis by (auto simp: live_def flying_def)
qed

lemma demo_two_kinv: "kinv demo_two"
proof -
  have "kstep seg_api False 0 linux_codes (demo_queued True) (Call_queue 10 31 (rq_op demo_rq2)) demo_two"
  proof (rule k_queue [of _ 31 10 demo_rq2 _ 0])
    show "rq_op demo_rq2 = REQ_OP_ZONE_APPEND linux_codes \<longrightarrow> rq_bio demo_rq2 \<noteq> []"
      by (simp add: demo_rq2_def)
    show "bius_queue_rq linux_codes 10 31 (put_rq 31 demo_rq2 (demo_queued True)) = Some (0, demo_two)"
      unfolding demo_two_def demo_queue_two by simp
  qed (simp_all add: demo_not_live demo_queued_sel BLK_STS_OK_def)
  from kstep_sound [OF this demo_kinv(1) zone_codes_linux] show ?thesis by simp
qed

subsection \<open>A zone command\<close>

text \<open>One request of another kind: an append of one sector at the start of the disk, or a zone reset.\<close>

definition demo_zone_rq :: "u32 \<Rightarrow> seg_bio rq" where
  "demo_zone_rq opcode = \<lparr>rq_op = opcode, rq_sector = 0, rq_bytes = 512,
     rq_bio = [[\<lparr>bv_page = 5, bv_offset = 0, bv_len = 512\<rparr>]], rq_bio_sector = 0\<rparr>"

definition demo_zone_req :: "u32 \<Rightarrow> seg_bio bius_request" where
  "demo_zone_req opcode = \<lparr>req_id = 1, req_type = bius_req_of_code opcode, req_pos = 0, req_length = 512,
     req_union = Blk_part \<lparr>req_bio = rq_bio (demo_zone_rq opcode), req_map_data = 0, req_mapped_size = 0,
                            req_map_type = BIUS_DATAMAP_UNMAPPED, req_blk_result = 0\<rparr>,
     on_request_end = Blk_request_end\<rparr>"

definition demo_zone :: "u32 \<Rightarrow> seg_bio kstate" where
  "demo_zone opcode = snd (the (bius_queue_rq linux_codes 10 30 (put_rq 30 (demo_zone_rq opcode) demo_created)))"

lemma demo_zone_queue:
  "opcode \<in> {13, 15} \<Longrightarrow> bius_queue_rq linux_codes 10 30 (put_rq 30 (demo_zone_rq opcode) demo_created) =
     Some (0, put_dev 10 (demo_device\<lparr>bd_num_connection := 1, bd_pending := [30]\<rparr>)
       (put_req 30 (demo_zone_req opcode) ((put_rq 30 (demo_zone_rq opcode) demo_created)\<lparr>ks_next_request_id := 1\<rparr>)))"
  by (auto simp: bius_queue_rq_def inc_request_id_def demo_created_sel bius_sel to_bius_request_def
      linux_codes_def demo_zone_rq_def BIUS_INVALID_OP_other list_add_pending_def demo_device_def
      demo_zone_req_def stale_blk_part_def BLK_STS_OK_def)

lemma demo_zone_sel:
  assumes "opcode \<in> {13, 15}"
  shows "ks_conns (demo_zone opcode) = [20 \<mapsto> demo_conn\<lparr>cn_block_dev := Some 10\<rparr>]"
    "ks_reqs (demo_zone opcode) = [30 \<mapsto> demo_zone_req opcode]"
    "ks_rqs (demo_zone opcode) = [30 \<mapsto> demo_zone_rq opcode]" "ks_ended (demo_zone opcode) = []"
    "ks_devs (demo_zone opcode) = [10 \<mapsto> demo_device\<lparr>bd_num_connection := 1, bd_pending := [30]\<rparr>]"
    "ks_mem (demo_zone opcode) = of_nat"
  using demo_zone_queue [OF assms] by (simp_all add: demo_zone_def demo_created_sel bius_sel)

lemma demo_zone_kinv:
  assumes "opcode \<in> {13, 15}"
  shows "kinv (demo_zone opcode)"
proof -
  have "kstep seg_api False 0 linux_codes demo_created (Call_queue 10 30 (rq_op (demo_zone_rq opcode))) (demo_zone opcode)"
  proof (rule k_queue [of _ 30 10 "demo_zone_rq opcode" _ 0])
    show "bius_queue_rq linux_codes 10 30 (put_rq 30 (demo_zone_rq opcode) demo_created) = Some (0, demo_zone opcode)"
      using demo_zone_queue [OF assms] by (simp add: demo_zone_def)
  qed (simp_all add: demo_live demo_created_sel demo_zone_rq_def BLK_STS_OK_def)
  from kstep_sound [OF this demo_created_kinv zone_codes_linux] show ?thesis by simp
qed

end
