(* ===== verification/Bius_Kernel_Properties.thy ===== *)
theory Bius_Kernel_Properties
  imports Bius_Scenario
begin

text \<open>
  What the kernel module promises the block layer and the user process: the theorems on its
  runs, and for single calls that they return (no null pointer, no wrong part of a union) and
  with which effect.
\<close>

section \<open>Calls that are defined\<close>

text \<open>A request that can be answered with a block status.\<close>

definition answerable :: "kview \<Rightarrow> ptr \<Rightarrow> bool" where
  "answerable v p \<longleftrightarrow> (\<exists>r. kv_reqs v p = Some r \<and> request_ok v p r \<and> is_blk_request (rv_type r))"

lemma end_blk_request_total:
  assumes "answerable (view_of s) p"
  shows "\<exists>s'. end_blk_request p st s = Some s'"
proof -
  obtain r b q where r: "ks_reqs s p = Some r" "blk_fields r = Some b" "on_request_end r = Blk_request_end"
    "ks_rqs s p = Some q" "req_type r = BIUS_ZONE_APPEND \<longrightarrow> rq_bio q \<noteq> []"
    using assms
    by (auto simp: answerable_def request_ok_def req_view_of_def rq_view_of_def is_blk_request_def)
  then show ?thesis
    by (simp add: end_blk_request_def run_request_end_def bius_blk_request_end_def bius_sel)
qed

lemma end_waiting_total:
  "\<forall>p \<in> set ps. answerable (view_of s) p \<Longrightarrow> \<exists>s'. end_waiting ps s = Some s'"
proof (induction ps arbitrary: s)
  case (Cons p ps)
  then obtain s1 where s1: "end_blk_request p (ucast BLK_STS_IOERR) s = Some s1"
    using end_blk_request_total by fastforce
  then have "\<forall>p \<in> set ps. answerable (view_of s1) p"
    using Cons.prems end_blk_request_effect(1) [OF s1] by simp
  with Cons.IH s1 show ?case by simp
qed simp

lemma end_pending_total:
  "\<forall>p \<in> set ps. ks_rqs s p \<noteq> None \<Longrightarrow> \<exists>s'. end_pending ps s = Some s'"
  by (induction ps arbitrary: s) (auto simp: blk_mq_end_request_def)

lemma live_answerable:
  assumes "kinv s" "live (view_of s) p" "ks_rqs s p \<noteq> None"
  shows "answerable (view_of s) p"
proof -
  obtain r where "kv_reqs (view_of s) p = Some r" "request_ok (view_of s) p r"
    using requests_invD [of "view_of s" p] assms by (auto simp: kinv_def view_inv_def)
  with assms(3) show ?thesis by (auto simp: answerable_def request_ok_def split: if_splits)
qed

lemma conn_live: "ks_conns s c = Some cn \<Longrightarrow> p \<in> set (cn_waiting cn) \<Longrightarrow> live (view_of s) p"
  by (rule live_waiting [of _ c "conn_view_of cn"]) (simp_all add: conn_view_of_def)

lemma dev_live:
  "d \<in> set (ks_all_disk_list s) \<Longrightarrow> ks_devs s d = Some dev \<Longrightarrow> p \<in> set (bd_pending dev) \<Longrightarrow>
     live (view_of s) p"
  by (rule live_pending [of d _ dev]) simp_all

text \<open>In the waiting list of a connection the identifier of a request finds that request.\<close>

lemma waiting_lookup:
  assumes inv: "kinv s" and c: "ks_conns s c = Some cn" "p \<in> set (cn_waiting cn)" "ks_reqs s p = Some r"
  shows "get_request_by_id (ks_reqs s) (cn_waiting cn) (req_id r) = Some (Some p)"
proof (rule get_request_by_id_unique)
  let ?ps = "cn_waiting cn"
  have req: "\<exists>r. ks_reqs s q = Some r" if "q \<in> set ?ps" for q
    using kinv_waiting [OF inv c(1) that] by blast
  then show "\<forall>q \<in> set ?ps. ks_reqs s q \<noteq> None" by simp
  have wf: "at_wf (place_list (view_of s))" using inv view_inv_places by (auto simp: kinv_def)
  have "distinct ?ps"
    using at_wf_distinct [OF wf, of "Waiting c"] c(1) by (simp add: place_list.simps conn_view_of_def)
  moreover have "a = b" if ab: "a \<in> set ?ps" "b \<in> set ?ps"
      "map_option req_id (ks_reqs s a) = map_option req_id (ks_reqs s b)" for a b
  proof -
    obtain ra rb where "ks_reqs s a = Some ra" "ks_reqs s b = Some rb"
      using req [OF ab(1)] req [OF ab(2)] by blast
    moreover have "live (view_of s) a" "live (view_of s) b" using conn_live [OF c(1)] ab by auto
    ultimately show ?thesis
      using inv ab(3) by (auto simp: kinv_def view_inv_def requests_inv_def req_view_of_def)
  qed
  ultimately show "distinct (map (\<lambda>q. map_option req_id (ks_reqs s q)) ?ps)"
    by (simp add: distinct_map inj_on_def)
qed (use c in simp_all)

text \<open>
  The reply to a waiting request, up to the handling of its data: the request leaves the list.
\<close>

definition unlist_waiting :: "ptr \<Rightarrow> bius_connection \<Rightarrow> ptr \<Rightarrow> 'bio kstate \<Rightarrow> 'bio kstate" where
  "unlist_waiting c cn p s = put_conn c (cn\<lparr>cn_waiting := remove1 p (cn_waiting cn),
     cn_sending := (if cn_sending cn = Some p then None else cn_sending cn)\<rparr>) s"

lemma bius_dev_write_found:
  assumes inv: "kinv s" and c: "ks_conns s c = Some cn" "cn_block_dev cn \<noteq> None" "p \<in> set (cn_waiting cn)"
    and r: "ks_reqs s p = Some r" "is_blk_request (req_type r)" "u2k_id header = req_id r"
    and n: "SIZEOF_U2K_HEADER \<le> n" "0 < copied"
  shows "bius_dev_write api datamap z env ue copied header c n s =
    dev_write_blk api datamap z ue c p header (int copied) (unlist_waiting c cn p s)"
  using waiting_lookup [OF inv c(1,3) r(1)] assms
  by (auto simp: bius_dev_write_def bius_sel unlist_waiting_def)

lemma unlist_waiting_sel [simp]:
  "ks_reqs (unlist_waiting c cn p s) = ks_reqs s" "ks_rqs (unlist_waiting c cn p s) = ks_rqs s"
  "ks_next_request_id (unlist_waiting c cn p s) = ks_next_request_id s"
  "ks_mem (unlist_waiting c cn p s) = ks_mem s" "ks_ended (unlist_waiting c cn p s) = ks_ended s"
  "ks_conns (unlist_waiting c cn p s) c = Some (cn\<lparr>cn_waiting := remove1 p (cn_waiting cn),
     cn_sending := (if cn_sending cn = Some p then None else cn_sending cn)\<rparr>)"
  by (simp_all add: unlist_waiting_def bius_sel)

lemma answerable_unlist:
  assumes "kinv s" "ks_conns s c = Some cn" "p \<in> set (cn_waiting cn)" "ks_reqs s p = Some r"
    "is_blk_request (req_type r)"
  shows "answerable (view_of (unlist_waiting c cn p s)) p"
proof -
  have "request_ok (view_of s) p (req_view_of r)" using kinv_waiting [OF assms(1-3)] assms(4) by auto
  then have "request_ok (view_of (unlist_waiting c cn p s)) p (req_view_of r)"
    by (auto simp: request_ok_def split: if_splits)
  then show ?thesis using assms(4,5) by (simp add: answerable_def req_view_of_def)
qed

text \<open>What a block request's end leaves: the log, and for an append the sector written.\<close>

lemma end_blk_request_run:
  assumes "answerable (view_of s) p" "ks_reqs s p = Some r" "ks_rqs s p = Some q"
  shows "\<exists>s'. end_blk_request p st s = Some s' \<and> ks_ended s' = ks_ended s @ [(p, st)] \<and>
    ks_conns s' = ks_conns s \<and> ks_mem s' = ks_mem s \<and> ks_devs s' = ks_devs s \<and>
    (\<forall>x. x \<noteq> p \<longrightarrow> ks_reqs s' x = ks_reqs s x \<and> ks_rqs s' x = ks_rqs s x) \<and>
    ks_rqs s' p = Some (if req_type r = BIUS_ZONE_APPEND
       then q\<lparr>rq_bio_sector := word_of_int (c_div (sint (req_pos r)) (int SECTOR_SIZE))\<rparr> else q)"
proof -
  have "\<exists>b. blk_fields r = Some b" "on_request_end r = Blk_request_end"
    "req_type r = BIUS_ZONE_APPEND \<longrightarrow> rq_bio q \<noteq> []"
    using assms by (auto simp: answerable_def request_ok_def req_view_of_def rq_view_of_def is_blk_request_def)
  then show ?thesis
    using assms(2,3)
    by (auto simp: end_blk_request_def run_request_end_def bius_blk_request_end_def bius_sel
        blk_mq_end_request_def)
qed

lemma finish_reply:
  assumes "answerable (view_of s) p" "ks_reqs s p = Some r" "ks_rqs s p = Some q"
  shows "\<exists>s'. end_blk_request p st
      (if req_type r = BIUS_ZONE_APPEND then put_req p (r\<lparr>req_pos := pos\<rparr>) s else s) = Some s' \<and>
    ks_ended s' = ks_ended s @ [(p, st)] \<and> ks_conns s' = ks_conns s \<and> ks_mem s' = ks_mem s \<and>
    ks_devs s' = ks_devs s \<and> (\<forall>x. x \<noteq> p \<longrightarrow> ks_reqs s' x = ks_reqs s x \<and> ks_rqs s' x = ks_rqs s x) \<and>
    ks_rqs s' p = Some (if req_type r = BIUS_ZONE_APPEND
       then q\<lparr>rq_bio_sector := word_of_int (c_div (sint pos) (int SECTOR_SIZE))\<rparr> else q)"
proof (cases "req_type r = BIUS_ZONE_APPEND")
  case True
  let ?s = "put_req p (r\<lparr>req_pos := pos\<rparr>) s"
  have "answerable (view_of ?s) p"
    using assms by (simp add: view_put_req req_view_of_def blk_fields_def int_fields_def)
  from end_blk_request_run [OF this, of "r\<lparr>req_pos := pos\<rparr>" q st] assms(3) True show ?thesis
    by (auto simp: bius_sel)
next
  case False
  with end_blk_request_run [OF assms, of st] show ?thesis by auto
qed

text \<open>
  What the reply to a request of connection \<open>c\<close> leaves alone: the invariant holds on, the request is off
  the waiting list, the devices and all other requests are as they were.
\<close>

definition replied :: "ptr \<Rightarrow> bius_connection \<Rightarrow> ptr \<Rightarrow> kblk_status \<Rightarrow> 'bio kstate \<Rightarrow> 'bio kstate \<Rightarrow> bool" where
  "replied c cn p st s s' \<longleftrightarrow> kinv s' \<and> ks_ended s' = ks_ended s @ [(p, st)] \<and> ks_devs s' = ks_devs s \<and>
     ks_conns s' = ks_conns (unlist_waiting c cn p s) \<and>
     (\<forall>x. x \<noteq> p \<longrightarrow> ks_reqs s' x = ks_reqs s x \<and> ks_rqs s' x = ks_rqs s x)"

lemma unlist_waiting_devs [simp]: "ks_devs (unlist_waiting c cn p s) = ks_devs s"
  by (simp add: unlist_waiting_def bius_sel)

lemma reply_run:
  assumes "kinv s" "ks_conns s c = Some cn" "cn_block_dev cn \<noteq> None" "p \<in> set (cn_waiting cn)"
    and "ks_reqs s p = Some r" "is_blk_request (req_type r)" "u2k_id header = req_id r"
    and "u2k_reply header = 0 \<longrightarrow> req_type r \<noteq> BIUS_READ"
    and "SIZEOF_U2K_HEADER \<le> n" "0 < copied"
  shows "\<exists>s'. bius_dev_write api False z env ue copied header c n s = Some (int copied, s') \<and>
    replied c cn p (word_of_int (u2k_reply header)) s s' \<and> ks_mem s' = ks_mem s \<and>
    (req_type r = BIUS_ZONE_APPEND \<longrightarrow> map_option rq_bio_sector (ks_rqs s' p) =
       Some (word_of_int (c_div (sint (u2k_user_data header)) (int SECTOR_SIZE))))"
proof -
  let ?s = "unlist_waiting c cn p s"
  have ans: "answerable (view_of ?s) p" using answerable_unlist [OF assms(1,2,4,5,6)] .
  then obtain q where "ks_rqs ?s p = Some q"
    using assms(5,6) by (auto simp: answerable_def request_ok_def req_view_of_def)
  from finish_reply [OF ans _ this, of r "word_of_int (u2k_reply header)" "u2k_user_data header"] assms(5)
  obtain s' where s': "end_blk_request p (word_of_int (u2k_reply header))
      (if req_type r = BIUS_ZONE_APPEND then put_req p (r\<lparr>req_pos := u2k_user_data header\<rparr>) ?s else ?s) = Some s'"
    "ks_ended s' = ks_ended s @ [(p, word_of_int (u2k_reply header))]" "ks_conns s' = ks_conns ?s"
    "ks_mem s' = ks_mem s" "ks_devs s' = ks_devs s"
    "\<forall>x. x \<noteq> p \<longrightarrow> ks_reqs s' x = ks_reqs s x \<and> ks_rqs s' x = ks_rqs s x"
    "req_type r = BIUS_ZONE_APPEND \<longrightarrow> map_option rq_bio_sector (ks_rqs s' p) =
       Some (word_of_int (c_div (sint (u2k_user_data header)) (int SECTOR_SIZE)))" by auto
  have "dev_write_blk api False z ue c p header (int copied) ?s = Some (int copied, s')"
    using s'(1) assms(2,5,8)
    by (auto simp: dev_write_blk_def dev_write_data_def dev_write_unmap_def BLK_STS_OK_def)
  then have run: "bius_dev_write api False z env ue copied header c n s = Some (int copied, s')"
    using bius_dev_write_found [OF assms(1-7,9,10)] by simp
  have "kinv s'" using bius_dev_write_refines [OF assms(1) _ run] assms(2,3) by simp
  then show ?thesis using run s' by (auto simp: replied_def)
qed

lemma read_reply_run:
  assumes "kinv s" "ks_conns s c = Some cn" "cn_block_dev cn \<noteq> None" "p \<in> set (cn_waiting cn)"
    and "ks_reqs s p = Some r" "req_type r = BIUS_READ" "u2k_id header = req_id r"
    and "u2k_reply header = 0" "SIZEOF_U2K_HEADER \<le> n" "0 < copied"
    and "bio_api_ok api addrs" "\<forall>src n. ue_not_copied ue src n = 0"
    and "blk_fields r = Some b" "req_map_type b = BIUS_DATAMAP_UNMAPPED" "req_bio b \<noteq> []"
    and "ks_rqs s p = Some q" "distinct (chain_addrs addrs (rq_bio q))"
  shows "\<exists>s'. bius_dev_write api False z env ue copied header c n s = Some (int copied, s') \<and>
    replied c cn p 0 s s' \<and>
    map (ks_mem s') (chain_addrs addrs (rq_bio q)) =
      mem_read (ue_mem ue) (unat (u2k_user_data header)) (length (chain_addrs addrs (rq_bio q))) \<and>
    (\<forall>x. x \<notin> set (chain_addrs addrs (rq_bio q)) \<longrightarrow> ks_mem s' x = ks_mem s x)"
proof -
  let ?s = "unlist_waiting c cn p s"
  have blk: "is_blk_request (req_type r)" by (simp add: assms(6) is_blk_request_def)
  obtain m where m: "bius_receive_data api ue q r (unat (u2k_user_data header)) (ks_mem s) = Some (0, m)"
    "map m (chain_addrs addrs (rq_bio q)) =
       mem_read (ue_mem ue) (unat (u2k_user_data header)) (length (chain_addrs addrs (rq_bio q)))"
    "\<forall>x. x \<notin> set (chain_addrs addrs (rq_bio q)) \<longrightarrow> m x = ks_mem s x"
    using bius_receive_data_correct [OF assms(11-15,17)] by blast
  let ?s1 = "?s\<lparr>ks_mem := m\<rparr>"
  have "answerable (view_of ?s1) p" using answerable_unlist [OF assms(1,2,4,5) blk] by simp
  from finish_reply [OF this, of r q 0 "u2k_user_data header"] assms(5,6,16)
  obtain s' where s': "end_blk_request p 0 ?s1 = Some s'" "ks_ended s' = ks_ended s @ [(p, 0)]" "ks_mem s' = m"
    "ks_devs s' = ks_devs s" "ks_conns s' = ks_conns ?s"
    "\<forall>x. x \<noteq> p \<longrightarrow> ks_reqs s' x = ks_reqs s x \<and> ks_rqs s' x = ks_rqs s x"
    by auto
  have "dev_write_blk api False z ue c p header (int copied) ?s = Some (int copied, s')"
    using m(1) s'(1) assms(5,6,8,16) by (simp add: dev_write_blk_def dev_write_data_def dev_write_unmap_def BLK_STS_OK_def)
  then have run: "bius_dev_write api False z env ue copied header c n s = Some (int copied, s')"
    using bius_dev_write_found [OF assms(1-5) blk assms(7,9,10)] by simp
  have "kinv s'" using bius_dev_write_refines [OF assms(1) _ run] assms(2,3) by simp
  then show ?thesis using run s' m(2,3) by (simp add: replied_def)
qed

text \<open>Fetching the head of the pending list: the header, and the state after the call.\<close>

definition command_header :: "'bio bius_request \<Rightarrow> bius_k2u_header" where
  "command_header r = \<lparr>k2u_id = req_id r, k2u_opcode = req_type r, k2u_offset = req_pos r,
     k2u_length = of_nat (req_length r), k2u_data_address = 0, k2u_mapping_data = 0,
     k2u_data_map_type = BIUS_DATAMAP_UNMAPPED\<rparr>"

definition sends_data :: "'bio bius_request \<Rightarrow> bool" where
  "sends_data r \<longleftrightarrow> request_is_write (req_type r) \<and> 0 < req_length r"

definition fetched_request :: "'bio bius_request \<Rightarrow> 'bio bius_request" where
  "fetched_request r = (case blk_fields r of
     Some b \<Rightarrow> if sends_data r then set_blk_fields (b\<lparr>req_map_data := req_length r\<rparr>) r else r
   | None \<Rightarrow> r)"

lemma bius_dev_read_head:
  assumes "kinv s" "ks_conns s c = Some cn" "cn_block_dev cn = Some d" "cn_sending cn = None"
    and "ks_devs s d = Some dev" "bd_pending dev = p # rest" "ks_reqs s p = Some r"
    and "SIZEOF_K2U_HEADER \<le> n" "copy_to_iter 0 SIZEOF_K2U_HEADER = SIZEOF_K2U_HEADER"
  shows "\<exists>s'. bius_dev_read api False copy_to_iter sig c n s =
      Some (Returned (int SIZEOF_K2U_HEADER, Header_output (command_header r), s')) \<and> kinv s' \<and>
    ks_devs s' = (ks_devs s)(d \<mapsto> dev\<lparr>bd_pending := rest\<rparr>) \<and>
    ks_conns s' = (ks_conns s)(c \<mapsto> cn\<lparr>cn_sending := (if sends_data r then Some p else None),
      cn_waiting := cn_waiting cn @ [p]\<rparr>) \<and>
    ks_reqs s' = (ks_reqs s)(p \<mapsto> fetched_request r) \<and>
    ks_rqs s' = ks_rqs s \<and> ks_mem s' = ks_mem s \<and> ks_ended s' = ks_ended s"
proof -
  have "d \<in> set (ks_all_disk_list s)" using kinv_conn_dev [OF assms(1-3)] by blast
  then have "live (view_of s) p" using dev_live [of d s dev p] assms(5,6) by simp
  then have "rv_blk (req_view_of r) = is_blk_request (req_type r)"
    using assms(1,7) requests_invD [of "view_of s" p]
    by (auto simp: kinv_def view_inv_def request_ok_def req_view_of_def)
  then have blk: "\<exists>b. blk_fields r = Some b" if "request_is_write (req_type r)"
    using write_has_data [OF that] by (auto simp: req_view_of_def)
  have pos: "0 < int SIZEOF_K2U_HEADER" by (simp add: SIZEOF_K2U_HEADER_def)
  let ?s1 = "put_dev d (dev\<lparr>bd_pending := rest\<rparr>) s"
  let ?cn = "cn\<lparr>cn_sending := (if sends_data r then Some p else None)\<rparr>"
  let ?s2 = "if sends_data r then put_conn c ?cn (put_req p (fetched_request r) ?s1) else ?s1"
  have prep: "dev_read_prepare api False c p ?s1 = Some (0, ?s2)"
    using assms(2,7) blk write_has_data
    by (auto simp: dev_read_prepare_def bius_sel sends_data_def fetched_request_def)
  let ?s' = "put_conn c (?cn\<lparr>cn_waiting := cn_waiting cn @ [p]\<rparr>) ?s2"
  have same: "cn\<lparr>cn_sending := None\<rparr> = cn" using assms(4) by simp
  have fields: "req_id (fetched_request r) = req_id r" "req_type (fetched_request r) = req_type r"
    "req_pos (fetched_request r) = req_pos r" "req_length (fetched_request r) = req_length r"
    by (simp_all add: fetched_request_def set_blk_fields_def split: option.split)
  have cmd: "dev_read_command False copy_to_iter c p ?s2 =
      Some (int SIZEOF_K2U_HEADER, Header_output (command_header r), ?s')"
    using assms(2,7,9) pos fields same
    by (simp add: dev_read_command_def bius_send_command_def bius_sel command_header_def)
  have run: "bius_dev_read api False copy_to_iter sig c n s =
      Some (Returned (int SIZEOF_K2U_HEADER, Header_output (command_header r), ?s'))"
    using assms prep cmd by (simp add: bius_dev_read_def)
  have "kinv ?s'" using bius_dev_read_refines [OF assms(1) run] by simp
  moreover have "fetched_request r = r" if "\<not> sends_data r"
    using that by (simp add: fetched_request_def split: option.split)
  then have "ks_reqs ?s' = (ks_reqs s)(p \<mapsto> fetched_request r)"
    using assms(7) by (auto simp: bius_sel)
  ultimately show ?thesis using run by (auto simp: bius_sel)
qed

section \<open>Properties of the module's runs\<close>

lemma life_of_init: "life_of (init_kstate m) = init_life"
proof -
  have "place_list (view_of (init_kstate m :: 'a kstate)) pl = []" for pl
    by (cases pl) (simp_all add: place_list.simps init_kstate_def)
  then have "place_list (view_of (init_kstate m :: 'a kstate)) = (\<lambda>_. [])" by blast
  then show ?thesis by (simp add: life_of_def init_life_def) (simp add: init_kstate_def)
qed

text \<open>How often a request was queued, and how often with an operation the module does not know.\<close>

definition times_queued :: "kcall list \<Rightarrow> ptr \<Rightarrow> nat" where
  "times_queued calls p = length (filter (\<lambda>k. case k of Call_queue d q op \<Rightarrow> q = p | _ \<Rightarrow> False) calls)"

definition times_refused :: "req_op_codes \<Rightarrow> kcall list \<Rightarrow> ptr \<Rightarrow> nat" where
  "times_refused codes calls p = length (filter (\<lambda>k. case k of
     Call_queue d q op \<Rightarrow> q = p \<and> to_bius_request codes op = BIUS_INVALID_OP | _ \<Rightarrow> False) calls)"

lemma count_submits: "count_list (concat (map (submits codes) calls)) p = times_queued calls p + times_refused codes calls p"
  by (induction calls) (auto simp: times_queued_def times_refused_def split: kcall.splits)

text \<open>
  C1. Every block request of a known operation is answered exactly once, and one of an unknown operation
  twice. The calls may be interleaved in any way: queueing requests, opening, mapping, reading, writing
  and closing connections, zone reports. As long as each call returns, no disk is created under the name
  of an existing one and no zone report is killed while it waits, the answers to a request and the
  flight it may be on are as many as its submissions; a request refused for its operation counts once
  more, since it is ended by the module and again by the block layer for the status returned.
\<close>

theorem requests_answered:
  assumes "krun api datamap zero_pfn codes (init_kstate m) calls s" "zone_codes_agree codes"
    and "\<forall>k \<in> set calls. orderly k"
  shows "count_list (map fst (ks_ended s)) p + of_bool (blk_in_flight s p) = times_queued calls p + times_refused codes calls p"
proof -
  have "\<not> blk_in_flight (init_kstate m :: 'a kstate) p" "answer_count (init_kstate m :: 'a kstate) p = 0"
    by (simp_all add: blk_in_flight_def answer_count_def init_kstate_def)
  moreover have "balanced (init_kstate m) (concat (map (submits codes) calls)) s"
    using krun_sound [OF assms(1) kinv_init assms(2,3)] by simp
  then have "count_list (concat (map (submits codes) calls)) p + of_bool (blk_in_flight (init_kstate m :: 'a kstate) p) +
      answer_count (init_kstate m :: 'a kstate) p = of_bool (blk_in_flight s p) + answer_count s p"
    by (simp only: balanced_def)
  ultimately show ?thesis by (simp add: answer_count_def count_submits)
qed

text \<open>One request of each kind: a write that is answered, and one of operation 7, which is refused.\<close>

definition demo_refused :: "seg_bio kstate" where
  "demo_refused = blk_mq_end_request 31 1 (snd (the (bius_queue_rq linux_codes 10 31
     (put_rq 31 ((demo_rq True)\<lparr>rq_op := 7\<rparr>) demo_answered))))"

lemma demo_krun_refused:
  "krun seg_api False 0 linux_codes (init_kstate of_nat) (demo_session @ [Call_queue 10 31 7]) demo_refused"
proof -
  have "kstep seg_api False 0 linux_codes demo_answered (Call_queue 10 31 (rq_op ((demo_rq True)\<lparr>rq_op := 7\<rparr>))) demo_refused"
  proof (rule k_queue [of _ 31 10 _ _ 1])
    show "\<not> live (view_of demo_answered) 31"
    proof -
      have "place_list (view_of demo_answered) pl = []" for pl
        by (cases pl) (auto simp: place_list.simps demo_answered_sel conn_view_of_def demo_conn_def demo_device_def)
      then show ?thesis by (simp add: live_def flying_def)
    qed
    show "bius_queue_rq linux_codes 10 31 (put_rq 31 ((demo_rq True)\<lparr>rq_op := 7\<rparr>) demo_answered) =
        Some (1, snd (the (bius_queue_rq linux_codes 10 31 (put_rq 31 ((demo_rq True)\<lparr>rq_op := 7\<rparr>) demo_answered))))"
      by (simp add: bius_queue_rq_def inc_request_id_def bius_sel to_bius_request_def linux_codes_def BLK_STS_NOTSUPP_def)
  qed (simp_all add: demo_answered_sel linux_codes_def demo_refused_def BLK_STS_OK_def)
  then show ?thesis using krun_step [OF demo_krun] by simp
qed

theorem requests_answered_witness:
  "krun seg_api False 0 linux_codes (init_kstate of_nat) (demo_session @ [Call_queue 10 31 7]) demo_refused \<and>
   (\<forall>p. count_list (map fst (ks_ended demo_refused)) p + of_bool (blk_in_flight demo_refused p) =
      (if p = 30 then 1 else if p = 31 then 2 else 0))"
proof -
  have "times_queued (demo_session @ [Call_queue 10 31 7]) p + times_refused linux_codes (demo_session @ [Call_queue 10 31 7]) p =
      (if p = 30 then 1 else if p = 31 then 2 else 0)" for p
    by (simp add: times_queued_def times_refused_def demo_session_def demo_calls_def demo_request_def to_bius_request_def
        linux_codes_def demo_rq_def BIUS_INVALID_OP_other)
  moreover have "\<forall>k \<in> set (demo_session @ [Call_queue 10 31 7]). orderly k" using demo_session_orderly by auto
  ultimately show ?thesis
    using requests_answered [OF demo_krun_refused zone_codes_linux] demo_krun_refused by simp
qed

text \<open>
  C2. The module's invariant holds after any calls of which each returns, none creates a disk under the
  name of an existing one and none is a zone report killed while it waits (either would break it): each
  request is on one list, once; the requests on the lists exist, are of the kind their handler expects
  and have different identifiers that were already issued; a request whose data is being sent is a
  waiting write of that connection; a connection's device is registered, the names of the registered
  devices differ and each device counts its connections.
\<close>

theorem kernel_invariant:
  assumes "krun api datamap zero_pfn codes (init_kstate m) calls s" "zone_codes_agree codes"
    and "\<forall>k \<in> set calls. orderly k"
  shows "kinv s"
  using krun_sound [OF assms(1) kinv_init assms(2,3)] by simp

theorem kernel_invariant_witness: "kinv demo_answered"
  by (rule kernel_invariant [OF demo_krun zone_codes_linux demo_session_orderly])

text \<open>
  C3. The module refines the life of requests, call by call. Under the same conditions every call of a run
  stands for events of the abstract state machine that \<open>explains\<close> admits for this call (a submission only
  for a request queued or a report begun, an answer only for a reply of the connection that took the
  request and with the reply's status, and so on), and the events of all calls, in order, lead the
  state machine from its initial state to the lists and the log of answers of the module.
\<close>

theorem kernel_refines_lifecycle:
  assumes "krun api datamap zero_pfn codes (init_kstate m) calls s" "zone_codes_agree codes"
    and "\<forall>k \<in> set calls. orderly k"
  shows "\<exists>ess. list_all2 (explains codes) calls ess \<and> life_run init_life (concat ess) (life_of s)"
  using krun_sound [OF assms(1) kinv_init assms(2,3)] by (simp add: life_of_init)

theorem kernel_refines_lifecycle_witness:
  "\<exists>ess. list_all2 (explains linux_codes) demo_session ess \<and> life_run init_life (concat ess) (life_of demo_answered)"
  by (rule kernel_refines_lifecycle [OF demo_krun zone_codes_linux demo_session_orderly])

section \<open>Properties of single calls\<close>

text \<open>
  C8. A reply reaches the request it names. When a connected process writes a reply with the
  identifier of a request waiting at its connection, the call returns, exactly that request is
  answered, with the reply as its status (its low byte), and it leaves the waiting list; for a
  zone append the bio is told the sector that was written. Replies with the data of a read are
  the subject of the next theorem.
\<close>

theorem reply_answers_its_request:
  assumes "kinv s" "ks_conns s c = Some cn" "cn_block_dev cn \<noteq> None" "p \<in> set (cn_waiting cn)"
    and "ks_reqs s p = Some r" "is_blk_request (req_type r)" "u2k_id header = req_id r"
    and "u2k_reply header = 0 \<longrightarrow> req_type r \<noteq> BIUS_READ"
    and "SIZEOF_U2K_HEADER \<le> n" "0 < copied"
  shows "\<exists>s' cn'. bius_dev_write api False z env ue copied header c n s = Some (int copied, s') \<and>
    ks_ended s' = ks_ended s @ [(p, word_of_int (u2k_reply header))] \<and>
    ks_conns s' c = Some cn' \<and> cn_waiting cn' = remove1 p (cn_waiting cn) \<and>
    (req_type r = BIUS_ZONE_APPEND \<longrightarrow> map_option rq_bio_sector (ks_rqs s' p) =
       Some (word_of_int (c_div (sint (u2k_user_data header)) (int SECTOR_SIZE))))"
  using reply_run [OF assms, of api z env ue] by (auto simp: replied_def)

lemma demo_reply_facts:
  "ks_conns (demo_fetched wr) 20 = Some (demo_conn\<lparr>cn_block_dev := Some 10,
     cn_sending := (if wr then Some 30 else None), cn_waiting := [30]\<rparr>)"
  "ks_reqs (demo_fetched wr) 30 = Some (demo_sending_req wr)" "ks_rqs (demo_fetched wr) 30 = Some (demo_rq wr)"
  "req_type (demo_sending_req wr) = (if wr then BIUS_WRITE else BIUS_READ)" "req_id (demo_sending_req wr) = 1"
  "u2k_id demo_answer = 1" "u2k_reply demo_answer = 0" "u2k_user_data demo_answer = 0"
  by (simp_all add: demo_fetched_sel demo_sending_req_def demo_req_def demo_answer_def u2k_reply_def
      u2k_reply_union_def)

theorem reply_answers_its_request_witness:
  "kinv (demo_fetched True) \<and> (\<exists>s' cn'. bius_dev_write seg_api False 0 demo_create demo_user 24 demo_answer 20 24
      (demo_fetched True) = Some (24, s') \<and> ks_ended s' = [(30, 0)] \<and>
      ks_conns s' 20 = Some cn' \<and> cn_waiting cn' = [])"
  using reply_answers_its_request [OF demo_kinv(2) demo_reply_facts(1), of True 30 "demo_sending_req True"
      demo_answer 24 24 seg_api 0 demo_create demo_user] demo_kinv(2) [of True]
  by (simp add: demo_reply_facts is_blk_request_def SIZEOF_U2K_HEADER_def demo_fetched_sel)

text \<open>
  C9. The data of a read arrives. When the process answers a read with success, the bytes of the
  process's buffer become the contents of the request's segments, in order, no other kernel
  memory changes, and the request is answered with success.
\<close>

theorem read_reply_delivers_data:
  assumes "kinv s" "ks_conns s c = Some cn" "cn_block_dev cn \<noteq> None" "p \<in> set (cn_waiting cn)"
    and "ks_reqs s p = Some r" "req_type r = BIUS_READ" "u2k_id header = req_id r"
    and "u2k_reply header = 0" "SIZEOF_U2K_HEADER \<le> n" "0 < copied"
    and "bio_api_ok api addrs" "\<forall>src n. ue_not_copied ue src n = 0"
    and "blk_fields r = Some b" "req_map_type b = BIUS_DATAMAP_UNMAPPED" "req_bio b \<noteq> []"
    and "ks_rqs s p = Some q" "distinct (chain_addrs addrs (rq_bio q))"
  shows "\<exists>s'. bius_dev_write api False z env ue copied header c n s = Some (int copied, s') \<and>
    ks_ended s' = ks_ended s @ [(p, 0)] \<and>
    map (ks_mem s') (chain_addrs addrs (rq_bio q)) =
      mem_read (ue_mem ue) (unat (u2k_user_data header)) (length (chain_addrs addrs (rq_bio q))) \<and>
    (\<forall>x. x \<notin> set (chain_addrs addrs (rq_bio q)) \<longrightarrow> ks_mem s' x = ks_mem s x)"
  using read_reply_run [OF assms, of z env] by (auto simp: replied_def)

lemma demo_segments:
  "chain_addrs seg_addrs (rq_bio (demo_rq wr)) = [20480 ..< 20488] @ [28688 ..< 28692]"
  by (simp add: demo_rq_def bvec_addrs_def seg_api_def)

theorem read_reply_delivers_data_witness:
  "kinv (demo_fetched False) \<and> (\<exists>s'. bius_dev_write seg_api False 0 demo_create demo_user 24 demo_answer 20 24
      (demo_fetched False) = Some (24, s') \<and> ks_ended s' = [(30, 0)] \<and>
      map (ks_mem s') ([20480 ..< 20488] @ [28688 ..< 28692]) = [0, 1, 2, 3, 4, 5, 6, 7, 8, 9, 10, 11])"
proof -
  have mem: "mem_read (ue_mem demo_user) 0 (Suc (Suc (Suc (Suc (Suc (Suc (Suc (Suc (Suc (Suc (Suc (Suc 0)))))))))))) =
      [0, 1, 2, 3, 4, 5, 6, 7, 8, 9, 10, 11]"
    by (simp add: mem_read_def demo_user_def)
  have blk: "blk_fields (demo_sending_req False) = Some \<lparr>req_bio = rq_bio (demo_rq False), req_map_data = 0,
      req_mapped_size = 0, req_map_type = BIUS_DATAMAP_UNMAPPED, req_blk_result = 0\<rparr>"
    by (simp add: demo_sending_req_def)
  have "rq_bio (demo_rq False) \<noteq> []" "\<forall>src n. ue_not_copied demo_user src n = 0"
    by (simp_all add: demo_rq_def demo_user_def)
  moreover have "distinct (chain_addrs seg_addrs (rq_bio (demo_rq False)))"
    unfolding demo_segments by simp
  ultimately show ?thesis
    using read_reply_delivers_data [OF demo_kinv(2) demo_reply_facts(1), of False 30 "demo_sending_req False"
      demo_answer 24 24 seg_api seg_addrs demo_user _ "demo_rq False" 0 demo_create, OF _ _ _ _ _ _ _ _ seg_api_ok _ blk]
      demo_kinv(2) [of False]
    by (auto simp: demo_reply_facts SIZEOF_U2K_HEADER_def demo_fetched_sel demo_segments
        mem)
qed

text \<open>
  C12. A reply that names no request waiting at the writer's connection is refused and changes
  nothing: a process cannot answer a request that was handed to another connection, or answer
  one twice.
\<close>

theorem stray_reply_refused:
  assumes "kinv s" "ks_conns s c = Some cn" "cn_block_dev cn \<noteq> None" "SIZEOF_U2K_HEADER \<le> n" "0 < copied"
    and "\<forall>p \<in> set (cn_waiting cn). map_option req_id (ks_reqs s p) \<noteq> Some (u2k_id header)"
  shows "bius_dev_write api datamap z env ue copied header c n s = Some (- EINVAL, s)"
proof -
  have "\<forall>p \<in> set (cn_waiting cn). ks_reqs s p \<noteq> None"
    using kinv_waiting [OF assms(1,2)] by blast
  then obtain f where f: "get_request_by_id (ks_reqs s) (cn_waiting cn) (u2k_id header) = Some f"
    using get_request_by_id_defined by blast
  moreover have "f = None"
    using get_request_by_id_in_list [of "ks_reqs s" "cn_waiting cn" "u2k_id header"] f assms(6)
    by (cases f) auto
  ultimately show ?thesis using assms(2-5) by (auto simp: bius_dev_write_def)
qed

theorem stray_reply_refused_witness:
  "kinv (demo_fetched True) \<and>
   bius_dev_write seg_api False 0 demo_create demo_user 24 (demo_answer\<lparr>u2k_id := 9\<rparr>) 20 24 (demo_fetched True) =
     Some (- EINVAL, demo_fetched True)"
  using stray_reply_refused [OF demo_kinv(2) [of True] demo_reply_facts(1) [of True],
      where n = 24 and copied = 24 and header = "demo_answer\<lparr>u2k_id := 9\<rparr>"]
    demo_kinv(2) [of True]
  by (simp add: demo_reply_facts SIZEOF_U2K_HEADER_def)

text \<open>
  C13. Requests are handed out in the order in which they were queued. A read on a connection that
  is not in the middle of a transfer takes the head of the device's pending list, returns the
  header that describes it (identifier, opcode, position, length), and moves it to the end of
  the connection's waiting list; a write with data becomes the request whose bytes the next reads
  return.
\<close>

theorem read_fetches_oldest_request:
  assumes "kinv s" "ks_conns s c = Some cn" "cn_block_dev cn = Some d" "cn_sending cn = None"
    and "ks_devs s d = Some dev" "bd_pending dev = p # rest" "ks_reqs s p = Some r"
    and "SIZEOF_K2U_HEADER \<le> n" "copy_to_iter 0 SIZEOF_K2U_HEADER = SIZEOF_K2U_HEADER"
  shows "\<exists>s' cn' dev'. bius_dev_read api False copy_to_iter sig c n s =
      Some (Returned (int SIZEOF_K2U_HEADER, Header_output
        \<lparr>k2u_id = req_id r, k2u_opcode = req_type r, k2u_offset = req_pos r,
         k2u_length = of_nat (req_length r), k2u_data_address = 0, k2u_mapping_data = 0,
         k2u_data_map_type = BIUS_DATAMAP_UNMAPPED\<rparr>, s')) \<and>
    ks_devs s' d = Some dev' \<and> bd_pending dev' = rest \<and>
    ks_conns s' c = Some cn' \<and> cn_waiting cn' = cn_waiting cn @ [p] \<and>
    cn_sending cn' = (if request_is_write (req_type r) \<and> 0 < req_length r then Some p else None) \<and>
    ks_ended s' = ks_ended s"
  using bius_dev_read_head [where copy_to_iter = copy_to_iter and sig = sig and api = api, OF assms]
  by (auto simp: command_header_def sends_data_def)

theorem read_fetches_oldest_request_witness:
  "kinv (demo_queued True) \<and> (\<exists>s' cn' dev'. bius_dev_read seg_api False (\<lambda>_ n. n) False 20 4096 (demo_queued True) =
      Some (Returned (56, Header_output (demo_header True), s')) \<and>
    ks_devs s' 10 = Some dev' \<and> bd_pending dev' = [] \<and>
    ks_conns s' 20 = Some cn' \<and> cn_waiting cn' = [30] \<and> cn_sending cn' = Some 30 \<and> ks_ended s' = [])"
  using read_fetches_oldest_request [OF demo_kinv(1) [of True], of 20 "demo_conn\<lparr>cn_block_dev := Some 10\<rparr>" 10
      "demo_device\<lparr>bd_num_connection := 1, bd_pending := [30]\<rparr>" 30 "[]" "demo_req True" 4096 "\<lambda>_ n. n" seg_api False]
    demo_kinv(1) [of True]
  by (simp add: demo_queued_sel demo_conn_def SIZEOF_K2U_HEADER_def demo_req_def demo_header_def request_is_write_def)

end
