(* ===== verification/Bius_Kernel_Claims.thy ===== *)
theory Bius_Kernel_Claims
  imports Bius_Kernel_Properties
begin

text \<open>
  Further theorems on single entry points of the module: closing a connection, zone reports, creating a
  device, and where the entry points leave what the code means to do.
\<close>

section \<open>Closing a connection\<close>

text \<open>The requests that stay behind on the device's pending list when its last connection is closed.\<close>

definition left_behind :: "bius_connection \<Rightarrow> 'bio kstate \<Rightarrow> ptr list" where
  "left_behind cn s = (case cn_block_dev cn of
     None \<Rightarrow> []
   | Some d \<Rightarrow> (case ks_devs s d of
        None \<Rightarrow> []
      | Some dev \<Rightarrow> if bd_num_connection dev = 1 then bd_pending dev else []))"

lemma remove_block_device_run:
  assumes inv: "kinv s" and dev: "d \<in> set (ks_all_disk_list s)" "ks_devs s d = Some dev"
    and t: "ks_devs t = (ks_devs s)(d \<mapsto> dev\<lparr>bd_num_connection := n\<rparr>)" "ks_all_disk_list t = ks_all_disk_list s"
    and live: "\<forall>p \<in> set (bd_pending dev). ks_rqs t p \<noteq> None"
  shows "\<exists>calls t'. remove_block_device (bd_disk_name dev) t = Some (calls, t') \<and> ks_conns t' = ks_conns t \<and>
    ks_ended t' = ks_ended t @ map (\<lambda>p. (p, ucast BLK_STS_IOERR)) (bd_pending dev)"
proof -
  note key = get_block_device_kept [OF inv dev t]
  let ?t = "t\<lparr>ks_all_disk_list := remove1 d (ks_all_disk_list t)\<rparr>"
  obtain t' where t': "end_pending (bd_pending dev) ?t = Some t'"
    using end_pending_total [of "bd_pending dev" ?t] live by auto
  show ?thesis
    using key t' end_pending_effect [OF t'] t(1) by (simp add: remove_block_device_def)
qed

lemma bius_dev_release_run:
  assumes inv: "kinv s" and cn: "ks_conns s c = Some cn"
    and live: "\<forall>p \<in> set (cn_waiting cn @ left_behind cn s). ks_rqs s p \<noteq> None"
  shows "\<exists>s'. bius_dev_release c s = Some (0, s') \<and>
    ks_ended s' = ks_ended s @ map (\<lambda>p. (p, ucast BLK_STS_IOERR)) (cn_waiting cn @ left_behind cn s)"
proof -
  have "\<forall>p \<in> set (cn_waiting cn). answerable (view_of s) p"
    using live_answerable [OF inv conn_live [OF cn]] live by simp
  then obtain s1 where s1: "end_waiting (cn_waiting cn) s = Some s1" using end_waiting_total by blast
  note eff = end_waiting_effect [OF s1]
  have same: "ks_devs s1 = ks_devs s" "ks_all_disk_list s1 = ks_all_disk_list s"
    using arg_cong [OF conjunct1 [OF eff], of kv_devs] arg_cong [OF conjunct1 [OF eff], of kv_list] by simp_all
  show ?thesis
  proof (cases "cn_block_dev cn")
    case None
    then show ?thesis using cn s1 eff by (simp add: bius_dev_release_def left_behind_def)
  next
    case (Some d)
    obtain dev where dev: "d \<in> set (ks_all_disk_list s)" "ks_devs s d = Some dev"
      using kinv_conn_dev [OF inv cn Some] by blast
    let ?s2 = "put_dev d (dev\<lparr>bd_num_connection := bd_num_connection dev - 1\<rparr>) s1"
    show ?thesis
    proof (cases "bd_num_connection dev = 1")
      case False
      then show ?thesis
        using cn s1 Some dev same eff by (simp add: bius_dev_release_def left_behind_def Let_def bius_sel)
    next
      case True
      have "\<forall>p \<in> set (bd_pending dev). ks_rqs ?s2 p \<noteq> None"
        using live view_rqs_None [of s1 s] eff Some dev True by (simp add: left_behind_def bius_sel)
      from remove_block_device_run [OF inv dev _ _ this, of "bd_num_connection dev - 1"] same
      obtain calls s3 where "remove_block_device (bd_disk_name dev) ?s2 = Some (calls, s3)"
        "ks_ended s3 = ks_ended s1 @ map (\<lambda>p. (p, ucast BLK_STS_IOERR)) (bd_pending dev)"
        by (auto simp: bius_sel)
      then show ?thesis
        using cn s1 Some dev same eff True by (simp add: bius_dev_release_def left_behind_def Let_def)
    qed
  qed
qed

text \<open>
  C10. No request is lost when a process goes away. Closing a connection returns and answers with an I/O
  error every request that was handed to it, in order, and, when it was the last connection of its
  device, every request that was still pending there; the connection is gone and the invariant holds.
  (Zone reports among them are the subject of the next theorem.)
\<close>

theorem release_answers_everything:
  assumes "kinv s" "ks_conns s c = Some cn"
    and "\<forall>p \<in> set (cn_waiting cn @ left_behind cn s). ks_rqs s p \<noteq> None"
  shows "\<exists>s'. bius_dev_release c s = Some (0, s') \<and> kinv s' \<and> ks_conns s' c = None \<and>
    ks_ended s' = ks_ended s @ map (\<lambda>p. (p, ucast BLK_STS_IOERR)) (cn_waiting cn @ left_behind cn s)"
  using bius_dev_release_run [OF assms] bius_dev_release_refines [OF assms(1) _ assms(2)] by fastforce

theorem release_answers_everything_witness:
  "kinv (demo_fetched True) \<and> (\<exists>s'. bius_dev_release 20 (demo_fetched True) = Some (0, s') \<and>
     ks_conns s' 20 = None \<and> ks_ended s' = [(30, 10)])"
proof -
  have "left_behind (demo_conn\<lparr>cn_block_dev := Some 10, cn_sending := Some 30, cn_waiting := [30]\<rparr>) (demo_fetched True) = []"
    by (simp add: left_behind_def demo_fetched_sel demo_device_def)
  then show ?thesis
    using release_answers_everything [OF demo_kinv(2) demo_reply_facts(1), of True] demo_kinv(2) [of True]
    by (auto simp: demo_fetched_sel BLK_STS_IOERR_def)
qed

text \<open>
  C36. Closing a connection that was handed a zone report is undefined: the report is a variable on the
  stack of the asking thread, with no block request around it, and is ended like a block request, through
  the wrong part of its union.
\<close>

theorem release_with_zone_report_undefined:
  assumes "ks_conns s c = Some cn" "p \<in> set (cn_waiting cn)" "ks_rqs s p = None"
  shows "bius_dev_release c s = None"
proof (cases "end_waiting (cn_waiting cn) s")
  case (Some s1)
  then show ?thesis using end_waiting_effect [OF Some] assms(2,3) by auto
qed (use assms(1) in \<open>simp add: bius_dev_release_def\<close>)

text \<open>A session in which two zones are asked for and the request was read by the process.\<close>

definition demo_report_req :: "seg_bio bius_request" where
  "demo_report_req = \<lparr>req_id = 1, req_type = BIUS_REPORT_ZONES, req_pos = 0, req_length = 2,
     req_union = Int_part \<lparr>req_data = replicate 128 0, req_sem = 0, req_int_result = 0\<rparr>,
     on_request_end = Report_zones_request_end\<rparr>"

definition demo_report_pending :: "seg_bio kstate" where
  "demo_report_pending = projr (the (bius_report_zones_begin True 10 40 0 2 demo_created))"

lemma demo_report_begin:
  "bius_report_zones_begin True 10 40 0 2 demo_created = Some (Inr demo_report_pending)"
  "ks_conns demo_report_pending = [20 \<mapsto> demo_conn\<lparr>cn_block_dev := Some 10\<rparr>]"
  "ks_reqs demo_report_pending = [40 \<mapsto> demo_report_req]" "ks_rqs demo_report_pending = (\<lambda>_. None)"
  "ks_devs demo_report_pending = [10 \<mapsto> demo_device\<lparr>bd_num_connection := 1, bd_pending := [40]\<rparr>]"
  "ks_ended demo_report_pending = []"
  by (simp_all add: demo_report_pending_def bius_report_zones_begin_def inc_request_id_def demo_created_sel bius_sel
      list_add_pending_def demo_device_def demo_report_req_def BIUS_MAX_ZONES_def SIZEOF_BLK_ZONE_def)

lemma demo_report_kinv: "kinv demo_report_pending"
proof -
  have "kstep seg_api False 0 linux_codes demo_created (Call_report 10 40) demo_report_pending"
    by (rule k_zones_begin [OF _ _ _ _ demo_report_begin(1)]) (simp_all add: demo_created_sel demo_live)
  from kstep_sound [OF this demo_created_kinv zone_codes_linux] show ?thesis by simp
qed

definition demo_report :: "seg_bio kstate" where
  "demo_report = the (returned_state (bius_dev_read seg_api False (\<lambda>_ n. n) False 20 4096 demo_report_pending))"

lemma demo_report_sel:
  "kinv demo_report" "ks_reqs demo_report = [40 \<mapsto> demo_report_req]" "ks_rqs demo_report = (\<lambda>_. None)"
  "ks_conns demo_report 20 = Some (demo_conn\<lparr>cn_block_dev := Some 10, cn_sending := None, cn_waiting := [40]\<rparr>)"
proof -
  have "cn_sending (demo_conn\<lparr>cn_block_dev := Some 10\<rparr>) = None" "cn_waiting demo_conn = []"
    "SIZEOF_K2U_HEADER \<le> 4096" "\<not> sends_data demo_report_req"
    by (simp_all add: demo_conn_def SIZEOF_K2U_HEADER_def sends_data_def demo_report_req_def request_is_write_def)
  moreover from this have "fetched_request demo_report_req = demo_report_req"
    by (simp add: fetched_request_def split: option.split)
  ultimately show "kinv demo_report" "ks_reqs demo_report = [40 \<mapsto> demo_report_req]" "ks_rqs demo_report = (\<lambda>_. None)"
    "ks_conns demo_report 20 = Some (demo_conn\<lparr>cn_block_dev := Some 10, cn_sending := None, cn_waiting := [40]\<rparr>)"
    using bius_dev_read_head [where api = seg_api and copy_to_iter = "\<lambda>_ n. n" and sig = False and c = 20 and d = 10
        and cn = "demo_conn\<lparr>cn_block_dev := Some 10\<rparr>" and dev = "demo_device\<lparr>bd_num_connection := 1, bd_pending := [40]\<rparr>"
        and p = 40 and rest = "[]" and r = demo_report_req and n = 4096, OF demo_report_kinv]
    by (auto simp: demo_report_begin demo_report_def)
qed

theorem release_with_zone_report_undefined_witness:
  "kinv demo_report \<and> bius_dev_release 20 demo_report = None"
  using release_with_zone_report_undefined [OF demo_report_sel(4), of 40] demo_report_sel(1) by (simp add: demo_report_sel)

section \<open>Zone reports\<close>

text \<open>A callback that keeps a list of its calls and answers with \<open>ret\<close>.\<close>

definition recording :: "(nat \<Rightarrow> byte list \<Rightarrow> int) \<Rightarrow> nat \<Rightarrow> byte list \<Rightarrow> (nat \<times> byte list) list \<Rightarrow> int \<times> (nat \<times> byte list) list" where
  "recording ret j desc calls = (ret j desc, calls @ [(j, desc)])"

lemma report_zones_loop_accepted:
  assumes "SIZEOF_BLK_ZONE * (i + e) \<le> length blkz"
    and "\<forall>j < e. ret (i + j) (bytes_at (SIZEOF_BLK_ZONE * (i + j)) SIZEOF_BLK_ZONE blkz) = 0"
  shows "report_zones_loop (recording ret) blkz i (e + n) calls =
    report_zones_loop (recording ret) blkz (i + e) n
      (calls @ map (\<lambda>j. (j, bytes_at (SIZEOF_BLK_ZONE * j) SIZEOF_BLK_ZONE blkz)) [i ..< i + e])"
  using assms
proof (induction e arbitrary: i calls)
  case (Suc e)
  have "ret i (bytes_at (SIZEOF_BLK_ZONE * i) SIZEOF_BLK_ZONE blkz) = 0" using Suc.prems(2) by force
  moreover have "\<forall>j < e. ret (Suc i + j) (bytes_at (SIZEOF_BLK_ZONE * (Suc i + j)) SIZEOF_BLK_ZONE blkz) = 0"
    using Suc.prems(2) by (metis Suc_less_eq add_Suc_right add_Suc_shift)
  moreover have "SIZEOF_BLK_ZONE * (Suc i + e) \<le> length blkz" using Suc.prems(1) by simp
  moreover have "[i ..< i + Suc e] = i # [Suc i ..< Suc i + e]" by (simp add: upt_conv_Cons)
  ultimately show ?case using Suc.IH [of "Suc i"] by (simp add: recording_def SIZEOF_BLK_ZONE_def)
qed simp

lemma report_zones_loop_refused:
  assumes "e < k" "SIZEOF_BLK_ZONE * k \<le> length blkz"
    and "\<forall>j < e. ret j (bytes_at (SIZEOF_BLK_ZONE * j) SIZEOF_BLK_ZONE blkz) = 0"
    and "ret e (bytes_at (SIZEOF_BLK_ZONE * e) SIZEOF_BLK_ZONE blkz) \<noteq> 0"
  shows "report_zones_loop (recording ret) blkz 0 k [] = Some (ret e (bytes_at (SIZEOF_BLK_ZONE * e) SIZEOF_BLK_ZONE blkz),
    map (\<lambda>j. (j, bytes_at (SIZEOF_BLK_ZONE * j) SIZEOF_BLK_ZONE blkz)) [0 ..< Suc e])"
proof -
  obtain n where n: "k = e + Suc n" using assms(1) by (metis add_Suc_right less_iff_Suc_add)
  have "SIZEOF_BLK_ZONE * Suc e \<le> SIZEOF_BLK_ZONE * k" using assms(1) by (intro mult_le_mono2) simp
  then have "SIZEOF_BLK_ZONE * (0 + e) \<le> length blkz" "\<not> length blkz < SIZEOF_BLK_ZONE * (e + 1)"
    using assms(2) by simp_all
  then show ?thesis
    using report_zones_loop_accepted [of 0 e blkz ret "Suc n" "[]"] assms(3,4) by (simp add: n recording_def)
qed

lemma bytes_at_mem_read: "off + n \<le> k \<Longrightarrow> bytes_at off n (mem_read m a k) = mem_read m (a + off) n"
  by (rule nth_equalityI) (auto simp: mem_read_def add.assoc)

lemma end_request_int_run:
  assumes "ks_reqs s p = Some r" "int_fields r = Some i" "on_request_end r = Report_zones_request_end"
  shows "end_request_int p v s = Some (put_req p (set_int_fields (i\<lparr>req_int_result := v, req_sem := req_sem i + 1\<rparr>) r) s)"
proof -
  have "set_int_fields y (set_int_fields x r) = set_int_fields y r" "int_fields (set_int_fields x r) = Some x"
    "on_request_end (set_int_fields x r) = on_request_end r" for x y
    by (simp_all add: set_int_fields_def int_fields_def)
  then show ?thesis
    using assms by (simp add: end_request_int_def run_request_end_def bius_report_zones_request_end_def put_req_def)
qed

lemma zone_reply_run:
  assumes inv: "kinv s" and c: "ks_conns s c = Some cn" "cn_block_dev cn \<noteq> None" "p \<in> set (cn_waiting cn)"
    and r: "ks_reqs s p = Some r" "req_type r = BIUS_REPORT_ZONES" "u2k_id header = req_id r"
    and n: "SIZEOF_U2K_HEADER \<le> n" "0 < copied"
  shows "bius_dev_write api datamap z env ue copied header c n s =
    dev_write_zones ue p header (int copied) (unlist_waiting c cn p s)"
  using waiting_lookup [OF inv c(1,3) r(1)] assms
  by (auto simp: bius_dev_write_def bius_sel unlist_waiting_def is_blk_request_def)

lemma zone_reply_stored:
  assumes inv: "kinv s" "ks_conns s c = Some cn" "cn_block_dev cn \<noteq> None" "p \<in> set (cn_waiting cn)"
      "ks_reqs s p = Some r" "req_type r = BIUS_REPORT_ZONES" "u2k_id header = req_id r"
      "SIZEOF_U2K_HEADER \<le> n" "0 < copied"
    and i: "int_fields r = Some i" "req_sem i = 0"
    and N: "u2k_reply header = int N" "0 < N" "N \<le> length (req_data i)" "N < 2 ^ 31"
    and copy: "\<forall>src n. ue_not_copied ue src n = 0"
  shows "bius_dev_write api datamap z env ue copied header c n s = Some (int copied, put_req p
    (set_int_fields (i\<lparr>req_data := blit (req_data i) 0 (mem_read (ue_mem ue) (unat (u2k_user_data header)) N),
       req_int_result := int N, req_sem := 1\<rparr>) r) (unlist_waiting c cn p s))"
proof -
  let ?s = "unlist_waiting c cn p s" and ?bs = "mem_read (ue_mem ue) (unat (u2k_user_data header)) N"
  let ?r0 = "set_int_fields (i\<lparr>req_data := blit (req_data i) 0 ?bs\<rparr>) r"
  have "request_ok (view_of s) p (req_view_of r)" using kinv_waiting [OF inv(1,2,4)] inv(5) by auto
  then have "on_request_end r = Report_zones_request_end"
    using inv(6) by (simp add: request_ok_def req_view_of_def is_blk_request_def)
  then have r0: "on_request_end ?r0 = Report_zones_request_end"
    "int_fields ?r0 = Some (i\<lparr>req_data := blit (req_data i) 0 ?bs\<rparr>)"
    by (simp_all add: set_int_fields_def int_fields_def)
  have "to_c_int (int N) = int N" using N(4) by (intro to_c_int_small) simp_all
  moreover have "copy_from_user ue (unat (u2k_user_data header)) N = (0, ?bs)" using copy by (simp add: copy_from_user_ok)
  moreover have "end_request_int p (int N) (put_req p ?r0 ?s) = Some (put_req p (set_int_fields
      (i\<lparr>req_data := blit (req_data i) 0 ?bs, req_int_result := int N, req_sem := 1\<rparr>) r) ?s)"
    using end_request_int_run [OF _ r0(2,1), of "put_req p ?r0 ?s" p "int N"] i(2)
    by (simp add: put_req_def set_int_fields_def)
  ultimately have "dev_write_zones ue p header (int copied) ?s = Some (int copied, put_req p (set_int_fields
      (i\<lparr>req_data := blit (req_data i) 0 ?bs, req_int_result := int N, req_sem := 1\<rparr>) r) ?s)"
    using inv(5) i(1) N by (simp add: dev_write_zones_def Let_def)
  then show ?thesis using zone_reply_run [OF inv] by simp
qed

lemma zone_descriptor_at:
  assumes "j < k" "SIZEOF_BLK_ZONE * k \<le> length buf"
  shows "bytes_at (SIZEOF_BLK_ZONE * j) SIZEOF_BLK_ZONE (blit buf 0 (mem_read m a (SIZEOF_BLK_ZONE * k))) =
    mem_read m (a + SIZEOF_BLK_ZONE * j) SIZEOF_BLK_ZONE"
proof -
  have j: "SIZEOF_BLK_ZONE * j + SIZEOF_BLK_ZONE \<le> SIZEOF_BLK_ZONE * k"
    using mult_le_mono2 [OF Suc_leI [OF assms(1)], of SIZEOF_BLK_ZONE] by simp
  then have "bytes_at (SIZEOF_BLK_ZONE * j) SIZEOF_BLK_ZONE (blit buf 0 (mem_read m a (SIZEOF_BLK_ZONE * k))) =
      bytes_at (SIZEOF_BLK_ZONE * j) SIZEOF_BLK_ZONE (mem_read m a (SIZEOF_BLK_ZONE * k))"
    by (simp add: bytes_at_def blit_def)
  then show ?thesis using bytes_at_mem_read [OF j] by simp
qed

text \<open>The descriptors a reply brings: 64 bytes each, from the reply's buffer on.\<close>

definition replied_descriptor :: "user_env \<Rightarrow> bius_u2k_header \<Rightarrow> nat \<Rightarrow> byte list" where
  "replied_descriptor ue header j = mem_read (ue_mem ue) (unat (u2k_user_data header) + SIZEOF_BLK_ZONE * j) SIZEOF_BLK_ZONE"

text \<open>
  C15. A zone report carries the process's descriptors to the caller. When the process answers a zone
  report with the size of \<open>k\<close> descriptors, at most as many as were asked for, the waiting thread is woken
  and calls the callback with exactly the process's descriptors, numbered and in order: with all of them,
  and returns \<open>k\<close>, when the callback accepts each; up to the first one it refuses, and returns the
  callback's result, otherwise.
\<close>

theorem zone_report_roundtrip:
  assumes "kinv s" "ks_conns s c = Some cn" "cn_block_dev cn \<noteq> None" "p \<in> set (cn_waiting cn)"
    and "ks_reqs s p = Some r" "req_type r = BIUS_REPORT_ZONES" "u2k_id header = req_id r"
    and "SIZEOF_U2K_HEADER \<le> n" "0 < copied"
    and "int_fields r = Some i" "req_sem i = 0" "length (req_data i) \<le> SIZEOF_BLK_ZONE * BIUS_MAX_ZONES"
    and "u2k_reply header = int (SIZEOF_BLK_ZONE * k)" "0 < k" "SIZEOF_BLK_ZONE * k \<le> length (req_data i)"
    and "\<forall>src n. ue_not_copied ue src n = 0"
  shows "\<exists>s1 s2. bius_dev_write api datamap z env ue copied header c n s = Some (int copied, s1) \<and> ks_reqs s2 p = None \<and>
    ((\<forall>j < k. ret j (replied_descriptor ue header j) = 0) \<longrightarrow>
       bius_report_zones_end (recording ret) [] False p s1 =
         Some (Returned (int k, map (\<lambda>j. (j, replied_descriptor ue header j)) [0 ..< k], s2))) \<and>
    (\<forall>e < k. (\<forall>j < e. ret j (replied_descriptor ue header j) = 0) \<and> ret e (replied_descriptor ue header e) \<noteq> 0 \<longrightarrow>
       bius_report_zones_end (recording ret) [] False p s1 =
         Some (Returned (ret e (replied_descriptor ue header e),
           map (\<lambda>j. (j, replied_descriptor ue header j)) [0 ..< Suc e], s2)))"
proof -
  let ?N = "SIZEOF_BLK_ZONE * k"
  define i' where "i' = i\<lparr>req_data := blit (req_data i) 0 (mem_read (ue_mem ue) (unat (u2k_user_data header)) ?N),
    req_int_result := int ?N, req_sem := 1\<rparr>"
  let ?s1 = "put_req p (set_int_fields i' r) (unlist_waiting c cn p s)"
  let ?s2 = "?s1\<lparr>ks_reqs := (ks_reqs ?s1)(p := None)\<rparr>"
  have "0 < ?N" "?N < 2 ^ 31"
    using assms(12,14,15) by (simp_all add: SIZEOF_BLK_ZONE_def BIUS_MAX_ZONES_def)
  then have run: "bius_dev_write api datamap z env ue copied header c n s = Some (int copied, ?s1)"
    unfolding i'_def using zone_reply_stored [OF assms(1-11,13) _ assms(15) _ assms(16)] by blast
  have sel: "req_sem i' = 1" "nat (req_int_result i') div SIZEOF_BLK_ZONE = k" "\<not> req_int_result i' < 0"
    by (simp_all add: i'_def SIZEOF_BLK_ZONE_def nat_mult_distrib)
  have len: "?N \<le> length (req_data i')" using assms(15) by (simp add: i'_def)
  have desc: "bytes_at (SIZEOF_BLK_ZONE * j) SIZEOF_BLK_ZONE (req_data i') = replied_descriptor ue header j" if "j < k" for j
    using zone_descriptor_at [OF that assms(15)] by (simp add: i'_def replied_descriptor_def)
  have "int_fields (set_int_fields i' r) = Some i'" by (simp add: set_int_fields_def int_fields_def)
  then have report: "bius_report_zones_end (recording ret) [] False p ?s1 =
      (case report_zones_loop (recording ret) (req_data i') 0 k [] of
         None \<Rightarrow> None | Some (result, calls) \<Rightarrow> Some (Returned (result, calls, ?s2)))"
    using sel by (simp add: bius_report_zones_end_def bius_sel split: option.split)
  have all: "report_zones_loop (recording ret) (req_data i') 0 k [] =
      Some (int k, map (\<lambda>j. (j, replied_descriptor ue header j)) [0 ..< k])"
    if "\<forall>j < k. ret j (replied_descriptor ue header j) = 0"
    using report_zones_loop_accepted [of 0 k "req_data i'" ret 0 "[]"] that len desc by simp
  have some: "report_zones_loop (recording ret) (req_data i') 0 k [] =
      Some (ret e (replied_descriptor ue header e), map (\<lambda>j. (j, replied_descriptor ue header j)) [0 ..< Suc e])"
    if "e < k" "\<forall>j < e. ret j (replied_descriptor ue header j) = 0" "ret e (replied_descriptor ue header e) \<noteq> 0" for e
    using report_zones_loop_refused [OF that(1) len, of ret] that desc by simp
  show ?thesis
    by (intro exI [of _ ?s1] exI [of _ ?s2] conjI) (use run all some in \<open>auto simp: report simp del: upt_Suc\<close>)
qed

definition demo_zone_answer :: "int \<Rightarrow> bius_u2k_header" where
  "demo_zone_answer reply = \<lparr>u2k_id = 1, u2k_union = u2k_reply_union reply, u2k_user_data = 200\<rparr>"

lemma demo_zone_answer_sel:
  "u2k_reply (demo_zone_answer 128) = 128" "u2k_reply (demo_zone_answer 192) = 192"
  "u2k_id (demo_zone_answer reply) = 1" "u2k_user_data (demo_zone_answer reply) = 200"
  by (simp_all add: demo_zone_answer_def u2k_reply_def u2k_reply_union_def)

lemma demo_report_facts:
  "int_fields demo_report_req = Some \<lparr>req_data = replicate 128 0, req_sem = 0, req_int_result = 0\<rparr>"
  "req_type demo_report_req = BIUS_REPORT_ZONES" "req_id demo_report_req = 1"
  "\<forall>src n. ue_not_copied demo_user src n = 0"
  by (simp_all add: demo_report_req_def int_fields_def demo_user_def)

text \<open>Two descriptors of bytes that count up; the callback refuses the one that starts with 8.\<close>

theorem zone_report_roundtrip_witness:
  "kinv demo_report \<and>
   (\<exists>s1 s2. bius_dev_write seg_api False 0 demo_create demo_user 24 (demo_zone_answer 128) 20 24 demo_report = Some (24, s1) \<and>
     bius_report_zones_end (recording (\<lambda>j desc. if hd desc = 8 then 5 else 0)) [] False 40 s1 =
       Some (Returned (5, map (\<lambda>j. (j, map of_nat [200 + 64 * j ..< 264 + 64 * j])) [0, 1], s2)))"
proof -
  have desc: "replied_descriptor demo_user (demo_zone_answer 128) j = map of_nat [200 + 64 * j ..< 264 + 64 * j]" for j
    by (simp add: replied_descriptor_def mem_read_def demo_user_def demo_zone_answer_sel SIZEOF_BLK_ZONE_def)
  let ?ret = "\<lambda>j desc. if hd desc = (8 :: byte) then 5 else 0 :: int" and ?D = "replied_descriptor demo_user (demo_zone_answer 128)"
  have "hd (?D j) = of_nat (200 + 64 * j)" for j unfolding desc by (simp add: upt_rec)
  then have ret: "\<forall>j < 1. ?ret j (?D j) = 0" "?ret 1 (?D 1) = 5" by simp_all
  have "\<exists>s1 s2. bius_dev_write seg_api False 0 demo_create demo_user 24 (demo_zone_answer 128) 20 24 demo_report =
      Some (int 24, s1) \<and> ks_reqs s2 40 = None \<and>
    ((\<forall>j < 2. ?ret j (?D j) = 0) \<longrightarrow> bius_report_zones_end (recording ?ret) [] False 40 s1 =
         Some (Returned (int 2, map (\<lambda>j. (j, ?D j)) [0 ..< 2], s2))) \<and>
    (\<forall>e < 2. (\<forall>j < e. ?ret j (?D j) = 0) \<and> ?ret e (?D e) \<noteq> 0 \<longrightarrow>
       bius_report_zones_end (recording ?ret) [] False 40 s1 =
         Some (Returned (?ret e (?D e), map (\<lambda>j. (j, ?D j)) [0 ..< Suc e], s2)))"
    by (rule zone_report_roundtrip [OF demo_report_sel(1,4) _ _ _ demo_report_facts(2) _ _ _ demo_report_facts(1)])
      (simp_all add: demo_report_sel demo_report_facts demo_zone_answer_sel SIZEOF_U2K_HEADER_def SIZEOF_BLK_ZONE_def BIUS_MAX_ZONES_def)
  then obtain s1 s2 where s1: "bius_dev_write seg_api False 0 demo_create demo_user 24 (demo_zone_answer 128) 20 24 demo_report = Some (int 24, s1)"
    and refused: "\<forall>e < 2. (\<forall>j < e. ?ret j (?D j) = 0) \<and> ?ret e (?D e) \<noteq> 0 \<longrightarrow>
      bius_report_zones_end (recording ?ret) [] False 40 s1 =
         Some (Returned (?ret e (?D e), map (\<lambda>j. (j, ?D j)) [0 ..< Suc e], s2))"
    by blast
  have "bius_report_zones_end (recording ?ret) [] False 40 s1 = Some (Returned (5, map (\<lambda>j. (j, ?D j)) [0 ..< Suc 1], s2))"
    using refused [rule_format, of 1] ret(1) unfolding ret(2) by (simp del: upt_Suc)
  moreover have "[0 ..< Suc 1] = [0, 1]" by (simp add: upt_rec)
  ultimately show ?thesis using demo_report_sel(1) s1 unfolding desc by auto
qed

text \<open>
  C37. The size of a zone report's reply is not checked: a reply longer than the buffer the report was
  asked into copies past its end.
\<close>

theorem zone_reply_overflow:
  assumes "kinv s" "ks_conns s c = Some cn" "cn_block_dev cn \<noteq> None" "p \<in> set (cn_waiting cn)"
    and "ks_reqs s p = Some r" "req_type r = BIUS_REPORT_ZONES" "u2k_id header = req_id r"
    and "SIZEOF_U2K_HEADER \<le> n" "0 < copied"
    and "int_fields r = Some i" "int (length (req_data i)) < u2k_reply header"
  shows "bius_dev_write api datamap z env ue copied header c n s = None"
proof -
  have "\<not> u2k_reply header \<le> 0" "length (req_data i) < nat (u2k_reply header)" using assms(11) by auto
  then show ?thesis using zone_reply_run [OF assms(1-9)] assms(5,10) by (simp add: dev_write_zones_def)
qed

theorem zone_reply_overflow_witness:
  "kinv demo_report \<and>
   bius_dev_write seg_api False 0 demo_create demo_user 24 (demo_zone_answer 192) 20 24 demo_report = None"
  using zone_reply_overflow [OF demo_report_sel(1,4), of 40 demo_report_req "demo_zone_answer 192" 24 24,
      OF _ _ _ _ _ _ _ demo_report_facts(1)] demo_report_sel(1)
  by (simp add: demo_report_sel demo_report_facts demo_zone_answer_sel SIZEOF_U2K_HEADER_def)

section \<open>Creating a device\<close>

text \<open>What releases the resource a service call gave.\<close>

fun undo_call :: "int \<Rightarrow> kernel_call \<Rightarrow> kernel_call list" where
  "undo_call major Kmalloc_device = [Kfree_device]"
| "undo_call major (Register_blkdev name) = [Unregister_blkdev major name]"
| "undo_call major Alloc_disk = [Put_disk]"
| "undo_call major Alloc_tag_set = [Free_tag_set]"
| "undo_call major _ = []"

definition gives_back :: "int \<Rightarrow> kernel_call list \<Rightarrow> bool" where
  "gives_back major calls \<longleftrightarrow>
     (\<exists>taken failing. calls = taken @ failing # concat (map (undo_call major) (rev taken)))"

lemma gives_backI: "calls = taken @ failing # concat (map (undo_call major) (rev taken)) \<Longrightarrow> gives_back major calls"
  by (auto simp: gives_back_def)

lemma create_gives_back:
  "gives_back major ([Kmalloc_device, Register_blkdev name] @ out_free_device)"
  "gives_back major ([Kmalloc_device, Register_blkdev name, Alloc_disk] @ out_unregister major name)"
  "gives_back major ([Kmalloc_device, Register_blkdev name, Alloc_disk, Alloc_tag_set] @ out_put_disk major name)"
  "gives_back major ([Kmalloc_device, Register_blkdev name, Alloc_disk, Alloc_tag_set, Init_queue] @ out_free_tag_set major name)"
  by (rule gives_backI [of _ "[Kmalloc_device]" "Register_blkdev name"],
      simp add: out_free_device_def,
      rule gives_backI [of _ "[Kmalloc_device, Register_blkdev name]" Alloc_disk],
      simp add: out_unregister_def out_free_device_def,
      rule gives_backI [of _ "[Kmalloc_device, Register_blkdev name, Alloc_disk]" Alloc_tag_set],
      simp add: out_put_disk_def out_unregister_def out_free_device_def,
      rule gives_backI [of _ "[Kmalloc_device, Register_blkdev name, Alloc_disk, Alloc_tag_set]" Init_queue],
      simp add: out_free_tag_set_def out_put_disk_def out_unregister_def out_free_device_def)

text \<open>
  C16. A creation that fails leaves nothing behind: the module's state is unchanged and every resource
  taken before the failing call is given back, in reverse order. A creation that succeeds adds the
  device, at the end of the list, with its capacity in sectors and no connection.
\<close>

theorem create_block_device_undoes:
  assumes "create_block_device env options s = (ret, device, calls, s')"
  shows "(device = None \<longrightarrow> s' = s \<and> (calls = [] \<or> gives_back (ce_register_blkdev env) calls)) \<and>
    (\<forall>d. device = Some d \<longrightarrow> ret = 0 \<and> ks_all_disk_list s' = ks_all_disk_list s @ [d] \<and>
      (\<exists>dev. ks_devs s' d = Some dev \<and> bd_capacity dev = opt_disk_size options div 512 \<and> bd_num_connection dev = 0 \<and>
         c_str DISK_NAME_LEN (bd_disk_name dev) = c_str DISK_NAME_LEN (opt_disk_name options)))"
  using assms create_gives_back
  by (auto simp: create_block_device_def Let_def new_block_device_def init_bius_block_device_def bius_sel SECTOR_SIZE_def
      split: option.splits if_splits)

definition failing_create :: create_env where
  "failing_create = demo_create\<lparr>ce_init_queue := - 12\<rparr>"

theorem create_block_device_undoes_witness:
  "gives_back 240 (fst (snd (snd (create_block_device failing_create demo_options demo_open))))"
proof -
  obtain calls where "create_block_device failing_create demo_options demo_open = (- 12, None, calls, demo_open)" "calls \<noteq> []"
    by (simp add: create_block_device_def failing_create_def demo_create_def Let_def)
  then show ?thesis
    using create_block_device_undoes [of failing_create demo_options demo_open]
    by (fastforce simp: failing_create_def demo_create_def)
qed

text \<open>
  C38. A failing creation is taken for a success: its result is kept in an unsigned variable, so the test
  for a negative value never holds, and the module goes on with a device pointer that was never set.
\<close>

theorem failed_create_undefined:
  assumes "ks_conns s c = Some cn" "cn_block_dev cn = None" "SIZEOF_U2K_HEADER \<le> n" "0 < copied"
    and "u2k_type header = bius_req_code BIUS_CREATE"
    and "copy_from_user ue (unat (u2k_user_data header)) SIZEOF_OPTIONS = (0, bs)"
    and "create_block_device env (options_of_bytes bs) s = (ret, None, calls, s')"
  shows "bius_dev_write api datamap z env ue copied header c n s = None"
  using assms by (auto simp: bius_dev_write_def handle_initialization_def init_device_def Let_def)

theorem failed_create_undefined_witness:
  "bius_dev_write seg_api False 0 failing_create demo_user 24 demo_init_header 20 24 demo_open = None"
proof -
  have "copy_from_user demo_user (unat (u2k_user_data demo_init_header)) SIZEOF_OPTIONS =
      (0, mem_read (ue_mem demo_user) 100 56)"
    by (simp add: copy_from_user_def demo_init_header_def SIZEOF_OPTIONS_def) (simp add: demo_user_def)
  moreover obtain calls where "create_block_device failing_create demo_options demo_open = (- 12, None, calls, demo_open)"
    by (simp add: create_block_device_def failing_create_def demo_create_def Let_def)
  moreover have "u2k_type demo_init_header = bius_req_code BIUS_CREATE"
    by (simp add: demo_init_header_def u2k_type_def u2k_init_union_def)
  ultimately show ?thesis
    using failed_create_undefined [of demo_open 20 demo_conn 24 24 demo_init_header demo_user _ failing_create]
    by (simp add: demo_open_sel demo_options_def SIZEOF_U2K_HEADER_def) (simp add: demo_conn_def)
qed

section \<open>Requests the module loses track of\<close>

text \<open>
  C39. A zone report whose wait is interrupted by a fatal signal returns while its request is still on the
  pending list or handed to a process: the list then points to a request that no longer exists, and
  fetching it is undefined.
\<close>

theorem killed_report_dangles:
  assumes "ks_reqs s p = Some r" "int_fields r = Some i" "req_sem i = 0"
    and "ks_conns s c = Some cn" "cn_block_dev cn = Some d" "cn_sending cn = None" "ks_devs s d = Some dev"
    and "bd_pending dev = p # rest" "SIZEOF_K2U_HEADER \<le> n"
  shows "\<exists>s'. bius_report_zones_end cb data True p s = Some (Returned (- EINTR, data, s')) \<and>
    bius_dev_read api datamap cti sig c n s' = None"
  using assms by (simp add: bius_report_zones_end_def bius_dev_read_def dev_read_prepare_def bius_sel)

theorem killed_report_dangles_witness:
  "kinv demo_report_pending \<and>
   (\<exists>s'. bius_report_zones_end (recording (\<lambda>_ _. 0)) [] True 40 demo_report_pending = Some (Returned (- EINTR, [], s')) \<and>
     bius_dev_read seg_api False (\<lambda>_ n. n) False 20 4096 s' = None)"
  using killed_report_dangles [of demo_report_pending 40 demo_report_req _ 20 _ 10 _ "[]" 4096 "recording (\<lambda>_ _. 0)" "[]" seg_api False "\<lambda>_ n. n" False,
      OF _ demo_report_facts(1)] demo_report_kinv
  by (simp add: demo_report_begin demo_conn_def SIZEOF_K2U_HEADER_def)

text \<open>
  A request with an operation the module does not know is ended by the driver and also refused
  through the return value of the queue function, which makes the block layer end it a second time.
\<close>

theorem unknown_operation_ended_and_refused:
  assumes "ks_rqs s p = Some q" "to_bius_request codes (rq_op q) = BIUS_INVALID_OP"
  shows "\<exists>s'. bius_queue_rq codes d p s = Some (1, s') \<and> ks_ended s' = ks_ended s @ [(p, 1)] \<and> ks_devs s' = ks_devs s"
  using assms
  by (simp add: bius_queue_rq_def inc_request_id_def blk_mq_end_request_def bius_sel BLK_STS_NOTSUPP_def)

theorem unknown_operation_ended_and_refused_witness:
  "\<exists>s'. bius_queue_rq linux_codes 10 30 (put_rq 30 ((demo_rq True)\<lparr>rq_op := 7\<rparr>) demo_created) = Some (1, s') \<and>
     ks_ended s' = [(30, 1)]"
proof -
  have "to_bius_request linux_codes (rq_op ((demo_rq True)\<lparr>rq_op := 7\<rparr>)) = BIUS_INVALID_OP"
    by (simp add: to_bius_request_def linux_codes_def)
  then show ?thesis
    using unknown_operation_ended_and_refused [of "put_rq 30 ((demo_rq True)\<lparr>rq_op := 7\<rparr>) demo_created" 30
        "(demo_rq True)\<lparr>rq_op := 7\<rparr>" linux_codes 10]
    by (auto simp: bius_sel demo_created_sel)
qed

end
