(* ===== verification/Bius_Backend.thy ===== *)
theory Bius_Backend
  imports Bius_Types
begin

text \<open>
  The table of operations a user process gives the library (\<^verbatim>\<open>struct bius_operations\<close> of
  libbius.h) and the two stores that serve them: the ramdisk (ramdisk.c, and the same functions in
  zoned-ramdisk.c) and the passthrough to a file (passthrough.c, zoned-passthrough.c). An operation
  gets the process's memory and the device's state \<open>'d\<close>; \<open>None\<close> is an access outside an object.
  An \<^verbatim>\<open>off64_t\<close> is kept as its 64-bit pattern. What both stores promise is stated as the locale
  \<open>block_store\<close> and proved for each.
\<close>

type_synonym off64 = u64

section \<open>Operations (libbius.h)\<close>

type_synonym 'd read_op = "nat \<Rightarrow> off64 \<Rightarrow> u64 \<Rightarrow> mem \<Rightarrow> 'd \<Rightarrow> (blk_status \<times> mem \<times> 'd) option"
type_synonym 'd write_op = "nat \<Rightarrow> off64 \<Rightarrow> u64 \<Rightarrow> mem \<Rightarrow> 'd \<Rightarrow> (blk_status \<times> 'd) option"
type_synonym 'd range_op = "off64 \<Rightarrow> u64 \<Rightarrow> 'd \<Rightarrow> (blk_status \<times> 'd) option"
type_synonym 'd zone_op = "off64 \<Rightarrow> 'd \<Rightarrow> (blk_status \<times> 'd) option"
type_synonym 'd dev_op = "'d \<Rightarrow> (blk_status \<times> 'd) option"

text \<open>
  \<open>append_zone\<close> is told whether its position argument is non-null and returns the position it
  stores there; \<open>report_zones\<close> stores zone descriptors at an address.
\<close>

type_synonym 'd append_op =
  "nat \<Rightarrow> off64 \<Rightarrow> u64 \<Rightarrow> bool \<Rightarrow> mem \<Rightarrow> 'd \<Rightarrow> (blk_status \<times> off64 option \<times> 'd) option"
type_synonym 'd report_op = "off64 \<Rightarrow> int \<Rightarrow> nat \<Rightarrow> mem \<Rightarrow> 'd \<Rightarrow> (int \<times> mem) option"

record 'd bius_operations =
  op_read :: "'d read_op option"
  op_write :: "'d write_op option"
  op_discard :: "'d range_op option"
  op_flush :: "'d dev_op option"
  op_report_zones :: "'d report_op option"
  op_open_zone :: "'d zone_op option"
  op_close_zone :: "'d zone_op option"
  op_finish_zone :: "'d zone_op option"
  op_append_zone :: "'d append_op option"
  op_reset_zone :: "'d zone_op option"
  op_reset_all_zone :: "'d dev_op option"

text \<open>The fields an initialiser leaves out are null pointers.\<close>

definition no_operations :: "'d bius_operations" where
  "no_operations = \<lparr>op_read = None, op_write = None, op_discard = None, op_flush = None,
     op_report_zones = None, op_open_zone = None, op_close_zone = None, op_finish_zone = None,
     op_append_zone = None, op_reset_zone = None, op_reset_all_zone = None\<rparr>"

section \<open>The ramdisk\<close>

definition RAMDISK_SIZE :: nat where [bius_const]: "RAMDISK_SIZE = 32 * 1024 * 1024 * 1024"

text \<open>The device's state is the array \<^verbatim>\<open>in_memory_data\<close>; an access must lie inside it.\<close>

type_synonym ramdisk = mem

definition in_ramdisk :: "off64 \<Rightarrow> u64 \<Rightarrow> bool" where
  "in_ramdisk offset len \<longleftrightarrow> unat offset + unat len \<le> RAMDISK_SIZE"

definition ramdisk_read :: "ramdisk read_op" where
  "ramdisk_read data offset len m in_memory_data =
     (if in_ramdisk offset len
      then Some (BLK_STS_OK, mem_write m data (mem_read in_memory_data (unat offset) (unat len)),
                 in_memory_data)
      else None)"

definition ramdisk_write :: "ramdisk write_op" where
  "ramdisk_write data offset len m in_memory_data =
     (if in_ramdisk offset len
      then Some (BLK_STS_OK, mem_write in_memory_data (unat offset) (mem_read m data (unat len)))
      else None)"

definition ramdisk_discard :: "ramdisk range_op" where
  "ramdisk_discard offset len in_memory_data =
     (if in_ramdisk offset len
      then Some (BLK_STS_OK, mem_set in_memory_data (unat offset) (unat len) 0)
      else None)"

definition ramdisk_flush :: "ramdisk dev_op" where
  "ramdisk_flush in_memory_data = Some (BLK_STS_OK, in_memory_data)"

definition ramdisk_operations :: "ramdisk bius_operations" where
  "ramdisk_operations = no_operations\<lparr>op_read := Some ramdisk_read, op_write := Some ramdisk_write,
     op_discard := Some ramdisk_discard, op_flush := Some ramdisk_flush\<rparr>"

definition ramdisk_name :: "byte list" where
  "ramdisk_name = map (of_nat \<circ> of_char) ''ramdisk''"

definition ramdisk_options :: bius_block_device_options where
  "ramdisk_options = \<lparr>opt_model = BLK_ZONED_NONE, opt_num_threads = 4,
     opt_disk_size = of_nat RAMDISK_SIZE, opt_max_open_zones = 0, opt_max_active_zones = 0,
     opt_disk_name = ramdisk_name @ replicate (MAX_DISK_NAME_LEN - length ramdisk_name) 0\<rparr>"

definition ramdisk_initial :: ramdisk where
  "ramdisk_initial = mem_set (\<lambda>_. 0) 0 RAMDISK_SIZE 0"

section \<open>The passthrough\<close>

text \<open>
  The system calls on the target file are parameters: \<open>pread\<close> gives its return value and the
  bytes it stored, \<open>pwrite\<close> its return value and the new file, \<open>discard\<close> and \<open>fsync\<close> stand for
  the \<^verbatim>\<open>BLKDISCARD\<close> ioctl and \<^verbatim>\<open>fsync\<close>. The loops run at least once and go on while
  fewer bytes than asked for were transferred.
\<close>

record 'f file_api =
  sys_pread :: "'f \<Rightarrow> nat \<Rightarrow> u64 \<Rightarrow> int \<times> byte list"
  sys_pwrite :: "'f \<Rightarrow> byte list \<Rightarrow> u64 \<Rightarrow> int \<times> 'f"
  sys_blkdiscard :: "'f \<Rightarrow> u64 \<Rightarrow> u64 \<Rightarrow> int \<times> 'f"
  sys_fsync :: "'f \<Rightarrow> int \<times> 'f"

function passthrough_read_loop ::
  "'f file_api \<Rightarrow> nat \<Rightarrow> u64 \<Rightarrow> nat \<Rightarrow> nat \<Rightarrow> mem \<Rightarrow> 'f \<Rightarrow> blk_status \<times> mem" where
  "passthrough_read_loop api data offset len read_size m f =
     (let (result, bs) = sys_pread api f (len - read_size) (offset + of_nat read_size);
          m' = mem_write m (data + read_size) (take (nat result) bs)
      in if result \<le> 0 then (BLK_STS_IOERR, m)
         else if read_size + nat result < len
              then passthrough_read_loop api data offset len (read_size + nat result) m' f
              else (BLK_STS_OK, m'))"
  by pat_completeness auto
termination
  by (relation "measure (\<lambda>(api, data, offset, len, read_size, m, f). len - read_size)") auto

definition passthrough_read :: "'f file_api \<Rightarrow> 'f read_op" where
  "passthrough_read api data offset len m f =
     (case passthrough_read_loop api data offset (unat len) 0 m f of (st, m') \<Rightarrow> Some (st, m', f))"

function passthrough_write_loop ::
  "'f file_api \<Rightarrow> nat \<Rightarrow> u64 \<Rightarrow> nat \<Rightarrow> nat \<Rightarrow> mem \<Rightarrow> 'f \<Rightarrow> blk_status \<times> 'f" where
  "passthrough_write_loop api data offset len written_size m f =
     (let (result, f') = sys_pwrite api f (mem_read m (data + written_size) (len - written_size))
                           (offset + of_nat written_size)
      in if result \<le> 0 then (BLK_STS_IOERR, f')
         else if written_size + nat result < len
              then passthrough_write_loop api data offset len (written_size + nat result) m f'
              else (BLK_STS_OK, f'))"
  by pat_completeness auto
termination
  by (relation "measure (\<lambda>(api, data, offset, len, written_size, m, f). len - written_size)") auto

declare passthrough_read_loop.simps [simp del] passthrough_write_loop.simps [simp del]

definition passthrough_write :: "'f file_api \<Rightarrow> 'f write_op" where
  "passthrough_write api data offset len m f =
     Some (passthrough_write_loop api data offset (unat len) 0 m f)"

definition passthrough_discard :: "'f file_api \<Rightarrow> 'f range_op" where
  "passthrough_discard api offset len f =
     (let (result, f') = sys_blkdiscard api f offset len
      in Some (if result < 0 then BLK_STS_IOERR else BLK_STS_OK, f'))"

definition passthrough_flush :: "'f file_api \<Rightarrow> 'f dev_op" where
  "passthrough_flush api f =
     (let (result, f') = sys_fsync api f
      in Some (if result < 0 then BLK_STS_IOERR else BLK_STS_OK, f'))"

definition passthrough_operations :: "'f file_api \<Rightarrow> 'f bius_operations" where
  "passthrough_operations api = no_operations\<lparr>op_read := Some (passthrough_read api),
     op_write := Some (passthrough_write api), op_discard := Some (passthrough_discard api),
     op_flush := Some (passthrough_flush api)\<rparr>"

section \<open>What a store promises\<close>

text \<open>
  Reads and writes inside the capacity succeed; a read copies the store's contents to the
  caller's buffer, a write replaces exactly the bytes of its range.
\<close>

locale block_store =
  fixes rd :: "'d read_op" and wr :: "'d write_op" and contents :: "'d \<Rightarrow> nat \<Rightarrow> byte" and cap :: nat
  assumes rd_ok: "0 < unat len \<Longrightarrow> unat off + unat len \<le> cap \<Longrightarrow>
      rd data off len m d = Some (BLK_STS_OK, mem_write m data (mem_read (contents d) (unat off) (unat len)), d)"
    and wr_ok: "0 < unat len \<Longrightarrow> unat off + unat len \<le> cap \<Longrightarrow>
      \<exists>d'. wr data off len m d = Some (BLK_STS_OK, d') \<and>
        contents d' = mem_write (contents d) (unat off) (mem_read m data (unat len))"
begin

text \<open>What was written is read back, whatever the buffers.\<close>

lemma read_after_write:
  assumes "0 < unat len" "unat off + unat len \<le> cap" "wr data off len m d = Some (st, d')"
  shows "rd buf off len m' d' = Some (BLK_STS_OK, mem_write m' buf (mem_read m data (unat len)), d')"
proof -
  have "contents d' = mem_write (contents d) (unat off) (mem_read m data (unat len))"
    using wr_ok [OF assms(1,2), of data m d] assms(3) by auto
  then show ?thesis
    using rd_ok [OF assms(1,2), of buf m' d'] mem_read_write_same [of "contents d" "unat off" "mem_read m data (unat len)"]
    by simp
qed

text \<open>A write leaves the bytes outside its range alone.\<close>

lemma read_after_other_write:
  assumes "0 < unat len" "unat off + unat len \<le> cap" "wr data off len m d = Some (st, d')"
    and "0 < unat len'" "unat off' + unat len' \<le> cap"
    and "unat off' + unat len' \<le> unat off \<or> unat off + unat len \<le> unat off'"
  shows "rd buf off' len' m' d' = map_option (\<lambda>(st, m'', _). (st, m'', d')) (rd buf off' len' m' d)"
proof -
  have "contents d' = mem_write (contents d) (unat off) (mem_read m data (unat len))"
    using wr_ok [OF assms(1,2), of data m d] assms(3) by auto
  then have "mem_read (contents d') (unat off') (unat len') = mem_read (contents d) (unat off') (unat len')"
    using mem_read_write_disjoint [of "unat off'" "unat len'" "unat off" "mem_read m data (unat len)"] assms(6)
    by simp
  then show ?thesis using rd_ok [OF assms(4,5)] by simp
qed

end

text \<open>The ramdisk is a store.\<close>

interpretation ramdisk: block_store ramdisk_read ramdisk_write "\<lambda>d. d" RAMDISK_SIZE
  by unfold_locales (auto simp: ramdisk_read_def ramdisk_write_def in_ramdisk_def)

text \<open>
  What the documentation of \<^verbatim>\<open>pread\<close> and \<^verbatim>\<open>pwrite\<close> says of a regular file or block device:
  inside the file at least one byte is transferred and at most as many as asked for; fewer is
  allowed.
\<close>

locale regular_file =
  fixes api :: "'f file_api" and contents :: "'f \<Rightarrow> nat \<Rightarrow> byte" and cap :: nat
  assumes cap_bound: "cap < 2 ^ 64"
    and pread_some: "0 < n \<Longrightarrow> unat off + n \<le> cap \<Longrightarrow>
      \<exists>k. 0 < k \<and> k \<le> n \<and> sys_pread api f n off = (int k, mem_read (contents f) (unat off) k)"
    and pwrite_some: "bs \<noteq> [] \<Longrightarrow> unat off + length bs \<le> cap \<Longrightarrow>
      \<exists>k f'. 0 < k \<and> k \<le> length bs \<and> sys_pwrite api f bs off = (int k, f') \<and>
        contents f' = mem_write (contents f) (unat off) (take k bs)"
begin

lemma unat_offset: "unat off + n \<le> cap \<Longrightarrow> k < n \<Longrightarrow> unat (off + of_nat k :: u64) = unat off + k"
  using cap_bound by (simp add: unat_word_ariths unat_of_nat)

lemma passthrough_read_loop_ok:
  assumes "k < n" "unat off + n \<le> cap"
  shows "passthrough_read_loop api data off n k m f =
    (BLK_STS_OK, mem_write m (data + k) (mem_read (contents f) (unat off + k) (n - k)))"
  using assms
proof (induction "n - k" arbitrary: k m rule: less_induct)
  case less
  have "unat (off + of_nat k) = unat off + k" using unat_offset less.prems by blast
  then obtain j where j: "0 < j" "j \<le> n - k"
    "sys_pread api f (n - k) (off + of_nat k) = (int j, mem_read (contents f) (unat off + k) j)"
    using pread_some [of "n - k" "off + of_nat k" f] less.prems by auto
  let ?m = "mem_write m (data + k) (mem_read (contents f) (unat off + k) j)"
  show ?case
  proof (cases "k + j < n")
    case True
    have "mem_read (contents f) (unat off + k) (n - k) =
        mem_read (contents f) (unat off + k) j @ mem_read (contents f) (unat off + (k + j)) (n - (k + j))"
      using mem_read_add [of "contents f" "unat off + k" j "n - (k + j)"] True by (simp add: add.assoc)
    then have "mem_write ?m (data + (k + j)) (mem_read (contents f) (unat off + (k + j)) (n - (k + j))) =
        mem_write m (data + k) (mem_read (contents f) (unat off + k) (n - k))"
      using mem_write_append [of m "data + k" "mem_read (contents f) (unat off + k) j"]
      by (simp add: add.assoc)
    then show ?thesis
      using less.hyps [of "k + j" ?m] True j less.prems(2) diff_less_mono2 [of k "k + j" n]
      by (subst passthrough_read_loop.simps) (simp add: Let_def)
  next
    case False
    then have n: "n - k = j" using j(2) by simp
    then show ?thesis using False j(1,3) by (subst passthrough_read_loop.simps) (simp add: n Let_def)
  qed
qed

lemma passthrough_write_loop_ok:
  assumes "k < n" "unat off + n \<le> cap"
  shows "\<exists>f'. passthrough_write_loop api data off n k m f = (BLK_STS_OK, f') \<and>
    contents f' = mem_write (contents f) (unat off + k) (mem_read m (data + k) (n - k))"
  using assms
proof (induction "n - k" arbitrary: k f rule: less_induct)
  case less
  let ?bs = "mem_read m (data + k) (n - k)"
  have off: "unat (off + of_nat k) = unat off + k" using unat_offset less.prems by blast
  have "?bs \<noteq> []" using less.prems by (metis length_mem_read list.size(3) diff_is_0_eq not_le)
  then obtain j f1 where j: "0 < j" "j \<le> n - k" "sys_pwrite api f ?bs (off + of_nat k) = (int j, f1)"
    "contents f1 = mem_write (contents f) (unat off + k) (mem_read m (data + k) j)"
    using pwrite_some [of ?bs "off + of_nat k" f] less.prems off by (auto simp: take_mem_read)
  show ?case
  proof (cases "k + j < n")
    case True
    have bs: "?bs = mem_read m (data + k) j @ mem_read m (data + (k + j)) (n - (k + j))"
      using mem_read_add [of m "data + k" j "n - (k + j)"] True by (simp add: add.assoc)
    obtain f' where "passthrough_write_loop api data off n (k + j) m f1 = (BLK_STS_OK, f')"
      "contents f' = mem_write (contents f1) (unat off + (k + j)) (mem_read m (data + (k + j)) (n - (k + j)))"
      using less.hyps [of "k + j" f1] True j(1) less.prems(2) diff_less_mono2 [of k "k + j" n] by auto
    then show ?thesis
      using True j mem_write_append [of "contents f" "unat off + k" "mem_read m (data + k) j"]
      by (subst passthrough_write_loop.simps) (simp add: bs add.assoc)
  next
    case False
    then have n: "n - k = j" using j(2) by simp
    then show ?thesis using False j(1,3,4) by (subst passthrough_write_loop.simps) (simp add: n)
  qed
qed

end

text \<open>So the passthrough to such a file is a store, however short the transfers are.\<close>

sublocale regular_file \<subseteq> pass: block_store "passthrough_read api" "passthrough_write api" contents cap
proof unfold_locales
  show "0 < unat len \<Longrightarrow> unat off + unat len \<le> cap \<Longrightarrow> passthrough_read api data off len m d =
      Some (BLK_STS_OK, mem_write m data (mem_read (contents d) (unat off) (unat len)), d)" for len off data m d
    by (simp add: passthrough_read_def passthrough_read_loop_ok)
  show "0 < unat len \<Longrightarrow> unat off + unat len \<le> cap \<Longrightarrow>
      \<exists>d'. passthrough_write api data off len m d = Some (BLK_STS_OK, d') \<and>
        contents d' = mem_write (contents d) (unat off) (mem_read m data (unat len))" for len off data m d
    using passthrough_write_loop_ok [of 0 "unat len" off data m d] by (simp add: passthrough_write_def)
qed

context regular_file
begin

lemma passthrough_read_back:
  assumes "0 < unat len" "unat off + unat len \<le> cap" "passthrough_write api data off len m f = Some (st, f')"
  shows "st = BLK_STS_OK \<and>
    passthrough_read api buf off len m' f' = Some (BLK_STS_OK, mem_write m' buf (mem_read m data (unat len)), f')"
  using pass.wr_ok [OF assms(1,2), of data m f] pass.read_after_write [OF assms] assms(3) by auto

end

text \<open>A file whose system calls transfer three bytes at most.\<close>

definition short_file_api :: "mem file_api" where
  "short_file_api = \<lparr>sys_pread = (\<lambda>f n off. (int (min n 3), mem_read f (unat off) (min n 3))),
     sys_pwrite = (\<lambda>f bs off. (int (length (take 3 bs)), mem_write f (unat off) (take 3 bs))),
     sys_blkdiscard = (\<lambda>f off len. (0, mem_set f (unat off) (unat len) 0)), sys_fsync = (\<lambda>f. (0, f))\<rparr>"

interpretation short_file: regular_file short_file_api "\<lambda>f. f" "2 ^ 30"
proof unfold_locales
  show "0 < n \<Longrightarrow> unat off + n \<le> 2 ^ 30 \<Longrightarrow> \<exists>k. 0 < k \<and> k \<le> n \<and>
      sys_pread short_file_api f n off = (int k, mem_read f (unat off) k)" for n off f
    by (intro exI [of _ "min n 3"]) (simp add: short_file_api_def)
  show "bs \<noteq> [] \<Longrightarrow> unat off + length bs \<le> 2 ^ 30 \<Longrightarrow> \<exists>k f'. 0 < k \<and> k \<le> length bs \<and>
      sys_pwrite short_file_api f bs off = (int k, f') \<and> f' = mem_write f (unat off) (take k bs)" for bs off f
    by (intro exI [of _ "min (length bs) 3"]) (simp add: short_file_api_def min_def)
qed simp

end
