(* ===== verification/Bius_Zoned.thy ===== *)
theory Bius_Zoned
  imports Bius_Backend
begin

text \<open>
  The zoned device emulation of the examples (zoned-common.h): the table of zones with their
  conditions and write pointers, the counters of open, implicitly open and active zones, and the
  operations on them, over a raw store given as a parameter (\<^verbatim>\<open>raw_read\<close>, \<^verbatim>\<open>raw_write\<close>,
  \<^verbatim>\<open>raw_discard\<close>). Fields keep their widths: sectors are 64-bit, counters 32-bit words, and
  both wrap. \<open>None\<close> is an access outside a table or the signed overflow of the start sector
  computation. Where a switch of the source falls through, the cases are written out. The locks have
  no field: the model runs one operation after the other. The source allows more. A zone's lock is
  released before \<^verbatim>\<open>raw_write\<close> and \<^verbatim>\<open>raw_discard\<close>, so that the transfers of two
  operations on one zone may happen in the other order; \<^verbatim>\<open>zoned_reset_all_zone\<close> takes the global lock
  only, and closing an implicitly open zone takes the lock of a second zone. Such overlapping calls are
  outside this model.
\<close>

section \<open>Data\<close>

datatype blk_zone_type = BLK_ZONE_TYPE_CONVENTIONAL | BLK_ZONE_TYPE_SEQWRITE_REQ

datatype blk_zone_cond =
    BLK_ZONE_COND_NOT_WP | BLK_ZONE_COND_EMPTY | BLK_ZONE_COND_IMP_OPEN | BLK_ZONE_COND_EXP_OPEN
  | BLK_ZONE_COND_CLOSED | BLK_ZONE_COND_READONLY | BLK_ZONE_COND_FULL | BLK_ZONE_COND_OFFLINE

record blk_zone =
  z_start :: u64
  z_len :: u64
  z_wp :: u64
  z_type :: blk_zone_type
  z_cond :: blk_zone_cond
  z_capacity :: u64

record zone_stat =
  st_written :: u64
  st_read :: u64
  st_reset_count :: u64
  st_discard_count :: u64

text \<open>The constants each program defines before it includes the header.\<close>

record zoned_config =
  ZONE_SIZE :: int
  zoned_disk_size :: u64
  zone_size :: u64
  num_conventional_zones :: u32
  max_open_zones :: u32
  max_active_zones :: u32

record 'r zoned_state =
  num_open_zones :: u32
  num_imp_open_zones :: u32
  num_active_zones :: u32
  zone_info :: "blk_zone list"
  zone_stats :: "zone_stat list"
  raw_store :: 'r

record 'r raw_ops =
  raw_read :: "'r read_op"
  raw_write :: "'r write_op"
  raw_discard :: "'r range_op"

definition num_zones :: "zoned_config \<Rightarrow> nat" where
  "num_zones cfg = unat (zoned_disk_size cfg div zone_size cfg)"

definition put_zone :: "nat \<Rightarrow> blk_zone \<Rightarrow> 'r zoned_state \<Rightarrow> 'r zoned_state" where
  "put_zone i z s = s\<lparr>zone_info := (zone_info s)[i := z]\<rparr>"

definition put_stat :: "nat \<Rightarrow> zone_stat \<Rightarrow> 'r zoned_state \<Rightarrow> 'r zoned_state" where
  "put_stat i t s = s\<lparr>zone_stats := (zone_stats s)[i := t]\<rparr>"

text \<open>Reading an entry of the two tables, which have one entry per zone.\<close>

definition get_zone :: "'r zoned_state \<Rightarrow> nat \<Rightarrow> blk_zone option" where
  "get_zone s i = (if i < length (zone_info s) then Some (zone_info s ! i) else None)"

definition get_stat :: "'r zoned_state \<Rightarrow> nat \<Rightarrow> zone_stat option" where
  "get_stat s i = (if i < length (zone_stats s) then Some (zone_stats s ! i) else None)"

section \<open>Initialisation\<close>

text \<open>
  The start sector is the product of two \<^verbatim>\<open>int\<close>s, computed at that width before it is stored
  in the 64-bit field.
\<close>

definition zone_start_sector :: "zoned_config \<Rightarrow> nat \<Rightarrow> u64 option" where
  "zone_start_sector cfg i =
     (let x = c_div (ZONE_SIZE cfg) (int SECTOR_SIZE) * int i
      in if - (2 ^ 31) \<le> x \<and> x < 2 ^ 31 then Some (word_of_int x) else None)"

definition initial_zone :: "zoned_config \<Rightarrow> nat \<Rightarrow> blk_zone option" where
  "initial_zone cfg i = do {
     start \<leftarrow> zone_start_sector cfg i;
     let len = word_of_int (c_div (ZONE_SIZE cfg) (int SECTOR_SIZE));
     Some (if i < unat (num_conventional_zones cfg)
           then \<lparr>z_start = start, z_len = len, z_wp = start, z_type = BLK_ZONE_TYPE_CONVENTIONAL,
                 z_cond = BLK_ZONE_COND_NOT_WP, z_capacity = len\<rparr>
           else \<lparr>z_start = start, z_len = len, z_wp = start, z_type = BLK_ZONE_TYPE_SEQWRITE_REQ,
                 z_cond = BLK_ZONE_COND_EMPTY, z_capacity = len\<rparr>)
   }"

fun initial_zones :: "zoned_config \<Rightarrow> nat list \<Rightarrow> blk_zone list option" where
  "initial_zones cfg [] = Some []"
| "initial_zones cfg (i # is) = do {
     z \<leftarrow> initial_zone cfg i;
     zs \<leftarrow> initial_zones cfg is;
     Some (z # zs)
   }"

definition initialize_zone_info :: "zoned_config \<Rightarrow> 'r zoned_state \<Rightarrow> 'r zoned_state option" where
  "initialize_zone_info cfg s =
     (if num_zones cfg < unat (num_conventional_zones cfg) then None
      else do {
        zs \<leftarrow> initial_zones cfg [0 ..< num_zones cfg];
        Some (s\<lparr>zone_info := zs, num_open_zones := 0, num_imp_open_zones := 0, num_active_zones := 0\<rparr>)
      })"

text \<open>
  \<open>initialize\<close> with the allocations succeeding; the counters and tables hold anything before.
\<close>

definition initialize :: "zoned_config \<Rightarrow> 'r \<Rightarrow> 'r zoned_state option" where
  "initialize cfg r = do {
     s \<leftarrow> initialize_zone_info cfg \<lparr>num_open_zones = 0, num_imp_open_zones = 0, num_active_zones = 0,
            zone_info = [], zone_stats = [], raw_store = r\<rparr>;
     Some (s\<lparr>zone_stats := replicate (num_zones cfg)
       \<lparr>st_written = 0, st_read = 0, st_reset_count = 0, st_discard_count = 0\<rparr>\<rparr>)
   }"

section \<open>Opening, closing and filling a zone\<close>

definition zone_number :: "zoned_config \<Rightarrow> off64 \<Rightarrow> nat" where
  "zone_number cfg offset = unat (word_of_int (c_div (sint offset) (ZONE_SIZE cfg)) :: u32)"

text \<open>The loop of \<open>close_imp_open_zone\<close> over the zones that are left; it stops at the first hit.\<close>

fun close_imp_open_loop :: "nat \<Rightarrow> nat list \<Rightarrow> 'r zoned_state \<Rightarrow> 'r zoned_state option" where
  "close_imp_open_loop skip [] s = Some s"
| "close_imp_open_loop skip (zone # zones) s =
     (if zone = skip then close_imp_open_loop skip zones s
      else do {
        z \<leftarrow> get_zone s zone;
        (if z_cond z = BLK_ZONE_COND_IMP_OPEN
         then Some ((put_zone zone (z\<lparr>z_cond := BLK_ZONE_COND_CLOSED\<rparr>) s)
                      \<lparr>num_open_zones := num_open_zones s - 1,
                       num_imp_open_zones := num_imp_open_zones s - 1\<rparr>)
         else close_imp_open_loop skip zones s)
      })"

definition close_imp_open_zone :: "zoned_config \<Rightarrow> nat \<Rightarrow> 'r zoned_state \<Rightarrow> 'r zoned_state option" where
  "close_imp_open_zone cfg zone_to_skip s =
     close_imp_open_loop zone_to_skip [unat (num_conventional_zones cfg) ..< num_zones cfg] s"

text \<open>The case \<^verbatim>\<open>CLOSED\<close> of \<open>open_zone_locked\<close>, into which the case \<^verbatim>\<open>EMPTY\<close> falls through.\<close>

definition open_closed_zone ::
  "zoned_config \<Rightarrow> nat \<Rightarrow> bool \<Rightarrow> 'r zoned_state \<Rightarrow> (blk_status \<times> 'r zoned_state) option" where
  "open_closed_zone cfg zone explicit s =
     (if max_open_zones cfg \<le> num_open_zones s then
        (if 0 < num_imp_open_zones s then do {
           s \<leftarrow> close_imp_open_zone cfg zone s;
           Some (BLK_STS_OK, s)
         } else Some (BLK_STS_ZONE_OPEN_RESOURCE, s))
      else do {
        z \<leftarrow> get_zone s zone;
        Some (BLK_STS_OK,
          if explicit
          then (put_zone zone (z\<lparr>z_cond := BLK_ZONE_COND_EXP_OPEN\<rparr>) s)
                 \<lparr>num_open_zones := num_open_zones s + 1\<rparr>
          else (put_zone zone (z\<lparr>z_cond := BLK_ZONE_COND_IMP_OPEN\<rparr>) s)
                 \<lparr>num_open_zones := num_open_zones s + 1,
                  num_imp_open_zones := num_imp_open_zones s + 1\<rparr>)
      })"

definition open_zone_locked ::
  "zoned_config \<Rightarrow> nat \<Rightarrow> bool \<Rightarrow> 'r zoned_state \<Rightarrow> (blk_status \<times> 'r zoned_state) option" where
  "open_zone_locked cfg zone explicit s = do {
     z \<leftarrow> get_zone s zone;
     (case z_cond z of
        BLK_ZONE_COND_IMP_OPEN \<Rightarrow>
          Some (BLK_STS_OK,
            if explicit
            then (put_zone zone (z\<lparr>z_cond := BLK_ZONE_COND_EXP_OPEN\<rparr>) s)
                   \<lparr>num_imp_open_zones := num_imp_open_zones s - 1\<rparr>
            else s)
      | BLK_ZONE_COND_EXP_OPEN \<Rightarrow> Some (BLK_STS_OK, s)
      | BLK_ZONE_COND_EMPTY \<Rightarrow>
          if max_active_zones cfg \<le> num_active_zones s then Some (BLK_STS_ZONE_ACTIVE_RESOURCE, s)
          else open_closed_zone cfg zone explicit (s\<lparr>num_active_zones := num_active_zones s + 1\<rparr>)
      | BLK_ZONE_COND_CLOSED \<Rightarrow> open_closed_zone cfg zone explicit s
      | _ \<Rightarrow> Some (BLK_STS_IOERR, s))
   }"

text \<open>What leaving the current condition takes off the counters.\<close>

definition leave_open :: "blk_zone_cond \<Rightarrow> 'r zoned_state \<Rightarrow> 'r zoned_state" where
  "leave_open cond s =
     (let s = (if cond = BLK_ZONE_COND_IMP_OPEN
               then s\<lparr>num_imp_open_zones := num_imp_open_zones s - 1\<rparr> else s)
      in if cond \<in> {BLK_ZONE_COND_IMP_OPEN, BLK_ZONE_COND_EXP_OPEN}
         then s\<lparr>num_open_zones := num_open_zones s - 1\<rparr> else s)"

definition leave_active :: "blk_zone_cond \<Rightarrow> 'r zoned_state \<Rightarrow> 'r zoned_state" where
  "leave_active cond s =
     (let s = leave_open cond s
      in if cond \<in> {BLK_ZONE_COND_IMP_OPEN, BLK_ZONE_COND_EXP_OPEN, BLK_ZONE_COND_CLOSED}
         then s\<lparr>num_active_zones := num_active_zones s - 1\<rparr> else s)"

definition mark_zone_full_locked ::
  "nat \<Rightarrow> 'r zoned_state \<Rightarrow> (blk_status \<times> 'r zoned_state) option" where
  "mark_zone_full_locked zone s = do {
     z \<leftarrow> get_zone s zone;
     Some (if z_cond z \<in> {BLK_ZONE_COND_IMP_OPEN, BLK_ZONE_COND_EXP_OPEN, BLK_ZONE_COND_CLOSED,
                            BLK_ZONE_COND_EMPTY, BLK_ZONE_COND_FULL}
           then (BLK_STS_OK, put_zone zone (z\<lparr>z_cond := BLK_ZONE_COND_FULL, z_wp := z_start z + z_len z\<rparr>)
                               (leave_active (z_cond z) s))
           else (BLK_STS_IOERR, s))
   }"

section \<open>The operations\<close>

definition zoned_read :: "zoned_config \<Rightarrow> 'r raw_ops \<Rightarrow> 'r zoned_state read_op" where
  "zoned_read cfg raw data offset len m s = do {
     let zone = zone_number cfg offset;
     t \<leftarrow> get_stat s zone;
     let s = put_stat zone (t\<lparr>st_read := st_read t + len\<rparr>) s;
     (st, m, r) \<leftarrow> raw_read raw data offset len m (raw_store s);
     Some (st, m, s\<lparr>raw_store := r\<rparr>)
   }"

text \<open>The switch of \<open>zoned_write_common\<close>: an empty or closed zone is opened implicitly.\<close>

definition open_for_write ::
  "zoned_config \<Rightarrow> nat \<Rightarrow> blk_zone_cond \<Rightarrow> 'r zoned_state \<Rightarrow> (blk_status \<times> 'r zoned_state) option" where
  "open_for_write cfg zone cond s =
     (if cond \<in> {BLK_ZONE_COND_EMPTY, BLK_ZONE_COND_CLOSED} then open_zone_locked cfg zone False s
      else if cond \<in> {BLK_ZONE_COND_IMP_OPEN, BLK_ZONE_COND_EXP_OPEN} then Some (BLK_STS_OK, s)
      else Some (BLK_STS_IOERR, s))"

text \<open>
  The part of \<open>zoned_write_common\<close> under the zone's lock that concerns a sequential zone; \<open>Inl\<close> is
  the jump to \<^verbatim>\<open>out_unlock\<close>.
\<close>

definition advance_zone ::
  "zoned_config \<Rightarrow> nat \<Rightarrow> off64 \<Rightarrow> u64 \<Rightarrow> 'r zoned_state
     \<Rightarrow> ((blk_status \<times> 'r zoned_state) + 'r zoned_state) option" where
  "advance_zone cfg zone offset len s = do {
     z \<leftarrow> get_zone s zone;
     (if (z_start z + z_capacity z) * of_nat SECTOR_SIZE < offset + len
      then Some (Inl (BLK_STS_IOERR, s))
      else do {
        (result, s) \<leftarrow> open_for_write cfg zone (z_cond z) s;
        (if result \<noteq> BLK_STS_OK then Some (Inl (result, s))
         else do {
           z \<leftarrow> get_zone s zone;
           let z = z\<lparr>z_wp := z_wp z + len div of_nat SECTOR_SIZE\<rparr>;
           let s = put_zone zone z s;
           (if z_wp z = z_start z + z_capacity z
            then do { (_, s) \<leftarrow> mark_zone_full_locked zone s; Some (Inr s) }
            else Some (Inr s))
         })
      })
   }"

text \<open>\<open>want\<close> says that the position pointer is not null; the middle component is what is stored there.\<close>

definition zoned_write_common ::
  "zoned_config \<Rightarrow> 'r raw_ops \<Rightarrow> bool \<Rightarrow> 'r zoned_state append_op" where
  "zoned_write_common cfg raw appending data offset len want m s = do {
     let zone = zone_number cfg offset;
     z \<leftarrow> get_zone s zone;
     let seq = (z_type z \<noteq> BLK_ZONE_TYPE_CONVENTIONAL);
     let position = (if seq \<and> appending then z_wp z * of_nat SECTOR_SIZE else offset);
     let out = (if seq \<and> appending \<and> want then Some position else None);
     r \<leftarrow> (if \<not> seq then Some (if appending then Inl (BLK_STS_IOERR, s) else Inr s)
          else if \<not> appending \<and> z_wp z * of_nat SECTOR_SIZE \<noteq> offset then Some (Inl (BLK_STS_IOERR, s))
          else advance_zone cfg zone position len s);
     (case r of
        Inl (result, s) \<Rightarrow> Some (result, out, s)
      | Inr s \<Rightarrow> do {
          t \<leftarrow> get_stat s zone;
          let s = put_stat zone (t\<lparr>st_written := st_written t + len\<rparr>) s;
          (st, r) \<leftarrow> raw_write raw data position len m (raw_store s);
          Some (st, out, s\<lparr>raw_store := r\<rparr>)
        })
   }"

definition zoned_write :: "zoned_config \<Rightarrow> 'r raw_ops \<Rightarrow> 'r zoned_state write_op" where
  "zoned_write cfg raw data offset len m s =
     map_option (\<lambda>(st, _, s). (st, s)) (zoned_write_common cfg raw False data offset len False m s)"

definition zoned_append_zone :: "zoned_config \<Rightarrow> 'r raw_ops \<Rightarrow> 'r zoned_state append_op" where
  "zoned_append_zone cfg raw = zoned_write_common cfg raw True"

definition zoned_open_zone :: "zoned_config \<Rightarrow> 'r zoned_state zone_op" where
  "zoned_open_zone cfg offset s = do {
     let zone = zone_number cfg offset;
     z \<leftarrow> get_zone s zone;
     (if z_cond z \<in> {BLK_ZONE_COND_EMPTY, BLK_ZONE_COND_IMP_OPEN, BLK_ZONE_COND_CLOSED}
      then open_zone_locked cfg zone True s
      else if z_cond z = BLK_ZONE_COND_EXP_OPEN then Some (BLK_STS_OK, s)
      else Some (BLK_STS_IOERR, s))
   }"

definition zoned_close_zone :: "zoned_config \<Rightarrow> 'r zoned_state zone_op" where
  "zoned_close_zone cfg offset s = do {
     let zone = zone_number cfg offset;
     z \<leftarrow> get_zone s zone;
     (if z_cond z \<in> {BLK_ZONE_COND_IMP_OPEN, BLK_ZONE_COND_EXP_OPEN, BLK_ZONE_COND_CLOSED}
      then (let s = leave_open (z_cond z) s in
            Some (BLK_STS_OK,
              if z_wp z = z_start z
              then (put_zone zone (z\<lparr>z_cond := BLK_ZONE_COND_EMPTY\<rparr>) s)
                     \<lparr>num_active_zones := num_active_zones s - 1\<rparr>
              else put_zone zone (z\<lparr>z_cond := BLK_ZONE_COND_CLOSED\<rparr>) s))
      else Some (BLK_STS_IOERR, s))
   }"

text \<open>The result of \<open>mark_zone_full_locked\<close> is dropped.\<close>

definition zoned_finish_zone :: "zoned_config \<Rightarrow> 'r zoned_state zone_op" where
  "zoned_finish_zone cfg offset s = do {
     (_, s) \<leftarrow> mark_zone_full_locked (zone_number cfg offset) s;
     Some (BLK_STS_OK, s)
   }"

definition zoned_reset_zone :: "zoned_config \<Rightarrow> 'r raw_ops \<Rightarrow> 'r zoned_state zone_op" where
  "zoned_reset_zone cfg raw offset s = do {
     let zone = zone_number cfg offset;
     z \<leftarrow> get_zone s zone;
     t \<leftarrow> get_stat s zone;
     let s = put_stat zone (t\<lparr>st_reset_count := st_reset_count t + 1,
               st_discard_count := st_discard_count t + (z_wp z - z_start z) * of_nat SECTOR_SIZE\<rparr>) s;
     (if z_cond z = BLK_ZONE_COND_EMPTY then Some (BLK_STS_OK, s)
      else if z_cond z \<in> {BLK_ZONE_COND_IMP_OPEN, BLK_ZONE_COND_EXP_OPEN, BLK_ZONE_COND_CLOSED,
                           BLK_ZONE_COND_FULL}
      then do {
        let s = put_zone zone (z\<lparr>z_cond := BLK_ZONE_COND_EMPTY, z_wp := z_start z\<rparr>)
                  (leave_active (z_cond z) s);
        (st, r) \<leftarrow> raw_discard raw (z_start z * of_nat SECTOR_SIZE) (z_len z * of_nat SECTOR_SIZE)
                    (raw_store s);
        Some (st, s\<lparr>raw_store := r\<rparr>)
      }
      else Some (BLK_STS_IOERR, s))
   }"

definition zoned_reset_all_zone :: "zoned_config \<Rightarrow> 'r raw_ops \<Rightarrow> 'r zoned_state dev_op" where
  "zoned_reset_all_zone cfg raw s = do {
     s \<leftarrow> initialize_zone_info cfg s;
     (st, r) \<leftarrow> raw_discard raw 0 (zoned_disk_size cfg) (raw_store s);
     Some (st, s\<lparr>raw_store := r\<rparr>)
   }"

text \<open>
  Reporting zones. The layout of a zone descriptor belongs to a kernel header: \<open>enc\<close> gives the 64
  bytes of one. The number of zones left is computed as an unsigned difference, and compared with
  \<^verbatim>\<open>nr_zones\<close> converted to that type.
\<close>

fun report_loop ::
  "(blk_zone \<Rightarrow> byte list) \<Rightarrow> nat \<Rightarrow> nat \<Rightarrow> nat \<Rightarrow> 'r zoned_state \<Rightarrow> mem \<Rightarrow> mem option" where
  "report_loop enc zones start 0 s m = Some m"
| "report_loop enc zones start (Suc n) s m = do {
     z \<leftarrow> get_zone s start;
     report_loop enc (zones + SIZEOF_BLK_ZONE) (Suc start) n s (mem_write m zones (enc z))
   }"

definition zoned_report_zones ::
  "zoned_config \<Rightarrow> (blk_zone \<Rightarrow> byte list) \<Rightarrow> 'r zoned_state report_op" where
  "zoned_report_zones cfg enc offset nr_zones zones m s =
     (let start_zone = zone_number cfg offset;
          left = (of_nat (num_zones cfg) - of_nat start_zone :: u64);
          nr = (if left < (word_of_int nr_zones :: u64) then to_c_int (uint left) else nr_zones)
      in map_option (Pair nr) (report_loop enc zones start_zone (nat nr) s m))"

definition get_zoned_operations ::
  "zoned_config \<Rightarrow> 'r raw_ops \<Rightarrow> (blk_zone \<Rightarrow> byte list) \<Rightarrow> 'r zoned_state bius_operations" where
  "get_zoned_operations cfg raw enc =
     \<lparr>op_read = Some (zoned_read cfg raw), op_write = Some (zoned_write cfg raw), op_discard = None,
      op_flush = None, op_report_zones = Some (zoned_report_zones cfg enc),
      op_open_zone = Some (zoned_open_zone cfg), op_close_zone = Some (zoned_close_zone cfg),
      op_finish_zone = Some (zoned_finish_zone cfg), op_append_zone = Some (zoned_append_zone cfg raw),
      op_reset_zone = Some (zoned_reset_zone cfg raw), op_reset_all_zone = Some (zoned_reset_all_zone cfg raw)\<rparr>"

section \<open>The two programs\<close>

text \<open>zoned-ramdisk.c: 1024 zones of 32 MiB over the ramdisk, and a flush that does nothing.\<close>

definition zoned_ramdisk_config :: zoned_config where
  "zoned_ramdisk_config = \<lparr>ZONE_SIZE = 32 * 1024 * 1024, zoned_disk_size = of_nat RAMDISK_SIZE,
     zone_size = 32 * 1024 * 1024, num_conventional_zones = 0, max_open_zones = 32, max_active_zones = 64\<rparr>"

definition ramdisk_raw :: "ramdisk raw_ops" where
  "ramdisk_raw = \<lparr>raw_read = ramdisk_read, raw_write = ramdisk_write, raw_discard = ramdisk_discard\<rparr>"

definition lift_flush :: "'r dev_op \<Rightarrow> 'r zoned_state dev_op" where
  "lift_flush f s = map_option (\<lambda>(st, r). (st, s\<lparr>raw_store := r\<rparr>)) (f (raw_store s))"

definition zoned_ramdisk_operations :: "(blk_zone \<Rightarrow> byte list) \<Rightarrow> ramdisk zoned_state bius_operations" where
  "zoned_ramdisk_operations enc =
     (get_zoned_operations zoned_ramdisk_config ramdisk_raw enc)\<lparr>op_flush := Some (lift_flush ramdisk_flush)\<rparr>"

text \<open>
  The totals the interrupt handler of zoned-ramdisk.c prints: bytes read, written and discarded.
\<close>

fun sigint_totals :: "zone_stat list \<Rightarrow> u64 \<times> u64 \<times> u64 \<Rightarrow> u64 \<times> u64 \<times> u64" where
  "sigint_totals [] totals = totals"
| "sigint_totals (t # ts) (r, w, d) =
     sigint_totals ts (r + st_read t, w + st_written t, d + st_discard_count t)"

text \<open>zoned-passthrough.c: zones of 512 MiB over the target, whose size is rounded down to whole zones.\<close>

definition zoned_passthrough_config :: "u64 \<Rightarrow> zoned_config" where
  "zoned_passthrough_config target_bytes =
     \<lparr>ZONE_SIZE = 512 * 1024 * 1024,
      zoned_disk_size = target_bytes - target_bytes mod (512 * 1024 * 1024),
      zone_size = 512 * 1024 * 1024, num_conventional_zones = 0, max_open_zones = 32, max_active_zones = 64\<rparr>"

definition passthrough_raw :: "'f file_api \<Rightarrow> 'f raw_ops" where
  "passthrough_raw api = \<lparr>raw_read = passthrough_read api, raw_write = passthrough_write api,
     raw_discard = passthrough_discard api\<rparr>"

definition zoned_passthrough_operations ::
  "u64 \<Rightarrow> 'f file_api \<Rightarrow> (blk_zone \<Rightarrow> byte list) \<Rightarrow> 'f zoned_state bius_operations" where
  "zoned_passthrough_operations target_bytes api enc =
     (get_zoned_operations (zoned_passthrough_config target_bytes) (passthrough_raw api) enc)
       \<lparr>op_flush := Some (lift_flush (passthrough_flush api))\<rparr>"

end
