(* ===== verification/Bius_Zoned_Invariant.thy ===== *)
theory Bius_Zoned_Invariant
  imports Bius_Zoned
begin

text \<open>
  The invariant of the zoned emulation and its preservation by every operation. The counters of
  open and of implicitly open zones are exact and within their limits, the counter of active zones
  is an upper bound of the active zones (it can be larger, see the findings), the layout of the
  zones never changes and every write pointer stays inside its zone.
\<close>

section \<open>The invariant\<close>

definition is_imp :: "blk_zone_cond \<Rightarrow> bool" where
  "is_imp c = (c = BLK_ZONE_COND_IMP_OPEN)"

definition is_open :: "blk_zone_cond \<Rightarrow> bool" where
  "is_open c = (c \<in> {BLK_ZONE_COND_IMP_OPEN, BLK_ZONE_COND_EXP_OPEN})"

definition is_active :: "blk_zone_cond \<Rightarrow> bool" where
  "is_active c = (is_open c \<or> c = BLK_ZONE_COND_CLOSED)"

definition zcount :: "(blk_zone_cond \<Rightarrow> bool) \<Rightarrow> 'r zoned_state \<Rightarrow> nat" where
  "zcount P s = length (filter (\<lambda>z. P (z_cond z)) (zone_info s))"

text \<open>Sectors per zone, and the configurations the emulation is meant for.\<close>

definition zsectors :: "zoned_config \<Rightarrow> nat" where
  "zsectors cfg = nat (ZONE_SIZE cfg) div SECTOR_SIZE"

definition cfg_ok :: "zoned_config \<Rightarrow> bool" where
  "cfg_ok cfg \<longleftrightarrow> 0 < ZONE_SIZE cfg \<and> int SECTOR_SIZE dvd ZONE_SIZE cfg \<and>
     zsectors cfg * num_zones cfg < 2 ^ 31 \<and> unat (num_conventional_zones cfg) \<le> num_zones cfg"

definition zone_ok :: "zoned_config \<Rightarrow> nat \<Rightarrow> blk_zone \<Rightarrow> bool" where
  "zone_ok cfg i z \<longleftrightarrow>
     z_start z = of_nat (zsectors cfg * i) \<and> z_len z = of_nat (zsectors cfg) \<and>
     z_capacity z = of_nat (zsectors cfg) \<and>
     unat (z_start z) \<le> unat (z_wp z) \<and> unat (z_wp z) \<le> zsectors cfg * i + zsectors cfg \<and>
     (z_cond z = BLK_ZONE_COND_FULL \<longleftrightarrow> unat (z_wp z) = zsectors cfg * i + zsectors cfg) \<and>
     (if i < unat (num_conventional_zones cfg)
      then z_type z = BLK_ZONE_TYPE_CONVENTIONAL \<and> z_cond z = BLK_ZONE_COND_NOT_WP
      else z_type z = BLK_ZONE_TYPE_SEQWRITE_REQ \<and>
           z_cond z \<in> {BLK_ZONE_COND_EMPTY, BLK_ZONE_COND_IMP_OPEN, BLK_ZONE_COND_EXP_OPEN,
                       BLK_ZONE_COND_CLOSED, BLK_ZONE_COND_FULL})"

definition zones_ok :: "zoned_config \<Rightarrow> 'r zoned_state \<Rightarrow> bool" where
  "zones_ok cfg s \<longleftrightarrow> length (zone_info s) = num_zones cfg \<and> length (zone_stats s) = num_zones cfg \<and>
     (\<forall>i < num_zones cfg. zone_ok cfg i (zone_info s ! i))"

definition counters_ok :: "zoned_config \<Rightarrow> 'r zoned_state \<Rightarrow> bool" where
  "counters_ok cfg s \<longleftrightarrow>
     unat (num_open_zones s) = zcount is_open s \<and> unat (num_imp_open_zones s) = zcount is_imp s \<and>
     zcount is_active s \<le> unat (num_active_zones s) \<and>
     num_open_zones s \<le> max_open_zones cfg \<and> num_active_zones s \<le> max_active_zones cfg"

definition zinv :: "zoned_config \<Rightarrow> 'r zoned_state \<Rightarrow> bool" where
  "zinv cfg s \<longleftrightarrow> zones_ok cfg s \<and> counters_ok cfg s"

section \<open>Counting\<close>

lemma length_filter_update:
  "i < length xs \<Longrightarrow>
     length (filter P (xs[i := x])) + of_bool (P (xs ! i)) = length (filter P xs) + of_bool (P x)"
proof (induction xs arbitrary: i)
  case (Cons y ys)
  then show ?case by (cases i) auto
qed simp

lemma length_filter_mono:
  "(\<And>x. P x \<Longrightarrow> Q x) \<Longrightarrow> length (filter P xs) \<le> length (filter Q xs)"
  by (induction xs) auto

lemma zcount_update:
  assumes "zone_info s' = (zone_info s)[i := z']" "i < length (zone_info s)"
  shows "zcount P s' + of_bool (P (z_cond (zone_info s ! i))) = zcount P s + of_bool (P (z_cond z'))"
  using length_filter_update [OF assms(2), of "\<lambda>z. P (z_cond z)" z'] assms(1) by (simp add: zcount_def)

lemma zcount_pos: "i < length (zone_info s) \<Longrightarrow> P (z_cond (zone_info s ! i)) \<Longrightarrow> 0 < zcount P s"
  by (auto simp: zcount_def filter_empty_conv dest: nth_mem)

lemma zcount_exists: "0 < zcount P s \<Longrightarrow> \<exists>i < length (zone_info s). P (z_cond (zone_info s ! i))"
  by (auto simp: zcount_def filter_empty_conv in_set_conv_nth)

lemma get_zone_in: "zones_ok cfg s \<Longrightarrow> get_zone s i = Some z \<longleftrightarrow> i < num_zones cfg \<and> z = zone_info s ! i"
  by (auto simp: get_zone_def zones_ok_def)

lemma zones_okD: "zones_ok cfg s \<Longrightarrow> get_zone s i = Some z \<Longrightarrow> zone_ok cfg i z"
  by (auto simp: get_zone_in) (simp add: zones_ok_def)

text \<open>One zone changes and the counters follow.\<close>

lemma zones_ok_update:
  assumes "zones_ok cfg s" "get_zone s i = Some z" "zone_ok cfg i z'"
    and "zone_info s' = (zone_info s)[i := z']" "length (zone_stats s') = length (zone_stats s)"
  shows "zones_ok cfg s'"
  using assms by (auto simp: zones_ok_def nth_list_update get_zone_def split: if_splits)

definition moved :: "(blk_zone_cond \<Rightarrow> bool) \<Rightarrow> blk_zone_cond \<Rightarrow> blk_zone_cond \<Rightarrow> u32 \<Rightarrow> u32 \<Rightarrow> bool" where
  "moved P c c' n n' \<longleftrightarrow> unat n' + of_bool (P c) = unat n + of_bool (P c')"

lemma zinv_update:
  assumes inv: "zinv cfg s" and z: "get_zone s i = Some z" and z': "zone_ok cfg i z'"
    and s': "zone_info s' = (zone_info s)[i := z']" "length (zone_stats s') = length (zone_stats s)"
    and op: "moved is_open (z_cond z) (z_cond z') (num_open_zones s) (num_open_zones s')"
    and imp: "moved is_imp (z_cond z) (z_cond z') (num_imp_open_zones s) (num_imp_open_zones s')"
    and act: "unat (num_active_zones s) + of_bool (is_active (z_cond z')) \<le>
              unat (num_active_zones s') + of_bool (is_active (z_cond z))"
    and lim: "num_open_zones s' \<le> max_open_zones cfg" "num_active_zones s' \<le> max_active_zones cfg"
  shows "zinv cfg s'"
proof -
  have ok: "zones_ok cfg s" "counters_ok cfg s" using inv by (simp_all add: zinv_def)
  have i: "i < length (zone_info s)" "z = zone_info s ! i"
    using get_zone_in [OF ok(1), of i z] z ok(1) by (auto simp: zones_ok_def)
  note cnt = zcount_update [OF s'(1) i(1)]
  have "counters_ok cfg s'"
    using ok(2) op imp act lim cnt [of is_open] cnt [of is_imp] cnt [of is_active]
    by (simp add: counters_ok_def moved_def i(2))
  then show ?thesis
    using zones_ok_update [OF ok(1) z z' s'] by (simp add: zinv_def)
qed

lemma zinv_zone_nonzero:
  assumes "zinv cfg s" "get_zone s i = Some z"
  shows "is_open (z_cond z) \<Longrightarrow> 0 < unat (num_open_zones s)"
    and "is_imp (z_cond z) \<Longrightarrow> 0 < unat (num_imp_open_zones s)"
    and "is_active (z_cond z) \<Longrightarrow> 0 < unat (num_active_zones s)"
proof -
  have ok: "zones_ok cfg s" "counters_ok cfg s" using assms(1) by (simp_all add: zinv_def)
  have i: "i < length (zone_info s)" "z = zone_info s ! i"
    using get_zone_in [OF ok(1), of i z] assms(2) ok(1) by (auto simp: zones_ok_def)
  show "is_open (z_cond z) \<Longrightarrow> 0 < unat (num_open_zones s)"
    "is_imp (z_cond z) \<Longrightarrow> 0 < unat (num_imp_open_zones s)"
    "is_active (z_cond z) \<Longrightarrow> 0 < unat (num_active_zones s)"
    using zcount_pos [OF i(1), of is_open] zcount_pos [OF i(1), of is_imp] zcount_pos [OF i(1), of is_active]
      ok(2) i(2) by (simp_all add: counters_ok_def)
qed

section \<open>Preservation\<close>

lemma put_zone_sel [simp]:
  "zone_info (put_zone i z s) = (zone_info s)[i := z]" "zone_stats (put_zone i z s) = zone_stats s"
  "num_open_zones (put_zone i z s) = num_open_zones s"
  "num_imp_open_zones (put_zone i z s) = num_imp_open_zones s"
  "num_active_zones (put_zone i z s) = num_active_zones s" "raw_store (put_zone i z s) = raw_store s"
  by (simp_all add: put_zone_def)

lemma put_zone_twice [simp]: "put_zone i a (put_zone i b s) = put_zone i a s"
  by (simp add: put_zone_def)

lemma leave_sel [simp]:
  "zone_info (leave_open c s) = zone_info s" "zone_stats (leave_open c s) = zone_stats s"
  "raw_store (leave_open c s) = raw_store s" "num_active_zones (leave_open c s) = num_active_zones s"
  "zone_info (leave_active c s) = zone_info s" "zone_stats (leave_active c s) = zone_stats s"
  "raw_store (leave_active c s) = raw_store s"
  "num_open_zones (leave_active c s) = num_open_zones (leave_open c s)"
  "num_imp_open_zones (leave_active c s) = num_imp_open_zones (leave_open c s)"
  by (simp_all add: leave_open_def leave_active_def Let_def)

lemma leave_counts:
  "num_open_zones (leave_open c s) = (if is_open c then num_open_zones s - 1 else num_open_zones s)"
  "num_imp_open_zones (leave_open c s) = (if is_imp c then num_imp_open_zones s - 1 else num_imp_open_zones s)"
  "num_active_zones (leave_active c s) = (if is_active c then num_active_zones s - 1 else num_active_zones s)"
  by (auto simp: leave_open_def leave_active_def Let_def is_open_def is_imp_def is_active_def)

lemma get_zone_simps [simp]:
  "get_zone (put_zone i z s) j = (if i = j \<and> i < length (zone_info s) then Some z else get_zone s j)"
  "get_zone (s\<lparr>num_open_zones := a\<rparr>) = get_zone s" "get_zone (s\<lparr>num_imp_open_zones := a\<rparr>) = get_zone s"
  "get_zone (put_stat i t s) = get_zone s"
  "get_zone (s\<lparr>num_active_zones := a\<rparr>) = get_zone s" "get_zone (s\<lparr>raw_store := r\<rparr>) = get_zone s"
  by (auto simp: get_zone_def fun_eq_iff put_stat_def)

lemma get_zone_length: "get_zone s i = Some z \<Longrightarrow> i < length (zone_info s)"
  by (simp add: get_zone_def split: if_splits)

lemma zinv_raw [simp]: "zinv cfg (s\<lparr>raw_store := r\<rparr>) = zinv cfg s"
  by (simp add: zinv_def zones_ok_def counters_ok_def zcount_def)

lemma zinv_put_stat [simp]: "zinv cfg (put_stat i t s) = zinv cfg s"
  by (simp add: zinv_def zones_ok_def counters_ok_def zcount_def put_stat_def)

lemmas zcond_defs = is_open_def is_imp_def is_active_def

text \<open>A zone changes its condition and leaves the open and active sets it was in.\<close>

lemma zinv_leave_active:
  assumes inv: "zinv cfg s" and z: "get_zone s i = Some z" and z': "zone_ok cfg i z'"
    and c: "\<not> is_active (z_cond z')"
  shows "zinv cfg (put_zone i z' (leave_active (z_cond z) s))"
proof (rule zinv_update [OF inv z z'])
  have c': "\<not> is_open (z_cond z')" "\<not> is_imp (z_cond z')" using c by (auto simp: zcond_defs)
  note pos = zinv_zone_nonzero [OF inv z]
  show "moved is_open (z_cond z) (z_cond z') (num_open_zones s)
      (num_open_zones (put_zone i z' (leave_active (z_cond z) s)))"
    "moved is_imp (z_cond z) (z_cond z') (num_imp_open_zones s)
      (num_imp_open_zones (put_zone i z' (leave_active (z_cond z) s)))"
    using pos c' by (auto simp: moved_def leave_counts unat_dec)
  show "unat (num_active_zones s) + of_bool (is_active (z_cond z')) \<le>
      unat (num_active_zones (put_zone i z' (leave_active (z_cond z) s))) + of_bool (is_active (z_cond z))"
    using pos c by (auto simp: leave_counts unat_dec)
  show "num_open_zones (put_zone i z' (leave_active (z_cond z) s)) \<le> max_open_zones cfg"
    "num_active_zones (put_zone i z' (leave_active (z_cond z) s)) \<le> max_active_zones cfg"
    using pos inv by (auto simp: leave_counts zinv_def counters_ok_def word_dec_le)
qed simp_all

lemma zone_ok_cond:
  assumes "zone_ok cfg i z" "z_cond z \<notin> {BLK_ZONE_COND_NOT_WP, BLK_ZONE_COND_FULL}"
    and "c \<in> {BLK_ZONE_COND_EMPTY, BLK_ZONE_COND_IMP_OPEN, BLK_ZONE_COND_EXP_OPEN, BLK_ZONE_COND_CLOSED}"
  shows "zone_ok cfg i (z\<lparr>z_cond := c\<rparr>)"
  using assms by (auto simp: zone_ok_def split: if_splits)

lemma close_imp_open_loop_zinv:
  assumes "zinv cfg s" "\<forall>i \<in> set zs. i < num_zones cfg"
  shows "\<exists>s'. close_imp_open_loop skip zs s = Some s' \<and> zinv cfg s' \<and> get_zone s' skip = get_zone s skip \<and>
    num_active_zones s' = num_active_zones s \<and> raw_store s' = raw_store s \<and> zone_stats s' = zone_stats s \<and>
    ((\<exists>i \<in> set zs. i \<noteq> skip \<and> is_imp (z_cond (zone_info s ! i))) \<longrightarrow>
       unat (num_open_zones s') < unat (num_open_zones s))"
  using assms(2)
proof (induction zs)
  case Nil
  then show ?case using assms(1) by simp
next
  case (Cons i zs)
  have ok: "zones_ok cfg s" using assms(1) by (simp add: zinv_def)
  have z: "get_zone s i = Some (zone_info s ! i)" using Cons.prems get_zone_in [OF ok] by simp
  let ?z = "zone_info s ! i"
  show ?case
  proof (cases "i \<noteq> skip \<and> z_cond ?z = BLK_ZONE_COND_IMP_OPEN")
    case True
    let ?s = "(put_zone i (?z\<lparr>z_cond := BLK_ZONE_COND_CLOSED\<rparr>) s)
       \<lparr>num_open_zones := num_open_zones s - 1, num_imp_open_zones := num_imp_open_zones s - 1\<rparr>"
    have pos: "0 < unat (num_open_zones s)" "0 < unat (num_imp_open_zones s)"
      using zinv_zone_nonzero [OF assms(1) z] True by (auto simp: zcond_defs)
    have "zinv cfg ?s"
      by (rule zinv_update [OF assms(1) z, where z' = "?z\<lparr>z_cond := BLK_ZONE_COND_CLOSED\<rparr>"])
        (use True pos zone_ok_cond [OF zones_okD [OF ok z]] assms(1) in
          \<open>auto simp: moved_def zcond_defs unat_dec word_dec_le zinv_def counters_ok_def\<close>)
    then show ?thesis using True z pos by (simp add: unat_dec)
  next
    case False
    then have "close_imp_open_loop skip (i # zs) s = close_imp_open_loop skip zs s" using z by auto
    then show ?thesis using Cons False by (auto simp: is_imp_def)
  qed
qed

lemma close_imp_open_zone_zinv:
  assumes inv: "zinv cfg s" and imp: "0 < num_imp_open_zones s"
    and z: "get_zone s zone = Some z" "\<not> is_imp (z_cond z)"
  shows "\<exists>s'. close_imp_open_zone cfg zone s = Some s' \<and> zinv cfg s' \<and> get_zone s' zone = get_zone s zone \<and>
    num_active_zones s' = num_active_zones s \<and> raw_store s' = raw_store s \<and> zone_stats s' = zone_stats s \<and>
    unat (num_open_zones s') < unat (num_open_zones s)"
proof -
  have ok: "zones_ok cfg s" using inv by (simp add: zinv_def)
  have "0 < zcount is_imp s" using inv imp by (simp add: zinv_def counters_ok_def word_less_nat_alt)
  then obtain i where i: "i < num_zones cfg" "is_imp (z_cond (zone_info s ! i))"
    using zcount_exists [of is_imp s] ok by (auto simp: zones_ok_def)
  have "zone_ok cfg i (zone_info s ! i)" using ok i(1) by (simp add: zones_ok_def)
  then have "unat (num_conventional_zones cfg) \<le> i"
    using i(2) by (auto simp: zone_ok_def is_imp_def split: if_splits)
  moreover have "i \<noteq> zone" using z i(2) get_zone_in [OF ok, of zone z] by auto
  ultimately show ?thesis
    using close_imp_open_loop_zinv [OF inv, of "[unat (num_conventional_zones cfg) ..< num_zones cfg]" zone] i
    unfolding close_imp_open_zone_def by (force simp: Bex_def)
qed

text \<open>
  Opening a zone: it is defined, keeps the invariant and the raw store, and changes nothing of
  the zone but its condition.
\<close>

definition opens :: "zoned_config \<Rightarrow> nat \<Rightarrow> blk_zone \<Rightarrow> 'r zoned_state \<Rightarrow> 'r zoned_state \<Rightarrow> bool" where
  "opens cfg zone z s s' \<longleftrightarrow> zinv cfg s' \<and> raw_store s' = raw_store s \<and> zone_stats s' = zone_stats s \<and>
     (\<exists>c. get_zone s' zone = Some (z\<lparr>z_cond := c\<rparr>) \<and>
          (c = z_cond z \<or> c \<in> {BLK_ZONE_COND_IMP_OPEN, BLK_ZONE_COND_EXP_OPEN}))"

lemma opens_refl: "zinv cfg s \<Longrightarrow> get_zone s zone = Some z \<Longrightarrow> opens cfg zone z s s"
  by (auto simp: opens_def intro!: exI [of _ "z_cond z"])

text \<open>Counting one more active zone keeps the invariant, below the limit.\<close>

lemma zinv_more_active:
  assumes "zinv cfg s" "num_active_zones s < max_active_zones cfg"
  shows "zinv cfg (s\<lparr>num_active_zones := num_active_zones s + 1\<rparr>)"
  using assms
  by (auto simp: zinv_def zones_ok_def counters_ok_def zcount_def unat_inc_less word_inc_le)

lemma zinv_open:
  assumes inv: "zinv cfg s" and z: "get_zone s zone = Some z"
    and cond: "z_cond z = BLK_ZONE_COND_CLOSED \<or>
      z_cond z = BLK_ZONE_COND_EMPTY \<and> zcount is_active s < unat (num_active_zones s)"
    and room: "num_open_zones s < max_open_zones cfg"
    and s': "s' = (put_zone zone (z\<lparr>z_cond := c\<rparr>) s)\<lparr>num_open_zones := num_open_zones s + 1,
        num_imp_open_zones := (if is_imp c then num_imp_open_zones s + 1 else num_imp_open_zones s)\<rparr>"
    and c: "is_open c"
  shows "zinv cfg s'"
proof -
  have ok: "zones_ok cfg s" "counters_ok cfg s" using inv by (simp_all add: zinv_def)
  have i: "zone < length (zone_info s)" "z = zone_info s ! zone"
    using get_zone_in [OF ok(1), of zone z] z ok(1) by (auto simp: zones_ok_def)
  have "zone_ok cfg zone (z\<lparr>z_cond := c\<rparr>)"
    by (rule zone_ok_cond [OF zones_okD [OF ok(1) z]]) (use cond c in \<open>auto simp: is_open_def\<close>)
  from zones_ok_update [OF ok(1) z this, of s'] have "zones_ok cfg s'" by (simp add: s')
  moreover have "counters_ok cfg s'"
  proof -
    have "zone_info s' = (zone_info s)[zone := z\<lparr>z_cond := c\<rparr>]" by (simp add: s')
    note cnt = zcount_update [OF this i(1)]
    have "zcount is_imp s \<le> zcount is_open s"
      unfolding zcount_def by (rule length_filter_mono) (auto simp: zcond_defs)
    then have "num_imp_open_zones s < max_open_zones cfg"
      using ok(2) room by (simp add: counters_ok_def word_less_nat_alt)
    then show ?thesis
      using ok(2) room cond c cnt [of is_open] cnt [of is_imp] cnt [of is_active]
      by (auto simp: counters_ok_def s' zcond_defs unat_inc_less word_inc_le simp flip: i(2))
  qed
  ultimately show ?thesis by (simp add: zinv_def)
qed

lemma open_closed_zone_ok:
  assumes inv: "zinv cfg s" and z: "get_zone s zone = Some z"
    and cond: "z_cond z = BLK_ZONE_COND_CLOSED \<or>
      z_cond z = BLK_ZONE_COND_EMPTY \<and> zcount is_active s < unat (num_active_zones s)"
  shows "\<exists>r s'. open_closed_zone cfg zone explicit s = Some (r, s') \<and> opens cfg zone z s s'"
proof (cases "max_open_zones cfg \<le> num_open_zones s")
  case True
  show ?thesis
  proof (cases "0 < num_imp_open_zones s")
    case imp: True
    have "\<not> is_imp (z_cond z)" using cond by (auto simp: is_imp_def)
    from close_imp_open_zone_zinv [OF inv imp z this] True imp show ?thesis
      using z by (auto simp: open_closed_zone_def opens_def intro!: exI [of _ "z_cond z"])
  qed (use True opens_refl [OF inv z] in \<open>simp add: open_closed_zone_def\<close>)
next
  case False
  let ?c = "if explicit then BLK_ZONE_COND_EXP_OPEN else BLK_ZONE_COND_IMP_OPEN"
  let ?s = "(put_zone zone (z\<lparr>z_cond := ?c\<rparr>) s)\<lparr>num_open_zones := num_open_zones s + 1,
        num_imp_open_zones := (if is_imp ?c then num_imp_open_zones s + 1 else num_imp_open_zones s)\<rparr>"
  have "zinv cfg ?s"
    by (rule zinv_open [OF inv z cond _ refl]) (use False in \<open>auto simp: zcond_defs\<close>)
  moreover have "open_closed_zone cfg zone explicit s = Some (BLK_STS_OK, ?s)"
    using False z by (auto simp: open_closed_zone_def is_imp_def)
  ultimately show ?thesis
    using get_zone_length [OF z] by (auto simp: opens_def)
qed

lemma open_zone_locked_ok:
  assumes inv: "zinv cfg s" and z: "get_zone s zone = Some z"
  shows "\<exists>r s'. open_zone_locked cfg zone explicit s = Some (r, s') \<and> opens cfg zone z s s'"
proof (cases "z_cond z")
  case BLK_ZONE_COND_EMPTY
  show ?thesis
  proof (cases "max_active_zones cfg \<le> num_active_zones s")
    case False
    let ?s = "s\<lparr>num_active_zones := num_active_zones s + 1\<rparr>"
    have inv': "zinv cfg ?s" using zinv_more_active [OF inv] False by simp
    have "zcount is_active ?s < unat (num_active_zones ?s)"
      using inv False by (simp add: zinv_def counters_ok_def zcount_def unat_inc_less [of _ "max_active_zones cfg"])
    from open_closed_zone_ok [OF inv', of zone z] this z BLK_ZONE_COND_EMPTY False show ?thesis
      by (simp add: open_zone_locked_def opens_def)
  qed (use BLK_ZONE_COND_EMPTY z opens_refl [OF inv z] in \<open>simp add: open_zone_locked_def\<close>)
next
  case BLK_ZONE_COND_CLOSED
  with open_closed_zone_ok [OF inv z] z show ?thesis by (simp add: open_zone_locked_def)
next
  case BLK_ZONE_COND_IMP_OPEN
  show ?thesis
  proof (cases explicit)
    case True
    let ?z = "z\<lparr>z_cond := BLK_ZONE_COND_EXP_OPEN\<rparr>"
    have "zone_ok cfg zone ?z"
      by (rule zone_ok_cond [OF zones_okD [OF _ z]]) (use inv BLK_ZONE_COND_IMP_OPEN in \<open>simp_all add: zinv_def\<close>)
    then have "zinv cfg ((put_zone zone ?z s)\<lparr>num_imp_open_zones := num_imp_open_zones s - 1\<rparr>)"
      by (rule zinv_update [OF inv z])
        (use inv BLK_ZONE_COND_IMP_OPEN zinv_zone_nonzero(2) [OF inv z] in
          \<open>auto simp: moved_def zcond_defs unat_dec zinv_def counters_ok_def\<close>)
    then show ?thesis
      using True BLK_ZONE_COND_IMP_OPEN z get_zone_length [OF z] by (auto simp: open_zone_locked_def opens_def)
  qed (use BLK_ZONE_COND_IMP_OPEN z opens_refl [OF inv z] in \<open>simp add: open_zone_locked_def\<close>)
qed (use z opens_refl [OF inv z] in \<open>simp_all add: open_zone_locked_def\<close>)

text \<open>The sector numbers of a zone are small.\<close>

lemma zone_sectors:
  assumes "cfg_ok cfg" "i < num_zones cfg"
  shows "0 < zsectors cfg" "zsectors cfg * i + zsectors cfg < 2 ^ 31"
    "unat (of_nat (zsectors cfg * i) :: u64) = zsectors cfg * i"
    "unat (of_nat (zsectors cfg * i) + of_nat (zsectors cfg) :: u64) = zsectors cfg * i + zsectors cfg"
proof -
  show "0 < zsectors cfg"
    using assms(1) by (auto simp: cfg_ok_def zsectors_def SECTOR_SIZE_def elim!: dvdE)
  have "zsectors cfg * i + zsectors cfg \<le> zsectors cfg * num_zones cfg"
    using assms(2) by (metis Suc_leI mult_Suc_right add.commute mult_le_mono2)
  then show lim: "zsectors cfg * i + zsectors cfg < 2 ^ 31" using assms(1) by (simp add: cfg_ok_def)
  show "unat (of_nat (zsectors cfg * i) :: u64) = zsectors cfg * i"
    using lim by (intro of_nat_inverse [OF refl]) simp
  have "unat (of_nat (zsectors cfg * i + zsectors cfg) :: u64) = zsectors cfg * i + zsectors cfg"
    using lim by (intro of_nat_inverse [OF refl]) simp
  then show "unat (of_nat (zsectors cfg * i) + of_nat (zsectors cfg) :: u64) = zsectors cfg * i + zsectors cfg"
    by simp
qed

lemma zone_ok_full:
  assumes "zone_ok cfg i z" "z_cond z \<noteq> BLK_ZONE_COND_NOT_WP" "cfg_ok cfg" "i < num_zones cfg"
  shows "zone_ok cfg i (z\<lparr>z_cond := BLK_ZONE_COND_FULL, z_wp := z_start z + z_len z\<rparr>)"
  using assms(1,2) zone_sectors [OF assms(3,4)] by (auto simp: zone_ok_def split: if_splits)

lemma zone_ok_empty:
  assumes "zone_ok cfg i z" "z_cond z \<noteq> BLK_ZONE_COND_NOT_WP" "cfg_ok cfg" "i < num_zones cfg"
  shows "zone_ok cfg i (z\<lparr>z_cond := BLK_ZONE_COND_EMPTY, z_wp := z_start z\<rparr>)"
  using assms(1,2) zone_sectors [OF assms(3,4)] by (auto simp: zone_ok_def split: if_splits)

lemma mark_zone_full_ok:
  assumes inv: "zinv cfg s" "cfg_ok cfg" and z: "get_zone s zone = Some z"
  shows "\<exists>r s'. mark_zone_full_locked zone s = Some (r, s') \<and> zinv cfg s' \<and> raw_store s' = raw_store s \<and>
    zone_stats s' = zone_stats s"
proof -
  have ok: "zone_ok cfg zone z" "zone < num_zones cfg"
    using inv z zones_okD [of cfg s zone z] get_zone_in [of cfg s zone z] by (auto simp: zinv_def)
  have "zinv cfg (put_zone zone (z\<lparr>z_cond := BLK_ZONE_COND_FULL, z_wp := z_start z + z_len z\<rparr>)
      (leave_active (z_cond z) s))" if "z_cond z \<noteq> BLK_ZONE_COND_NOT_WP"
    by (rule zinv_leave_active [OF inv(1) z zone_ok_full [OF ok(1) that inv(2) ok(2)]]) (simp add: zcond_defs)
  then show ?thesis using z inv by (auto simp: mark_zone_full_locked_def)
qed

text \<open>
  Arithmetic of a write at the write pointer: a write that passes the check against the end of
  the zone moves the pointer by whole sectors and at most to the end.
\<close>

lemma unat_mult_sector:
  assumes "unat (x :: u64) < 2 ^ 32"
  shows "unat (x * of_nat SECTOR_SIZE) = unat x * SECTOR_SIZE"
  using assms by (simp add: unat_word_ariths SECTOR_SIZE_def)

lemma write_fits:
  assumes cfg: "cfg_ok cfg" "zone < num_zones cfg" and z: "zone_ok cfg zone z"
    and len: "unat len < 2 ^ 62"
    and fits: "\<not> (z_start z + z_capacity z) * of_nat SECTOR_SIZE < z_wp z * of_nat SECTOR_SIZE + len"
  shows "unat (z_wp z * of_nat SECTOR_SIZE) = unat (z_wp z) * SECTOR_SIZE"
    "unat (z_wp z) * SECTOR_SIZE + unat len \<le> (zsectors cfg * zone + zsectors cfg) * SECTOR_SIZE"
    "unat (z_wp z + len div of_nat SECTOR_SIZE) = unat (z_wp z) + unat len div SECTOR_SIZE"
    "unat (z_wp z) + unat len div SECTOR_SIZE \<le> zsectors cfg * zone + zsectors cfg"
proof -
  note sec = zone_sectors [OF cfg]
  have wp: "unat (z_wp z) \<le> zsectors cfg * zone + zsectors cfg" using z by (simp add: zone_ok_def)
  show mul: "unat (z_wp z * of_nat SECTOR_SIZE) = unat (z_wp z) * SECTOR_SIZE"
    by (rule unat_mult_sector) (use wp sec(2) in simp)
  have "unat ((z_start z + z_capacity z) * of_nat SECTOR_SIZE) = (zsectors cfg * zone + zsectors cfg) * SECTOR_SIZE"
    using z sec(2,4) unat_mult_sector [of "z_start z + z_capacity z"] by (simp add: zone_ok_def)
  moreover have "unat (z_wp z * of_nat SECTOR_SIZE + len) = unat (z_wp z) * SECTOR_SIZE + unat len"
    using mul len wp sec(2) by (simp add: unat_word_ariths SECTOR_SIZE_def)
  ultimately show le: "unat (z_wp z) * SECTOR_SIZE + unat len \<le> (zsectors cfg * zone + zsectors cfg) * SECTOR_SIZE"
    using fits by (simp add: word_less_nat_alt)
  have "unat (len div of_nat SECTOR_SIZE) = unat len div SECTOR_SIZE"
    by (simp add: unat_div SECTOR_SIZE_def)
  then show "unat (z_wp z + len div of_nat SECTOR_SIZE) = unat (z_wp z) + unat len div SECTOR_SIZE"
    using wp sec(2) len by (simp add: unat_word_ariths SECTOR_SIZE_def)
  show "unat (z_wp z) + unat len div SECTOR_SIZE \<le> zsectors cfg * zone + zsectors cfg"
    using div_le_mono [OF le, of SECTOR_SIZE] by (simp add: SECTOR_SIZE_def)
qed

lemma zone_ok_wp:
  assumes "zone_ok cfg i z" "z_cond z \<notin> {BLK_ZONE_COND_NOT_WP, BLK_ZONE_COND_FULL}"
    "unat (z_wp z) \<le> unat w" "unat w < zsectors cfg * i + zsectors cfg"
  shows "zone_ok cfg i (z\<lparr>z_wp := w\<rparr>)"
  using assms by (auto simp: zone_ok_def split: if_splits)

text \<open>Moving the write pointer, and marking the zone full when it reaches the end.\<close>

lemma move_wp_ok:
  assumes inv: "zinv cfg s" "cfg_ok cfg" and z: "get_zone s zone = Some z"
    and cond: "z_cond z \<notin> {BLK_ZONE_COND_NOT_WP, BLK_ZONE_COND_FULL}"
    and w: "unat (z_wp z) \<le> unat w" "unat w \<le> zsectors cfg * zone + zsectors cfg"
  shows "\<exists>s'. (if w = z_start z + z_capacity z
      then do { (_, s) \<leftarrow> mark_zone_full_locked zone (put_zone zone (z\<lparr>z_wp := w\<rparr>) s); Some (Inr s) }
      else Some (Inr (put_zone zone (z\<lparr>z_wp := w\<rparr>) s))) = Some (Inr s' :: (blk_status \<times> _) + _) \<and>
    zinv cfg s' \<and> raw_store s' = raw_store s \<and> zone_stats s' = zone_stats s \<and>
    map_option z_wp (get_zone s' zone) = Some w"
proof -
  have ok: "zones_ok cfg s" "zone < num_zones cfg" "zone_ok cfg zone z"
    using inv z zones_okD [of cfg s zone z] get_zone_in [of cfg s zone z] by (auto simp: zinv_def)
  note len = get_zone_length [OF z] and sec = zone_sectors [OF inv(2) ok(2)]
  have cap: "z_start z + z_capacity z = z_start z + z_len z" "unat (z_start z + z_len z) = zsectors cfg * zone + zsectors cfg"
    using ok(3) sec(4) by (simp_all add: zone_ok_def)
  show ?thesis
  proof (cases "w = z_start z + z_capacity z")
    case True
    let ?s = "put_zone zone (z\<lparr>z_cond := BLK_ZONE_COND_FULL, z_wp := z_start z + z_len z\<rparr>) (leave_active (z_cond z) s)"
    have "leave_active c (put_zone zone y s) = put_zone zone y (leave_active c s)" for c y
      by (simp add: leave_active_def leave_open_def put_zone_def Let_def)
    then have "mark_zone_full_locked zone (put_zone zone (z\<lparr>z_wp := w\<rparr>) s) = Some (BLK_STS_OK, ?s)"
      using cond ok(3) len by (auto simp: mark_zone_full_locked_def zone_ok_def split: if_splits)
    moreover have "zinv cfg ?s"
      by (rule zinv_leave_active [OF inv(1) z zone_ok_full [OF ok(3) _ inv(2) ok(2)]])
        (use cond in \<open>auto simp: zcond_defs\<close>)
    ultimately show ?thesis using True cap len by simp
  next
    case False
    then have "unat w < zsectors cfg * zone + zsectors cfg"
      using w(2) cap word_unat_eq_iff [of w "z_start z + z_len z"] by simp
    from zone_ok_wp [OF ok(3) cond w(1) this] have "zinv cfg (put_zone zone (z\<lparr>z_wp := w\<rparr>) s)"
      by (rule zinv_update [OF inv(1) z]) (use inv in \<open>simp_all add: moved_def zinv_def counters_ok_def\<close>)
    then show ?thesis using False len by simp
  qed
qed

lemma open_for_write_ok:
  assumes inv: "zinv cfg s" and z: "get_zone s zone = Some z"
  shows "\<exists>r s'. open_for_write cfg zone (z_cond z) s = Some (r, s') \<and> opens cfg zone z s s' \<and>
    (r = BLK_STS_OK \<longrightarrow> z_cond z \<notin> {BLK_ZONE_COND_NOT_WP, BLK_ZONE_COND_FULL})"
proof (cases "z_cond z \<in> {BLK_ZONE_COND_EMPTY, BLK_ZONE_COND_CLOSED}")
  case True
  with open_zone_locked_ok [OF inv z, of False] show ?thesis by (auto simp: open_for_write_def)
next
  case False
  with opens_refl [OF inv z] show ?thesis
    by (cases "z_cond z") (auto simp: open_for_write_def BLK_STS_OK_def BLK_STS_IOERR_def)
qed

lemma advance_zone_ok:
  assumes inv: "zinv cfg s" "cfg_ok cfg" and z: "get_zone s zone = Some z"
    and len: "unat len < 2 ^ 62"
  shows "(\<exists>st s'. advance_zone cfg zone (z_wp z * of_nat SECTOR_SIZE) len s = Some (Inl (st, s')) \<and>
      st \<noteq> BLK_STS_OK \<and> zinv cfg s' \<and> raw_store s' = raw_store s \<and> zone_stats s' = zone_stats s \<and>
      map_option z_wp (get_zone s' zone) = Some (z_wp z)) \<or>
    (\<exists>s'. advance_zone cfg zone (z_wp z * of_nat SECTOR_SIZE) len s = Some (Inr s') \<and>
      zinv cfg s' \<and> raw_store s' = raw_store s \<and> zone_stats s' = zone_stats s \<and>
      map_option z_wp (get_zone s' zone) = Some (z_wp z + len div of_nat SECTOR_SIZE) \<and>
      unat (z_wp z) * SECTOR_SIZE + unat len \<le> (zsectors cfg * zone + zsectors cfg) * SECTOR_SIZE)"
proof (cases "(z_start z + z_capacity z) * of_nat SECTOR_SIZE < z_wp z * of_nat SECTOR_SIZE + len")
  case True
  then show ?thesis using z inv by (simp add: advance_zone_def BLK_STS_OK_def BLK_STS_IOERR_def)
next
  case False
  have ok: "zone < num_zones cfg" "zone_ok cfg zone z"
    using inv z zones_okD [of cfg s zone z] get_zone_in [of cfg s zone z] by (auto simp: zinv_def)
  note fit = write_fits [OF inv(2) ok len False]
  obtain r s1 where s1: "open_for_write cfg zone (z_cond z) s = Some (r, s1)" "opens cfg zone z s s1"
    "r = BLK_STS_OK \<longrightarrow> z_cond z \<notin> {BLK_ZONE_COND_NOT_WP, BLK_ZONE_COND_FULL}"
    using open_for_write_ok [OF inv(1) z] by blast
  obtain c where c: "get_zone s1 zone = Some (z\<lparr>z_cond := c\<rparr>)"
    "c = z_cond z \<or> c \<in> {BLK_ZONE_COND_IMP_OPEN, BLK_ZONE_COND_EXP_OPEN}" "zinv cfg s1"
    "raw_store s1 = raw_store s" "zone_stats s1 = zone_stats s"
    using s1(2) by (auto simp: opens_def)
  show ?thesis
  proof (cases "r = BLK_STS_OK")
    case True
    let ?w = "z_wp z + len div of_nat SECTOR_SIZE"
    have "z_cond (z\<lparr>z_cond := c\<rparr>) \<notin> {BLK_ZONE_COND_NOT_WP, BLK_ZONE_COND_FULL}" using c(2) s1(3) True by auto
    moreover have "unat (z_wp (z\<lparr>z_cond := c\<rparr>)) \<le> unat ?w" "unat ?w \<le> zsectors cfg * zone + zsectors cfg"
      using fit(3,4) by simp_all
    ultimately obtain s' where mv: "(if ?w = z_start (z\<lparr>z_cond := c\<rparr>) + z_capacity (z\<lparr>z_cond := c\<rparr>)
        then do { (_, s) \<leftarrow> mark_zone_full_locked zone (put_zone zone (z\<lparr>z_cond := c, z_wp := ?w\<rparr>) s1); Some (Inr s) }
        else Some (Inr (put_zone zone (z\<lparr>z_cond := c, z_wp := ?w\<rparr>) s1))) = Some (Inr s' :: (blk_status \<times> 'a zoned_state) + 'a zoned_state)"
      "zinv cfg s'" "raw_store s' = raw_store s1" "zone_stats s' = zone_stats s1"
      "map_option z_wp (get_zone s' zone) = Some ?w"
      using move_wp_ok [OF c(3) inv(2) c(1), of ?w] by auto
    have "advance_zone cfg zone (z_wp z * of_nat SECTOR_SIZE) len s = Some (Inr s')"
      using mv(1) by (auto simp: advance_zone_def z s1(1) True False c(1) Let_def split: if_splits)
    then show ?thesis using mv c(4,5) fit(2) by simp
  next
    case r: False
    then have "advance_zone cfg zone (z_wp z * of_nat SECTOR_SIZE) len s = Some (Inl (r, s1))"
      using z s1(1) False by (simp add: advance_zone_def)
    then show ?thesis using c r by simp
  qed
qed

subsection \<open>The operations\<close>

lemma get_zone_defined: "zinv cfg s \<Longrightarrow> i < num_zones cfg \<Longrightarrow> \<exists>z. get_zone s i = Some z"
  by (auto simp: zinv_def zones_ok_def get_zone_def)

lemma get_stat_defined: "zinv cfg s \<Longrightarrow> i < num_zones cfg \<Longrightarrow> \<exists>t. get_stat s i = Some t"
  by (auto simp: zinv_def zones_ok_def get_stat_def)

lemma zinv_get_zone: "zinv cfg s \<Longrightarrow> get_zone s i = Some z \<Longrightarrow> i < num_zones cfg \<and> zone_ok cfg i z"
  using zones_okD [of cfg s i z] get_zone_in [of cfg s i z] by (auto simp: zinv_def)

lemma zoned_open_zone_zinv:
  assumes "zinv cfg s" "zoned_open_zone cfg offset s = Some (st, s')"
  shows "zinv cfg s' \<and> raw_store s' = raw_store s"
proof -
  obtain z where z: "get_zone s (zone_number cfg offset) = Some z"
    using assms(2) by (auto simp: zoned_open_zone_def Let_def Option.bind_eq_Some_conv)
  show ?thesis
    using open_zone_locked_ok [OF assms(1) z, of True] assms z
    by (auto simp: zoned_open_zone_def Let_def opens_def split: if_splits)
qed

lemma zoned_close_zone_zinv:
  assumes inv: "zinv cfg s" "cfg_ok cfg" and run: "zoned_close_zone cfg offset s = Some (st, s')"
  shows "zinv cfg s' \<and> raw_store s' = raw_store s"
proof -
  let ?i = "zone_number cfg offset"
  obtain z where z: "get_zone s ?i = Some z"
    using run by (auto simp: zoned_close_zone_def Let_def Option.bind_eq_Some_conv)
  have ok: "zone_ok cfg ?i z" "?i < num_zones cfg" using zinv_get_zone [OF inv(1) z] by simp_all
  show ?thesis
  proof (cases "is_active (z_cond z)")
    case True
    show ?thesis
    proof (cases "z_wp z = z_start z")
      case wp: True
      have "zinv cfg (put_zone ?i (z\<lparr>z_cond := BLK_ZONE_COND_EMPTY\<rparr>) (leave_active (z_cond z) s))"
        by (rule zinv_leave_active [OF inv(1) z zone_ok_cond [OF ok(1)]]) (use True in \<open>auto simp: zcond_defs\<close>)
      moreover have "s' = put_zone ?i (z\<lparr>z_cond := BLK_ZONE_COND_EMPTY\<rparr>) (leave_active (z_cond z) s)"
        using run z True wp
        by (auto simp: zoned_close_zone_def Let_def zcond_defs leave_active_def put_zone_def)
      ultimately show ?thesis by simp
    next
      case wp: False
      have "zinv cfg (put_zone ?i (z\<lparr>z_cond := BLK_ZONE_COND_CLOSED\<rparr>) (leave_open (z_cond z) s))"
        by (rule zinv_update [OF inv(1) z zone_ok_cond [OF ok(1)]])
          (use True inv zinv_zone_nonzero [OF inv(1) z] in
            \<open>auto simp: moved_def leave_counts unat_dec word_dec_le zinv_def counters_ok_def zcond_defs\<close>)
      then show ?thesis using run z True wp by (auto simp: zoned_close_zone_def Let_def zcond_defs)
    qed
  qed (use run z inv in \<open>auto simp: zoned_close_zone_def Let_def zcond_defs\<close>)
qed

lemma zoned_finish_zone_zinv:
  assumes "zinv cfg s" "cfg_ok cfg" "zoned_finish_zone cfg offset s = Some (st, s')"
  shows "zinv cfg s' \<and> raw_store s' = raw_store s"
proof -
  obtain z where z: "get_zone s (zone_number cfg offset) = Some z"
    using assms(3) by (auto simp: zoned_finish_zone_def mark_zone_full_locked_def Option.bind_eq_Some_conv)
  show ?thesis using mark_zone_full_ok [OF assms(1,2) z] assms(3) by (auto simp: zoned_finish_zone_def)
qed

lemma zoned_reset_zone_zinv:
  assumes inv: "zinv cfg s" "cfg_ok cfg" and run: "zoned_reset_zone cfg raw offset s = Some (st, s')"
  shows "zinv cfg s'"
proof -
  let ?i = "zone_number cfg offset"
  obtain z t where z: "get_zone s ?i = Some z" and t: "get_stat s ?i = Some t"
    using run by (auto simp: zoned_reset_zone_def Let_def Option.bind_eq_Some_conv)
  let ?s = "put_stat ?i (t\<lparr>st_reset_count := st_reset_count t + 1,
     st_discard_count := st_discard_count t + (z_wp z - z_start z) * of_nat SECTOR_SIZE\<rparr>) s"
  have inv': "zinv cfg ?s" "get_zone ?s ?i = Some z" using inv z by simp_all
  have ok: "zone_ok cfg ?i z" "?i < num_zones cfg" using zinv_get_zone [OF inv(1) z] by simp_all
  have "zinv cfg (put_zone ?i (z\<lparr>z_cond := BLK_ZONE_COND_EMPTY, z_wp := z_start z\<rparr>) (leave_active (z_cond z) ?s))"
    if "z_cond z \<noteq> BLK_ZONE_COND_NOT_WP"
    by (rule zinv_leave_active [OF inv' zone_ok_empty [OF ok(1) that inv(2) ok(2)]]) (simp add: zcond_defs)
  then show ?thesis
    using run z t inv'(1)
    by (auto simp: zoned_reset_zone_def Let_def Option.bind_eq_Some_conv split: if_splits)
qed

lemma zoned_read_zinv:
  "zinv cfg s \<Longrightarrow> zoned_read cfg raw data offset len m s = Some (st, m', s') \<Longrightarrow> zinv cfg s'"
  by (auto simp: zoned_read_def Let_def Option.bind_eq_Some_conv)

lemma zoned_write_common_zinv:
  assumes inv: "zinv cfg s" "cfg_ok cfg" and len: "unat len < 2 ^ 62"
    and run: "zoned_write_common cfg raw app data offset len want m s = Some (st, out, s')"
  shows "zinv cfg s'"
proof -
  let ?i = "zone_number cfg offset"
  obtain z where z: "get_zone s ?i = Some z"
    using run by (auto simp: zoned_write_common_def Let_def Option.bind_eq_Some_conv)
  show ?thesis
  proof (cases "z_type z \<noteq> BLK_ZONE_TYPE_CONVENTIONAL \<and> (app \<or> z_wp z * of_nat SECTOR_SIZE = offset)")
    case True
    from advance_zone_ok [OF inv z len] show ?thesis
    proof (elim disjE exE conjE)
      show ?thesis if "advance_zone cfg ?i (z_wp z * of_nat SECTOR_SIZE) len s = Some (Inl (e, s1))" "zinv cfg s1" for e s1
        using that run z True by (auto simp: zoned_write_common_def Let_def)
      show ?thesis if "advance_zone cfg ?i (z_wp z * of_nat SECTOR_SIZE) len s = Some (Inr s1)" "zinv cfg s1" for s1
        using that run z True by (auto simp: zoned_write_common_def Let_def Option.bind_eq_Some_conv)
    qed
  next
    case False
    then show ?thesis
      using run z inv
      by (cases "z_type z = BLK_ZONE_TYPE_CONVENTIONAL"; cases app)
        (auto simp: zoned_write_common_def Let_def Option.bind_eq_Some_conv)
  qed
qed

lemma initial_zones_ok:
  assumes "cfg_ok cfg" "\<forall>i \<in> set is. i < num_zones cfg"
  shows "\<exists>zs. initial_zones cfg is = Some zs \<and> length zs = length is \<and>
    (\<forall>j < length is. zone_ok cfg (is ! j) (zs ! j) \<and>
       z_cond (zs ! j) \<in> {BLK_ZONE_COND_NOT_WP, BLK_ZONE_COND_EMPTY} \<and> z_wp (zs ! j) = z_start (zs ! j))"
  using assms(2)
proof (induction "is")
  case (Cons i js)
  then obtain zs where zs: "initial_zones cfg js = Some zs" "length zs = length js"
    "\<forall>j < length js. zone_ok cfg (js ! j) (zs ! j) \<and>
       z_cond (zs ! j) \<in> {BLK_ZONE_COND_NOT_WP, BLK_ZONE_COND_EMPTY} \<and> z_wp (zs ! j) = z_start (zs ! j)" by auto
  note sec = zone_sectors [OF assms(1), of i]
  have k: "c_div (ZONE_SIZE cfg) (int SECTOR_SIZE) = int (zsectors cfg)"
    using assms(1) by (auto simp: c_div_nonneg cfg_ok_def SECTOR_SIZE_def zsectors_def zdiv_int)
  have "0 \<le> int (zsectors cfg) * int i" "int (zsectors cfg) * int i < 2 ^ 31"
    using sec(2) Cons.prems by (simp_all flip: of_nat_mult)
  then obtain z where "initial_zone cfg i = Some z" "zone_ok cfg i z" "z_wp z = z_start z"
    "z_cond z \<in> {BLK_ZONE_COND_NOT_WP, BLK_ZONE_COND_EMPTY}"
    using sec Cons.prems by (auto simp: initial_zone_def zone_start_sector_def k Let_def zone_ok_def)
  with zs show ?case by (auto simp: nth_Cons split: nat.split)
qed simp

lemma initialize_zone_info_zinv:
  assumes cfg: "cfg_ok cfg" and stats: "length (zone_stats s) = num_zones cfg"
  shows "\<exists>s'. initialize_zone_info cfg s = Some s' \<and> zinv cfg s' \<and> raw_store s' = raw_store s \<and>
    zone_stats s' = zone_stats s \<and>
    (\<forall>i < num_zones cfg. z_wp (zone_info s' ! i) = z_start (zone_info s' ! i) \<and> \<not> is_active (z_cond (zone_info s' ! i)))"
proof -
  obtain zs where zs: "initial_zones cfg [0 ..< num_zones cfg] = Some zs" "length zs = num_zones cfg"
    "\<forall>j < num_zones cfg. zone_ok cfg j (zs ! j) \<and>
       z_cond (zs ! j) \<in> {BLK_ZONE_COND_NOT_WP, BLK_ZONE_COND_EMPTY} \<and> z_wp (zs ! j) = z_start (zs ! j)"
    using initial_zones_ok [OF cfg, of "[0 ..< num_zones cfg]"] by auto
  have "\<not> P (z_cond z)" if "z \<in> set zs" "P \<in> {is_open, is_imp, is_active}" for P z
    using that zs(2,3) by (auto simp: in_set_conv_nth zcond_defs)
  then have "zcount P (s\<lparr>zone_info := zs, num_open_zones := 0, num_imp_open_zones := 0, num_active_zones := 0\<rparr>) = 0"
    if "P \<in> {is_open, is_imp, is_active}" for P
    using that by (auto simp: zcount_def filter_empty_conv)
  then show ?thesis
    using zs cfg stats
    by (auto simp: initialize_zone_info_def zinv_def zones_ok_def counters_ok_def cfg_ok_def zcond_defs)
qed

end
