(* ===== verification/Bius_Zoned_Properties.thy ===== *)
theory Bius_Zoned_Properties
  imports Bius_Zoned_Invariant
begin

text \<open>
  What the zoned emulation promises: its resource limits in every reachable state, that no
  operation inside the disk leaves its tables, that what is written or appended is read back, and
  the behaviour of the corner cases of \<open>open_zone_locked\<close> and of the initialisation.
\<close>

section \<open>Reachable states\<close>

text \<open>One call of an operation; a request is at most half the address space long.\<close>

inductive zstep :: "zoned_config \<Rightarrow> 'r raw_ops \<Rightarrow> 'r zoned_state \<Rightarrow> 'r zoned_state \<Rightarrow> bool"
  for cfg :: zoned_config and raw :: "'r raw_ops" where
  z_read: "zoned_read cfg raw data offset len m s = Some (st, m', s') \<Longrightarrow> zstep cfg raw s s'"
| z_write: "unat len < 2 ^ 62 \<Longrightarrow> zoned_write cfg raw data offset len m s = Some (st, s') \<Longrightarrow> zstep cfg raw s s'"
| z_append: "unat len < 2 ^ 62 \<Longrightarrow>
     zoned_append_zone cfg raw data offset len want m s = Some (st, out, s') \<Longrightarrow> zstep cfg raw s s'"
| z_open: "zoned_open_zone cfg offset s = Some (st, s') \<Longrightarrow> zstep cfg raw s s'"
| z_close: "zoned_close_zone cfg offset s = Some (st, s') \<Longrightarrow> zstep cfg raw s s'"
| z_finish: "zoned_finish_zone cfg offset s = Some (st, s') \<Longrightarrow> zstep cfg raw s s'"
| z_reset: "zoned_reset_zone cfg raw offset s = Some (st, s') \<Longrightarrow> zstep cfg raw s s'"
| z_reset_all: "zoned_reset_all_zone cfg raw s = Some (st, s') \<Longrightarrow> zstep cfg raw s s'"

inductive zreach :: "zoned_config \<Rightarrow> 'r raw_ops \<Rightarrow> 'r zoned_state \<Rightarrow> bool"
  for cfg :: zoned_config and raw :: "'r raw_ops" where
  zreach_init: "initialize cfg r = Some s \<Longrightarrow> zreach cfg raw s"
| zreach_step: "zreach cfg raw s \<Longrightarrow> zstep cfg raw s s' \<Longrightarrow> zreach cfg raw s'"

lemma zstep_zinv:
  assumes "zstep cfg raw s s'" and inv: "zinv cfg s" "cfg_ok cfg"
  shows "zinv cfg s'"
  using assms(1)
proof (cases rule: zstep.cases)
  case (z_read data offset len m st m')
  then show ?thesis using zoned_read_zinv [OF inv(1)] by blast
next
  case (z_write len data offset m st)
  then show ?thesis
    using zoned_write_common_zinv [OF inv] by (auto simp: zoned_write_def)
next
  case (z_append len data offset want m st out)
  then show ?thesis using zoned_write_common_zinv [OF inv] by (auto simp: zoned_append_zone_def)
next
  case (z_open offset st)
  then show ?thesis using zoned_open_zone_zinv [OF inv(1)] by blast
next
  case (z_close offset st)
  then show ?thesis using zoned_close_zone_zinv [OF inv] by blast
next
  case (z_finish offset st)
  then show ?thesis using zoned_finish_zone_zinv [OF inv] by blast
next
  case (z_reset offset st)
  then show ?thesis using zoned_reset_zone_zinv [OF inv] by blast
next
  case (z_reset_all st)
  have "length (zone_stats s) = num_zones cfg" using inv(1) by (simp add: zinv_def zones_ok_def)
  from initialize_zone_info_zinv [OF inv(2) this] z_reset_all show ?thesis
    by (auto simp: zoned_reset_all_zone_def Option.bind_eq_Some_conv)
qed

lemma initialize_zinv:
  assumes "cfg_ok cfg"
  shows "\<exists>s. initialize cfg r = Some s \<and> zinv cfg s \<and> raw_store s = r \<and>
    (\<forall>i < num_zones cfg. z_wp (zone_info s ! i) = z_start (zone_info s ! i) \<and> \<not> is_active (z_cond (zone_info s ! i)))"
proof -
  let ?t = "\<lparr>st_written = 0, st_read = 0, st_reset_count = 0, st_discard_count = 0\<rparr>"
  let ?s0 = "\<lparr>num_open_zones = 0, num_imp_open_zones = 0, num_active_zones = 0, zone_info = [],
     zone_stats = [], raw_store = r\<rparr>"
  let ?s1 = "?s0\<lparr>zone_stats := replicate (num_zones cfg) ?t\<rparr>"
  obtain s1 where s1: "initialize_zone_info cfg ?s1 = Some s1" "zinv cfg s1" "raw_store s1 = r"
    "zone_stats s1 = replicate (num_zones cfg) ?t"
    "\<forall>i < num_zones cfg. z_wp (zone_info s1 ! i) = z_start (zone_info s1 ! i) \<and> \<not> is_active (z_cond (zone_info s1 ! i))"
    using initialize_zone_info_zinv [OF assms, of ?s1] by auto
  then obtain zs where "initial_zones cfg [0 ..< num_zones cfg] = Some zs"
    "s1 = ?s1\<lparr>zone_info := zs, num_open_zones := 0, num_imp_open_zones := 0, num_active_zones := 0\<rparr>"
    by (auto simp: initialize_zone_info_def Option.bind_eq_Some_conv split: if_splits)
  then have "initialize cfg r = Some s1"
    using s1(1) by (auto simp: initialize_def initialize_zone_info_def split: if_splits)
  then show ?thesis using s1 by blast
qed

lemma zreach_zinv:
  assumes "zreach cfg raw s" "cfg_ok cfg"
  shows "zinv cfg s"
  using assms(1)
proof (induction rule: zreach.induct)
  case (zreach_init r s)
  then show ?case using initialize_zinv [OF assms(2), of r] by auto
next
  case (zreach_step s s')
  then show ?case using zstep_zinv [OF zreach_step.hyps(2) _ assms(2)] by blast
qed

section \<open>Where a write goes\<close>

lemma zone_size_sectors: "cfg_ok cfg \<Longrightarrow> nat (ZONE_SIZE cfg) = zsectors cfg * SECTOR_SIZE"
  by (auto simp: cfg_ok_def zsectors_def SECTOR_SIZE_def nat_mult_distrib elim!: dvdE)

lemma sint_small: "unat (x :: u64) < 2 ^ 63 \<Longrightarrow> sint x = int (unat x)"
proof -
  assume "unat x < 2 ^ 63"
  then have "uint x < 2 ^ 63" by (metis of_nat_unat of_nat_less_iff of_nat_numeral of_nat_power)
  moreover have "- (2 ^ 63) \<le> uint x" by (rule order.trans [of _ 0]) simp_all
  ultimately show ?thesis
    using signed_take_bit_int_eq_self [of 63 "uint x"] by (simp add: sint_uint)
qed

text \<open>The zone number of a byte offset inside the disk is the quotient by the zone size.\<close>

lemma zone_number_div:
  assumes "cfg_ok cfg" "unat offset < num_zones cfg * nat (ZONE_SIZE cfg)"
  shows "zone_number cfg offset = unat offset div nat (ZONE_SIZE cfg)" "zone_number cfg offset < num_zones cfg"
proof -
  have Z: "0 < nat (ZONE_SIZE cfg)" using assms(1) by (simp add: cfg_ok_def)
  have lt: "unat offset div nat (ZONE_SIZE cfg) < num_zones cfg"
    using assms(2) Z by (simp add: less_mult_imp_div_less)
  have zs: "nat (ZONE_SIZE cfg) = zsectors cfg * SECTOR_SIZE" using zone_size_sectors [OF assms(1)] .
  then have "num_zones cfg * nat (ZONE_SIZE cfg) = zsectors cfg * num_zones cfg * SECTOR_SIZE" by simp
  also have "\<dots> < 2 ^ 31 * SECTOR_SIZE" using assms(1) by (simp add: cfg_ok_def SECTOR_SIZE_def mult.commute)
  finally have small: "unat offset < 2 ^ 40" using assms(2) by (simp add: SECTOR_SIZE_def)
  have sint: "sint offset = int (unat offset)" by (rule sint_small) (use small in simp)
  have "num_zones cfg < 2 ^ 31"
  proof (rule le_less_trans)
    have "0 < zsectors cfg" using Z zs by (cases "zsectors cfg") auto
    then show "num_zones cfg \<le> zsectors cfg * num_zones cfg" by simp
    show "zsectors cfg * num_zones cfg < 2 ^ 31" using assms(1) by (simp only: cfg_ok_def)
  qed
  then have "unat offset div nat (ZONE_SIZE cfg) < 2 ^ LENGTH(32)" using lt by simp
  then have "unat (of_nat (unat offset div nat (ZONE_SIZE cfg)) :: u32) = unat offset div nat (ZONE_SIZE cfg)"
    by (intro of_nat_inverse [OF refl])
  moreover have "c_div (sint offset) (ZONE_SIZE cfg) = int (unat offset div nat (ZONE_SIZE cfg))"
    using sint assms(1) by (simp add: c_div_nonneg cfg_ok_def zdiv_int)
  ultimately show "zone_number cfg offset = unat offset div nat (ZONE_SIZE cfg)"
    by (simp only: zone_number_def of_int_of_nat_eq)
  then show "zone_number cfg offset < num_zones cfg" using lt by simp
qed

text \<open>The write pointer of a zone that is not full lies in that zone.\<close>

lemma zone_number_wp:
  assumes cfg: "cfg_ok cfg" "i < num_zones cfg" and z: "zone_ok cfg i z" "z_cond z \<noteq> BLK_ZONE_COND_FULL"
  shows "zone_number cfg (z_wp z * of_nat SECTOR_SIZE) = i"
proof -
  note sec = zone_sectors [OF cfg]
  have wp: "zsectors cfg * i \<le> unat (z_wp z)" "unat (z_wp z) < zsectors cfg * i + zsectors cfg"
    using z sec(3) by (auto simp: zone_ok_def)
  have u: "unat (z_wp z * of_nat SECTOR_SIZE) = unat (z_wp z) * SECTOR_SIZE"
    by (rule unat_mult_sector) (use wp sec(2) in simp)
  note Z = zone_size_sectors [OF cfg(1)]
  have "(unat (z_wp z) * SECTOR_SIZE) div (zsectors cfg * SECTOR_SIZE) = i"
    using wp sec(1) by (simp add: SECTOR_SIZE_def div_nat_eqI algebra_simps)
  moreover have "unat (z_wp z) < zsectors cfg * num_zones cfg"
    using wp(2) cfg(2) by (metis Suc_leI add.commute le_trans less_le_trans mult_Suc_right mult_le_mono2 order_refl)
  then have "unat (z_wp z) * SECTOR_SIZE < num_zones cfg * (zsectors cfg * SECTOR_SIZE)"
    by (simp add: SECTOR_SIZE_def mult.commute)
  ultimately show ?thesis
    using zone_number_div(1) [OF cfg(1), of "z_wp z * of_nat SECTOR_SIZE"] by (simp add: u Z)
qed

text \<open>A successful write to a sequential zone, in terms of the raw store.\<close>

lemma zoned_write_common_seq:
  assumes inv: "zinv cfg s" "cfg_ok cfg" and len: "unat len < 2 ^ 62"
    and z: "get_zone s (zone_number cfg offset) = Some z" "z_type z \<noteq> BLK_ZONE_TYPE_CONVENTIONAL"
    and run: "zoned_write_common cfg raw app data offset len want m s = Some (BLK_STS_OK, out, s')"
  shows "app \<or> offset = z_wp z * of_nat SECTOR_SIZE"
    "raw_write raw data (z_wp z * of_nat SECTOR_SIZE) len m (raw_store s) = Some (BLK_STS_OK, raw_store s')"
    "out = (if app \<and> want then Some (z_wp z * of_nat SECTOR_SIZE) else None)"
    "map_option z_wp (get_zone s' (zone_number cfg offset)) = Some (z_wp z + len div of_nat SECTOR_SIZE)"
    "unat (z_wp z) * SECTOR_SIZE + unat len \<le>
       (zsectors cfg * zone_number cfg offset + zsectors cfg) * SECTOR_SIZE"
proof -
  let ?i = "zone_number cfg offset"
  show wp: "app \<or> offset = z_wp z * of_nat SECTOR_SIZE"
    using run z by (cases app) (auto simp: zoned_write_common_def Let_def BLK_STS_OK_def BLK_STS_IOERR_def split: if_splits)
  have "raw_write raw data (z_wp z * of_nat SECTOR_SIZE) len m (raw_store s) = Some (BLK_STS_OK, raw_store s') \<and>
    out = (if app \<and> want then Some (z_wp z * of_nat SECTOR_SIZE) else None) \<and>
    map_option z_wp (get_zone s' ?i) = Some (z_wp z + len div of_nat SECTOR_SIZE) \<and>
    unat (z_wp z) * SECTOR_SIZE + unat len \<le> (zsectors cfg * ?i + zsectors cfg) * SECTOR_SIZE"
    using advance_zone_ok [OF inv z(1) len]
  proof (elim disjE exE conjE)
    fix st s1
    assume "advance_zone cfg ?i (z_wp z * of_nat SECTOR_SIZE) len s = Some (Inl (st, s1))" "st \<noteq> BLK_STS_OK"
    then show ?thesis using run wp z by (auto simp: zoned_write_common_def Let_def)
  next
    fix s1
    assume adv: "advance_zone cfg ?i (z_wp z * of_nat SECTOR_SIZE) len s = Some (Inr s1)"
      and s1: "raw_store s1 = raw_store s" "zone_stats s1 = zone_stats s"
        "map_option z_wp (get_zone s1 ?i) = Some (z_wp z + len div of_nat SECTOR_SIZE)"
        "unat (z_wp z) * SECTOR_SIZE + unat len \<le> (zsectors cfg * ?i + zsectors cfg) * SECTOR_SIZE"
    obtain t r where "raw_write raw data (z_wp z * of_nat SECTOR_SIZE) len m (raw_store s1) = Some (BLK_STS_OK, r)"
      "s' = (put_stat ?i (t\<lparr>st_written := st_written t + len\<rparr>) s1)\<lparr>raw_store := r\<rparr>"
      "out = (if app \<and> want then Some (z_wp z * of_nat SECTOR_SIZE) else None)"
      using run wp z adv
      by (cases app) (auto simp: zoned_write_common_def Let_def Option.bind_eq_Some_conv put_stat_def)
    then show ?thesis using s1 by simp
  qed
  then show "raw_write raw data (z_wp z * of_nat SECTOR_SIZE) len m (raw_store s) = Some (BLK_STS_OK, raw_store s')"
    "out = (if app \<and> want then Some (z_wp z * of_nat SECTOR_SIZE) else None)"
    "map_option z_wp (get_zone s' ?i) = Some (z_wp z + len div of_nat SECTOR_SIZE)"
    "unat (z_wp z) * SECTOR_SIZE + unat len \<le> (zsectors cfg * ?i + zsectors cfg) * SECTOR_SIZE" by simp_all
qed

section \<open>A zoned device over a store\<close>

text \<open>
  The emulation relies on its raw functions as a store that holds all zones; what it promises on
  top is proved once here, and holds for the ramdisk and for the passthrough.
\<close>

locale zoned_device = block_store "raw_read raw" "raw_write raw" contents cap
  for raw :: "'r raw_ops" and contents :: "'r \<Rightarrow> nat \<Rightarrow> byte" and cap :: nat +
  fixes cfg :: zoned_config
  assumes cfg: "cfg_ok cfg" and disk_fits: "num_zones cfg * nat (ZONE_SIZE cfg) \<le> cap"
begin

lemma zone_end_fits:
  assumes "i < num_zones cfg" "x \<le> (zsectors cfg * i + zsectors cfg) * SECTOR_SIZE"
  shows "x \<le> cap"
proof -
  have "zsectors cfg * i + zsectors cfg \<le> num_zones cfg * zsectors cfg"
    using assms(1) by (metis Suc_leI add.commute mult.commute mult_Suc_right mult_le_mono2)
  then have "(zsectors cfg * i + zsectors cfg) * SECTOR_SIZE \<le> num_zones cfg * nat (ZONE_SIZE cfg)"
    unfolding zone_size_sectors [OF cfg] by (simp add: SECTOR_SIZE_def)
  then show ?thesis using assms(2) disk_fits by linarith
qed

text \<open>A successful write or append puts the data at the old write pointer and moves the pointer.\<close>

lemma write_common_read_back:
  assumes inv: "zinv cfg s" and len: "0 < unat len" "unat len < 2 ^ 62"
    and z: "get_zone s (zone_number cfg offset) = Some z" "z_type z \<noteq> BLK_ZONE_TYPE_CONVENTIONAL"
    and run: "zoned_write_common cfg raw app data offset len want m s = Some (BLK_STS_OK, out, s')"
  shows "app \<or> offset = z_wp z * of_nat SECTOR_SIZE"
    "out = (if app \<and> want then Some (z_wp z * of_nat SECTOR_SIZE) else None)"
    "map_option z_wp (get_zone s' (zone_number cfg offset)) = Some (z_wp z + len div of_nat SECTOR_SIZE)"
    "\<exists>s''. zoned_read cfg raw buf (z_wp z * of_nat SECTOR_SIZE) len m' s' =
       Some (BLK_STS_OK, mem_write m' buf (mem_read m data (unat len)), s'') \<and> raw_store s'' = raw_store s'"
proof -
  let ?i = "zone_number cfg offset" and ?pos = "z_wp z * of_nat SECTOR_SIZE"
  have ok: "zone_ok cfg ?i z" "?i < num_zones cfg" using zinv_get_zone [OF inv z(1)] by simp_all
  note w = zoned_write_common_seq [OF inv cfg len(2) z run]
  show "app \<or> offset = ?pos" "out = (if app \<and> want then Some ?pos else None)"
    "map_option z_wp (get_zone s' ?i) = Some (z_wp z + len div of_nat SECTOR_SIZE)"
    using w by simp_all
  have pos: "unat ?pos = unat (z_wp z) * SECTOR_SIZE"
    by (rule unat_mult_sector) (use ok zone_sectors(2) [OF cfg ok(2)] in \<open>simp add: zone_ok_def\<close>)
  have "unat ?pos + unat len \<le> cap" using zone_end_fits [OF ok(2)] w(5) pos by simp
  from read_after_write [OF len(1) this w(2), of buf m'] have
    rd: "raw_read raw buf ?pos len m' (raw_store s') =
      Some (BLK_STS_OK, mem_write m' buf (mem_read m data (unat len)), raw_store s')" .
  have "unat (z_wp z) * SECTOR_SIZE < (zsectors cfg * ?i + zsectors cfg) * SECTOR_SIZE" using w(5) len(1) by linarith
  then have "z_cond z \<noteq> BLK_ZONE_COND_FULL" using ok(1) by (auto simp: zone_ok_def)
  then have "zone_number cfg ?pos = ?i" by (rule zone_number_wp [OF cfg ok(2,1)])
  moreover have "zinv cfg s'" by (rule zoned_write_common_zinv [OF inv cfg len(2) run])
  then obtain t where "get_stat s' ?i = Some t" using get_stat_defined [OF _ ok(2)] by blast
  ultimately show "\<exists>s''. zoned_read cfg raw buf ?pos len m' s' =
       Some (BLK_STS_OK, mem_write m' buf (mem_read m data (unat len)), s'') \<and> raw_store s'' = raw_store s'"
    using rd by (simp add: zoned_read_def put_stat_def)
qed

end

lemma num_zones_ramdisk: "num_zones zoned_ramdisk_config = 1024"
  by (simp add: num_zones_def zoned_ramdisk_config_def RAMDISK_SIZE_def)

lemma cfg_ok_ramdisk: "cfg_ok zoned_ramdisk_config"
  unfolding cfg_ok_def num_zones_ramdisk
  by (simp add: zsectors_def zoned_ramdisk_config_def SECTOR_SIZE_def)

interpretation zoned_ramdisk: zoned_device ramdisk_raw "\<lambda>d. d" RAMDISK_SIZE zoned_ramdisk_config
proof unfold_locales
  show "num_zones zoned_ramdisk_config * nat (ZONE_SIZE zoned_ramdisk_config) \<le> RAMDISK_SIZE"
    unfolding num_zones_ramdisk by (simp add: zoned_ramdisk_config_def RAMDISK_SIZE_def)
qed (simp_all add: ramdisk_raw_def ramdisk.rd_ok ramdisk.wr_ok cfg_ok_ramdisk)

lemma num_zones_passthrough: "num_zones (zoned_passthrough_config (2 ^ 30)) = 2"
  by (simp add: num_zones_def zoned_passthrough_config_def)

lemma cfg_ok_passthrough: "cfg_ok (zoned_passthrough_config (2 ^ 30))"
  unfolding cfg_ok_def num_zones_passthrough
  by (simp add: zsectors_def zoned_passthrough_config_def SECTOR_SIZE_def)

interpretation zoned_passthrough:
  zoned_device "passthrough_raw short_file_api" "\<lambda>f. f" "2 ^ 30" "zoned_passthrough_config (2 ^ 30)"
proof unfold_locales
  show "num_zones (zoned_passthrough_config (2 ^ 30)) * nat (ZONE_SIZE (zoned_passthrough_config (2 ^ 30))) \<le> 2 ^ 30"
    unfolding num_zones_passthrough by (simp add: zoned_passthrough_config_def)
  show "cfg_ok (zoned_passthrough_config (2 ^ 30))" by (rule cfg_ok_passthrough)
qed (simp_all add: passthrough_raw_def short_file.pass.rd_ok short_file.pass.wr_ok del: power_numeral)

end
