(* ===== verification/Bius_Zoned_Claims.thy ===== *)
theory Bius_Zoned_Claims
  imports Bius_Zoned_Properties
begin

text \<open>The theorems on the zoned emulation and on the stores under it, with concrete instances.\<close>

section \<open>Concrete states\<close>

lemma initialize_counters:
  "initialize cfg r = Some s \<Longrightarrow>
     num_open_zones s = 0 \<and> num_imp_open_zones s = 0 \<and> num_active_zones s = 0 \<and> raw_store s = r"
  by (auto simp: initialize_def initialize_zone_info_def Option.bind_eq_Some_conv split: if_splits)

text \<open>A small device: four zones of two sectors, the first conventional, one open and three active zones.\<close>

definition tiny_config :: zoned_config where
  "tiny_config = \<lparr>ZONE_SIZE = 1024, zoned_disk_size = 4096, zone_size = 1024, num_conventional_zones = 1,
     max_open_zones = 1, max_active_zones = 3\<rparr>"

definition tiny_disk :: ramdisk where
  "tiny_disk = (\<lambda>_. 7)"

definition tiny_init :: "ramdisk zoned_state" where
  "tiny_init = the (initialize tiny_config tiny_disk)"

definition tiny_zone :: "u64 \<Rightarrow> u64 \<Rightarrow> blk_zone_cond \<Rightarrow> blk_zone" where
  "tiny_zone start wp cond = \<lparr>z_start = start, z_len = 2, z_wp = wp, z_type = BLK_ZONE_TYPE_SEQWRITE_REQ,
     z_cond = cond, z_capacity = 2\<rparr>"

lemma tiny_num_zones: "num_zones tiny_config = 4"
  by (simp add: num_zones_def tiny_config_def)

lemma tiny_cfg_ok: "cfg_ok tiny_config"
  unfolding cfg_ok_def tiny_num_zones by (simp add: tiny_config_def zsectors_def SECTOR_SIZE_def)

lemma tiny_initialize: "initialize tiny_config tiny_disk = Some tiny_init"
  using initialize_zinv [OF tiny_cfg_ok, of tiny_disk] by (auto simp: tiny_init_def)

lemma tiny_reach: "zreach tiny_config ramdisk_raw tiny_init"
  using tiny_initialize by (rule zreach_init)

lemma tiny_init_sel:
  "zone_info tiny_init = [\<lparr>z_start = 0, z_len = 2, z_wp = 0, z_type = BLK_ZONE_TYPE_CONVENTIONAL,
     z_cond = BLK_ZONE_COND_NOT_WP, z_capacity = 2\<rparr>, tiny_zone 2 2 BLK_ZONE_COND_EMPTY,
     tiny_zone 4 4 BLK_ZONE_COND_EMPTY, tiny_zone 6 6 BLK_ZONE_COND_EMPTY]"
  "num_open_zones tiny_init = 0" "num_imp_open_zones tiny_init = 0" "num_active_zones tiny_init = 0"
  "raw_store tiny_init = tiny_disk" "length (zone_stats tiny_init) = 4"
proof -
  have sel: "ZONE_SIZE tiny_config = 1024" "num_conventional_zones tiny_config = 1"
    by (simp_all add: tiny_config_def)
  have up: "[0 ..< num_zones tiny_config] = [0, 1, 2, 3]"
    unfolding tiny_num_zones by (simp add: eval_nat_numeral)
  have "initial_zones tiny_config [0 ..< num_zones tiny_config] =
      Some [\<lparr>z_start = 0, z_len = 2, z_wp = 0, z_type = BLK_ZONE_TYPE_CONVENTIONAL,
     z_cond = BLK_ZONE_COND_NOT_WP, z_capacity = 2\<rparr>, tiny_zone 2 2 BLK_ZONE_COND_EMPTY,
     tiny_zone 4 4 BLK_ZONE_COND_EMPTY, tiny_zone 6 6 BLK_ZONE_COND_EMPTY]"
    unfolding up
    by (simp add: initial_zone_def zone_start_sector_def sel c_div_nonneg SECTOR_SIZE_def tiny_zone_def)
  then show "zone_info tiny_init = [\<lparr>z_start = 0, z_len = 2, z_wp = 0, z_type = BLK_ZONE_TYPE_CONVENTIONAL,
     z_cond = BLK_ZONE_COND_NOT_WP, z_capacity = 2\<rparr>, tiny_zone 2 2 BLK_ZONE_COND_EMPTY,
     tiny_zone 4 4 BLK_ZONE_COND_EMPTY, tiny_zone 6 6 BLK_ZONE_COND_EMPTY]"
    "num_open_zones tiny_init = 0" "num_imp_open_zones tiny_init = 0" "num_active_zones tiny_init = 0"
    "raw_store tiny_init = tiny_disk" "length (zone_stats tiny_init) = 4"
    by (simp_all add: tiny_init_def initialize_def initialize_zone_info_def tiny_num_zones sel)
qed

text \<open>The zoned ramdisk after its start: its first zone is empty.\<close>

definition zr_init :: "ramdisk zoned_state" where
  "zr_init = the (initialize zoned_ramdisk_config ramdisk_initial)"

lemma zr_initialize: "initialize zoned_ramdisk_config ramdisk_initial = Some zr_init"
  using initialize_zinv [OF cfg_ok_ramdisk, of ramdisk_initial] by (auto simp: zr_init_def)

lemma zr_zinv: "zinv zoned_ramdisk_config zr_init"
  by (rule zreach_zinv [OF zreach_init [OF zr_initialize] cfg_ok_ramdisk])

lemma zr_counters: "num_open_zones zr_init = 0" "num_active_zones zr_init = 0" "num_imp_open_zones zr_init = 0"
  using initialize_counters [OF zr_initialize] by simp_all

lemma zr_zone0:
  "get_zone zr_init 0 = Some \<lparr>z_start = 0, z_len = 65536, z_wp = 0, z_type = BLK_ZONE_TYPE_SEQWRITE_REQ,
     z_cond = BLK_ZONE_COND_EMPTY, z_capacity = 65536\<rparr>"
proof -
  let ?z = "zone_info zr_init ! 0"
  have z: "get_zone zr_init 0 = Some ?z"
    using zr_zinv by (simp add: zinv_def zones_ok_def get_zone_def num_zones_ramdisk)
  then have ok: "zone_ok zoned_ramdisk_config 0 ?z" using zinv_get_zone [OF zr_zinv z] by simp
  have fresh: "z_wp ?z = z_start ?z" "\<not> is_active (z_cond ?z)"
    using initialize_zinv [OF cfg_ok_ramdisk, of ramdisk_initial] zr_initialize by (auto simp: num_zones_ramdisk)
  have k: "zsectors zoned_ramdisk_config = 65536" "num_conventional_zones zoned_ramdisk_config = 0"
    by (simp_all add: zsectors_def zoned_ramdisk_config_def SECTOR_SIZE_def)
  show ?thesis
    unfolding z using ok fresh by (cases ?z) (auto simp: zone_ok_def k zcond_defs)
qed

text \<open>The small device after one sector was written at the start of its third zone.\<close>

definition tiny_written :: "ramdisk zoned_state" where
  "tiny_written = snd (the (zoned_write tiny_config ramdisk_raw 0 2048 512 of_nat tiny_init))"

lemma tiny_zone_number: "unat offset < 4096 \<Longrightarrow> zone_number tiny_config offset = unat offset div 1024"
  using zone_number_div(1) [OF tiny_cfg_ok, of offset] unfolding tiny_num_zones by (simp add: tiny_config_def)

lemma tiny_limits: "max_open_zones tiny_config = 1" "max_active_zones tiny_config = 3"
  "num_conventional_zones tiny_config = 1"
  by (simp_all add: tiny_config_def)

lemma tiny_write_run:
  "zoned_write tiny_config ramdisk_raw 0 2048 512 of_nat tiny_init = Some (BLK_STS_OK, tiny_written)"
  "zone_info tiny_written = (zone_info tiny_init)[2 := tiny_zone 4 5 BLK_ZONE_COND_IMP_OPEN]"
  "num_open_zones tiny_written = 1" "num_imp_open_zones tiny_written = 1" "num_active_zones tiny_written = 1"
  "length (zone_stats tiny_written) = 4"
proof -
  have n: "zone_number tiny_config 2048 = 2" using tiny_zone_number [of 2048] by simp
  have z: "get_zone tiny_init 2 = Some (tiny_zone 4 4 BLK_ZONE_COND_EMPTY)"
    by (simp add: get_zone_def tiny_init_sel)
  let ?t = "zone_stats tiny_init ! 2"
  have st: "get_stat (put_zone i y x) = get_stat x" "get_stat (x\<lparr>num_open_zones := a\<rparr>) = get_stat x"
    "get_stat (x\<lparr>num_imp_open_zones := a\<rparr>) = get_stat x" "get_stat (x\<lparr>num_active_zones := a\<rparr>) = get_stat x"
    for i y a and x :: "ramdisk zoned_state" by (simp_all add: get_stat_def fun_eq_iff)
  have t: "get_stat tiny_init 2 = Some ?t" by (simp add: get_stat_def tiny_init_sel)
  have len: "2 < length (zone_info tiny_init)" by (simp add: tiny_init_sel)
  note defs = zoned_write_def zoned_write_common_def n z advance_zone_def open_for_write_def
    open_zone_locked_def open_closed_zone_def tiny_init_sel(2-6) tiny_limits SECTOR_SIZE_def t st len tiny_zone_def
    ramdisk_raw_def ramdisk_write_def in_ramdisk_def RAMDISK_SIZE_def put_stat_def put_zone_def Let_def get_zone_def get_stat_def
  show "zoned_write tiny_config ramdisk_raw 0 2048 512 of_nat tiny_init = Some (BLK_STS_OK, tiny_written)"
    "zone_info tiny_written = (zone_info tiny_init)[2 := tiny_zone 4 5 BLK_ZONE_COND_IMP_OPEN]"
    "num_open_zones tiny_written = 1" "num_imp_open_zones tiny_written = 1" "num_active_zones tiny_written = 1"
    "length (zone_stats tiny_written) = 4"
    using z by (simp_all add: tiny_written_def defs)
qed

lemma tiny_written_reach: "zreach tiny_config ramdisk_raw tiny_written"
  using zreach_step [OF tiny_reach z_write [OF _ tiny_write_run(1)]] by simp

lemma tiny_written_zone: "get_zone tiny_written 2 = Some (tiny_zone 4 5 BLK_ZONE_COND_IMP_OPEN)"
  "get_zone tiny_written 1 = Some (tiny_zone 2 2 BLK_ZONE_COND_EMPTY)"
  by (simp_all add: get_zone_def tiny_write_run tiny_init_sel)

section \<open>Limits and layout\<close>

lemma zreach_limits:
  assumes "zreach cfg raw s" "cfg_ok cfg"
  shows "zcount is_open s \<le> unat (max_open_zones cfg)" "zcount is_active s \<le> unat (max_active_zones cfg)"
    "unat (num_open_zones s) = zcount is_open s" "unat (num_imp_open_zones s) = zcount is_imp s"
    "i < num_zones cfg \<Longrightarrow> get_zone s i = Some (zone_info s ! i) \<and>
       unat (z_start (zone_info s ! i)) = zsectors cfg * i \<and> z_capacity (zone_info s ! i) = of_nat (zsectors cfg) \<and>
       zsectors cfg * i \<le> unat (z_wp (zone_info s ! i)) \<and>
       unat (z_wp (zone_info s ! i)) \<le> zsectors cfg * i + zsectors cfg"
proof -
  have inv: "zinv cfg s" by (rule zreach_zinv [OF assms])
  then show "unat (num_open_zones s) = zcount is_open s" "unat (num_imp_open_zones s) = zcount is_imp s"
    "zcount is_open s \<le> unat (max_open_zones cfg)" "zcount is_active s \<le> unat (max_active_zones cfg)"
    by (simp_all add: zinv_def counters_ok_def word_le_nat_alt)
  assume i: "i < num_zones cfg"
  then have "get_zone s i = Some (zone_info s ! i)" using inv by (simp add: zinv_def zones_ok_def get_zone_def)
  moreover have "zone_ok cfg i (zone_info s ! i)" using inv i by (simp add: zinv_def zones_ok_def)
  ultimately show "get_zone s i = Some (zone_info s ! i) \<and>
       unat (z_start (zone_info s ! i)) = zsectors cfg * i \<and> z_capacity (zone_info s ! i) = of_nat (zsectors cfg) \<and>
       zsectors cfg * i \<le> unat (z_wp (zone_info s ! i)) \<and>
       unat (z_wp (zone_info s ! i)) \<le> zsectors cfg * i + zsectors cfg"
    using zone_sectors(3) [OF assms(2) i] by (auto simp: zone_ok_def)
qed

lemma zoned_operations_total:
  assumes "zreach cfg ramdisk_raw s" "cfg_ok cfg" "unat offset < num_zones cfg * nat (ZONE_SIZE cfg)"
    and "num_zones cfg * nat (ZONE_SIZE cfg) \<le> RAMDISK_SIZE"
  shows "zone_number cfg offset = unat offset div nat (ZONE_SIZE cfg)" "zone_number cfg offset < num_zones cfg"
    "zoned_open_zone cfg offset s \<noteq> None" "zoned_close_zone cfg offset s \<noteq> None"
    "zoned_finish_zone cfg offset s \<noteq> None" "zoned_reset_zone cfg ramdisk_raw offset s \<noteq> None"
proof -
  let ?i = "zone_number cfg offset"
  have inv: "zinv cfg s" by (rule zreach_zinv [OF assms(1,2)])
  show num: "?i = unat offset div nat (ZONE_SIZE cfg)" "?i < num_zones cfg"
    using zone_number_div [OF assms(2,3)] by simp_all
  obtain z t where z: "get_zone s ?i = Some z" and t: "get_stat s ?i = Some t"
    using get_zone_defined [OF inv num(2)] get_stat_defined [OF inv num(2)] by blast
  have ok: "zone_ok cfg ?i z" using zinv_get_zone [OF inv z] by simp
  show "zoned_open_zone cfg offset s \<noteq> None"
    using open_zone_locked_ok [OF inv z, of True] z by (auto simp: zoned_open_zone_def Let_def)
  show "zoned_close_zone cfg offset s \<noteq> None" using z by (simp add: zoned_close_zone_def Let_def)
  show "zoned_finish_zone cfg offset s \<noteq> None"
    using mark_zone_full_ok [OF inv assms(2) z] by (auto simp: zoned_finish_zone_def)
  note sec = zone_sectors [OF assms(2) num(2)]
  have u: "unat (z_start z * of_nat SECTOR_SIZE) = zsectors cfg * ?i * SECTOR_SIZE"
    "unat (z_len z * of_nat SECTOR_SIZE) = zsectors cfg * SECTOR_SIZE"
  proof -
    have "unat (z_len z) = zsectors cfg"
      using ok sec(2) by (auto simp: zone_ok_def intro!: of_nat_inverse [OF refl])
    moreover have "unat (z_start z) = zsectors cfg * ?i" using ok sec(3) by (simp add: zone_ok_def)
    ultimately show "unat (z_start z * of_nat SECTOR_SIZE) = zsectors cfg * ?i * SECTOR_SIZE"
      "unat (z_len z * of_nat SECTOR_SIZE) = zsectors cfg * SECTOR_SIZE"
      using unat_mult_sector [of "z_start z"] unat_mult_sector [of "z_len z"] sec(2) by simp_all
  qed
  have "(zsectors cfg * ?i + zsectors cfg) * SECTOR_SIZE \<le> num_zones cfg * nat (ZONE_SIZE cfg)"
    unfolding zone_size_sectors [OF assms(2)]
    using mult_le_mono2 [OF Suc_leI [OF num(2)], of "zsectors cfg * SECTOR_SIZE"] by (simp add: algebra_simps)
  then have "in_ramdisk (z_start z * of_nat SECTOR_SIZE) (z_len z * of_nat SECTOR_SIZE)"
    using assms(4) u by (simp add: in_ramdisk_def algebra_simps)
  then show "zoned_reset_zone cfg ramdisk_raw offset s \<noteq> None"
    using z t by (simp add: zoned_reset_zone_def Let_def ramdisk_raw_def ramdisk_discard_def)
qed

text \<open>
  C18. The resource limits of the zoned device hold in every state its operations can reach: at most
  \<open>max_open_zones\<close> zones are open and at most \<open>max_active_zones\<close> are active, the two open
  counters are exact, and every zone keeps its place and length with its write pointer between
  its start and its end.
\<close>

theorem zoned_limits_respected:
  assumes "zreach cfg raw s" "cfg_ok cfg"
  shows "zcount is_open s \<le> unat (max_open_zones cfg) \<and> zcount is_active s \<le> unat (max_active_zones cfg) \<and>
    unat (num_open_zones s) = zcount is_open s \<and> unat (num_imp_open_zones s) = zcount is_imp s \<and>
    (\<forall>i < num_zones cfg. get_zone s i = Some (zone_info s ! i) \<and>
       unat (z_start (zone_info s ! i)) = zsectors cfg * i \<and> z_capacity (zone_info s ! i) = of_nat (zsectors cfg) \<and>
       zsectors cfg * i \<le> unat (z_wp (zone_info s ! i)) \<and>
       unat (z_wp (zone_info s ! i)) \<le> zsectors cfg * i + zsectors cfg)"
  using zreach_limits [OF assms] by simp

theorem zoned_limits_respected_witness:
  "zreach tiny_config ramdisk_raw tiny_init \<and> zcount is_open tiny_init \<le> 1 \<and> zcount is_active tiny_init \<le> 3 \<and>
   unat (z_start (zone_info tiny_init ! 2)) = 4"
  using zoned_limits_respected [OF tiny_reach tiny_cfg_ok] tiny_reach
  unfolding tiny_num_zones by (simp add: tiny_config_def zsectors_def SECTOR_SIZE_def)

text \<open>
  C19. No operation leaves the tables: for a byte offset inside the disk the zone number is the
  quotient by the zone size and a valid index, and opening, closing, finishing or (over the ramdisk)
  resetting the zone returns.
\<close>

theorem zoned_operations_defined:
  assumes "zreach cfg ramdisk_raw s" "cfg_ok cfg" "unat offset < num_zones cfg * nat (ZONE_SIZE cfg)"
    and "num_zones cfg * nat (ZONE_SIZE cfg) \<le> RAMDISK_SIZE"
  shows "zone_number cfg offset = unat offset div nat (ZONE_SIZE cfg) \<and> zone_number cfg offset < num_zones cfg \<and>
    zoned_open_zone cfg offset s \<noteq> None \<and> zoned_close_zone cfg offset s \<noteq> None \<and>
    zoned_finish_zone cfg offset s \<noteq> None \<and> zoned_reset_zone cfg ramdisk_raw offset s \<noteq> None"
  using zoned_operations_total [OF assms] by blast

theorem zoned_operations_defined_witness:
  "zreach tiny_config ramdisk_raw tiny_init \<and> zone_number tiny_config 3000 = 2 \<and>
   zoned_reset_zone tiny_config ramdisk_raw 3000 tiny_init \<noteq> None"
  using zoned_operations_defined [OF tiny_reach tiny_cfg_ok, of 3000] tiny_reach
  unfolding tiny_num_zones by (simp add: tiny_config_def RAMDISK_SIZE_def)

section \<open>Data\<close>

text \<open>
  C20. On the zoned ramdisk, what a write stores is read back: after a successful write to a
  sequential zone a read of the same range returns the written bytes, and the write pointer has
  moved by the number of sectors written.
\<close>

theorem zoned_ramdisk_write_read_back:
  assumes "zinv zoned_ramdisk_config s" "get_zone s (zone_number zoned_ramdisk_config offset) = Some z"
    and "z_type z = BLK_ZONE_TYPE_SEQWRITE_REQ" "0 < unat len" "unat len < 2 ^ 62"
    and "zoned_write zoned_ramdisk_config ramdisk_raw data offset len m s = Some (BLK_STS_OK, s')"
  shows "map_option z_wp (get_zone s' (zone_number zoned_ramdisk_config offset)) =
      Some (z_wp z + len div of_nat SECTOR_SIZE) \<and>
    (\<exists>s''. zoned_read zoned_ramdisk_config ramdisk_raw buf offset len m' s' =
      Some (BLK_STS_OK, mem_write m' buf (mem_read m data (unat len)), s''))"
proof -
  obtain out where run: "zoned_write_common zoned_ramdisk_config ramdisk_raw False data offset len False m s =
      Some (BLK_STS_OK, out, s')" using assms(6) by (auto simp: zoned_write_def)
  have "z_type z \<noteq> BLK_ZONE_TYPE_CONVENTIONAL" using assms(3) by simp
  note w = zoned_ramdisk.write_common_read_back [OF assms(1,4,5,2) this run]
  then have "offset = z_wp z * of_nat SECTOR_SIZE" by blast
  then show ?thesis using w(3,4) by auto
qed

definition zr_written :: "ramdisk zoned_state" where
  "zr_written = snd (the (zoned_write zoned_ramdisk_config ramdisk_raw 100 0 512 of_nat zr_init))"

lemma zr_zone_number: "zone_number zoned_ramdisk_config 0 = 0"
proof -
  have "ZONE_SIZE zoned_ramdisk_config = 33554432" by (simp add: zoned_ramdisk_config_def)
  then show ?thesis using zone_number_div(1) [OF cfg_ok_ramdisk, of 0] by (simp add: num_zones_ramdisk)
qed

lemma zr_write_common:
  "\<exists>s'. zoned_write_common zoned_ramdisk_config ramdisk_raw app data 0 512 want m zr_init =
     Some (BLK_STS_OK, if app \<and> want then Some 0 else None, s')"
proof -
  obtain t where t: "get_stat zr_init 0 = Some t"
    using get_stat_defined [OF zr_zinv, of 0] by (auto simp: num_zones_ramdisk)
  have lim: "max_open_zones zoned_ramdisk_config = 32" "max_active_zones zoned_ramdisk_config = 64"
    by (simp_all add: zoned_ramdisk_config_def)
  have st: "get_stat (put_zone i y x) = get_stat x" "get_stat (x\<lparr>num_open_zones := a\<rparr>) = get_stat x"
    "get_stat (x\<lparr>num_imp_open_zones := a\<rparr>) = get_stat x" "get_stat (x\<lparr>num_active_zones := a\<rparr>) = get_stat x"
    for i y a and x :: "ramdisk zoned_state" by (simp_all add: get_stat_def fun_eq_iff)
  have "0 < length (zone_info zr_init)" using get_zone_length [OF zr_zone0] .
  then show ?thesis
    by (simp add: zoned_write_common_def zr_zone_number zr_zone0 advance_zone_def open_for_write_def
        open_zone_locked_def open_closed_zone_def zr_counters lim SECTOR_SIZE_def t st
        ramdisk_raw_def ramdisk_write_def in_ramdisk_def RAMDISK_SIZE_def put_stat_def Let_def)
qed

theorem zoned_ramdisk_write_read_back_witness:
  "zoned_write zoned_ramdisk_config ramdisk_raw 100 0 512 of_nat zr_init = Some (BLK_STS_OK, zr_written) \<and>
   map_option z_wp (get_zone zr_written 0) = Some 1 \<and>
   (\<exists>s''. zoned_read zoned_ramdisk_config ramdisk_raw 7000 0 512 (\<lambda>_. 0) zr_written =
      Some (BLK_STS_OK, mem_write (\<lambda>_. 0) 7000 (mem_read of_nat 100 512), s''))"
proof -
  have run: "zoned_write zoned_ramdisk_config ramdisk_raw 100 0 512 of_nat zr_init = Some (BLK_STS_OK, zr_written)"
    using zr_write_common [of False 100 False of_nat] by (auto simp: zoned_write_def zr_written_def)
  then show ?thesis
    using zoned_ramdisk_write_read_back [OF zr_zinv _ _ _ _ run, of _ 7000 "\<lambda>_. 0"] zr_zone0
    by (simp add: zr_zone_number SECTOR_SIZE_def)
qed

text \<open>
  C21. A zone append on the zoned ramdisk reports the position it wrote to, which is the write
  pointer at the time of the call, and the appended bytes are read back from there.
\<close>

theorem zoned_ramdisk_append_read_back:
  assumes "zinv zoned_ramdisk_config s" "get_zone s (zone_number zoned_ramdisk_config offset) = Some z"
    and "z_type z = BLK_ZONE_TYPE_SEQWRITE_REQ" "0 < unat len" "unat len < 2 ^ 62"
    and "zoned_append_zone zoned_ramdisk_config ramdisk_raw data offset len True m s = Some (BLK_STS_OK, out, s')"
  shows "out = Some (z_wp z * of_nat SECTOR_SIZE) \<and>
    (\<exists>s''. zoned_read zoned_ramdisk_config ramdisk_raw buf (z_wp z * of_nat SECTOR_SIZE) len m' s' =
      Some (BLK_STS_OK, mem_write m' buf (mem_read m data (unat len)), s''))"
proof -
  have run: "zoned_write_common zoned_ramdisk_config ramdisk_raw True data offset len True m s =
      Some (BLK_STS_OK, out, s')" using assms(6) by (simp add: zoned_append_zone_def)
  have "z_type z \<noteq> BLK_ZONE_TYPE_CONVENTIONAL" using assms(3) by simp
  note w = zoned_ramdisk.write_common_read_back [OF assms(1,4,5,2) this run]
  then show ?thesis using w(2,4) by auto
qed

theorem zoned_ramdisk_append_read_back_witness:
  "\<exists>s'. zoned_append_zone zoned_ramdisk_config ramdisk_raw 100 0 512 True of_nat zr_init = Some (BLK_STS_OK, Some 0, s') \<and>
   (\<exists>s''. zoned_read zoned_ramdisk_config ramdisk_raw 7000 0 512 (\<lambda>_. 0) s' =
      Some (BLK_STS_OK, mem_write (\<lambda>_. 0) 7000 (mem_read of_nat 100 512), s''))"
proof -
  obtain s' where run: "zoned_append_zone zoned_ramdisk_config ramdisk_raw 100 0 512 True of_nat zr_init =
      Some (BLK_STS_OK, Some 0, s')"
    using zr_write_common [of True 100 True of_nat] by (auto simp: zoned_append_zone_def)
  have z: "get_zone zr_init (zone_number zoned_ramdisk_config 0) =
      Some \<lparr>z_start = 0, z_len = 65536, z_wp = 0, z_type = BLK_ZONE_TYPE_SEQWRITE_REQ,
        z_cond = BLK_ZONE_COND_EMPTY, z_capacity = 65536\<rparr>" using zr_zone0 by (simp only: zr_zone_number)
  have "\<exists>s''. zoned_read zoned_ramdisk_config ramdisk_raw 7000 0 512 (\<lambda>_. 0) s' =
      Some (BLK_STS_OK, mem_write (\<lambda>_. 0) 7000 (mem_read of_nat 100 512), s'')"
    using zoned_ramdisk_append_read_back [OF zr_zinv z _ _ _ run, of 7000 "\<lambda>_. 0"] by simp
  then show ?thesis using run by blast
qed

text \<open>
  C22. A write to a sequential zone that does not start at the write pointer, or that would pass the
  end of the zone, is refused with an I/O error and changes nothing.
\<close>

theorem zoned_write_misplaced_refused:
  assumes "get_zone s (zone_number cfg offset) = Some z" "z_type z = BLK_ZONE_TYPE_SEQWRITE_REQ"
    and "z_wp z * of_nat SECTOR_SIZE \<noteq> offset \<or>
      (z_start z + z_capacity z) * of_nat SECTOR_SIZE < offset + len"
  shows "zoned_write cfg raw data offset len m s = Some (BLK_STS_IOERR, s)"
proof (cases "z_wp z * of_nat SECTOR_SIZE = offset")
  case True
  then show ?thesis
    using assms by (simp add: zoned_write_def zoned_write_common_def advance_zone_def)
qed (use assms in \<open>simp add: zoned_write_def zoned_write_common_def\<close>)

theorem zoned_write_misplaced_refused_witness:
  "get_zone tiny_init (zone_number tiny_config 2560) = Some (tiny_zone 4 4 BLK_ZONE_COND_EMPTY) \<and>
   zoned_write tiny_config ramdisk_raw 0 2560 512 of_nat tiny_init = Some (BLK_STS_IOERR, tiny_init)"
proof -
  have "zone_number tiny_config 2560 = 2"
    using zone_number_div(1) [OF tiny_cfg_ok, of 2560] unfolding tiny_num_zones by (simp add: tiny_config_def)
  then have z: "get_zone tiny_init (zone_number tiny_config 2560) = Some (tiny_zone 4 4 BLK_ZONE_COND_EMPTY)"
    by (simp add: get_zone_def tiny_init_sel)
  then show ?thesis
    using zoned_write_misplaced_refused [OF z, of 512 ramdisk_raw 0 of_nat]
    by (simp add: tiny_zone_def SECTOR_SIZE_def)
qed

text \<open>
  C23. What a reset does depends on the zone's condition. A zone that is open, closed or full is rewound:
  it becomes empty with its write pointer at its start, and over the ramdisk its bytes are zero and all
  other bytes are unchanged. A zone whose condition is empty is reported reset but keeps its write
  pointer and its bytes, whatever they are; any other zone is refused and keeps them too.
\<close>

theorem zoned_reset_rewinds:
  assumes "zinv cfg s" "cfg_ok cfg" "get_zone s (zone_number cfg offset) = Some z"
    and "zoned_reset_zone cfg ramdisk_raw offset s = Some (st, s')"
  shows "zinv cfg s' \<and>
    (z_cond z \<in> {BLK_ZONE_COND_IMP_OPEN, BLK_ZONE_COND_EXP_OPEN, BLK_ZONE_COND_CLOSED, BLK_ZONE_COND_FULL} \<longrightarrow>
       st = BLK_STS_OK \<and>
       get_zone s' (zone_number cfg offset) = Some (z\<lparr>z_cond := BLK_ZONE_COND_EMPTY, z_wp := z_start z\<rparr>) \<and>
       raw_store s' = mem_set (raw_store s) (unat (z_start z * of_nat SECTOR_SIZE))
         (unat (z_len z * of_nat SECTOR_SIZE)) 0) \<and>
    (z_cond z \<notin> {BLK_ZONE_COND_IMP_OPEN, BLK_ZONE_COND_EXP_OPEN, BLK_ZONE_COND_CLOSED, BLK_ZONE_COND_FULL} \<longrightarrow>
       st = (if z_cond z = BLK_ZONE_COND_EMPTY then BLK_STS_OK else BLK_STS_IOERR) \<and>
       get_zone s' (zone_number cfg offset) = Some z \<and> raw_store s' = raw_store s)"
proof -
  obtain t where "get_stat s (zone_number cfg offset) = Some t"
    using assms(3,4) by (auto simp: zoned_reset_zone_def Let_def Option.bind_eq_Some_conv)
  moreover have "raw_store (put_stat i t s) = raw_store s" "length (zone_info (put_stat i t s)) = length (zone_info s)"
    "get_zone (put_stat i t s) = get_zone s" for i t
    by (simp_all add: put_stat_def get_zone_def fun_eq_iff)
  ultimately show ?thesis
    using assms zoned_reset_zone_zinv [OF assms(1,2,4)] get_zone_length [OF assms(3)]
    by (auto simp: zoned_reset_zone_def Let_def ramdisk_raw_def ramdisk_discard_def split: if_splits)
qed

theorem zoned_reset_rewinds_witness:
  "\<exists>s'. zoned_reset_zone tiny_config ramdisk_raw 2048 tiny_written = Some (BLK_STS_OK, s') \<and>
     get_zone s' 2 = Some (tiny_zone 4 4 BLK_ZONE_COND_EMPTY) \<and>
     raw_store s' = mem_set (raw_store tiny_written) 2048 1024 0"
proof -
  have inv: "zinv tiny_config tiny_written" by (rule zreach_zinv [OF tiny_written_reach tiny_cfg_ok])
  have n: "zone_number tiny_config 2048 = 2" using tiny_zone_number [of 2048] by simp
  then have z: "get_zone tiny_written (zone_number tiny_config 2048) = Some (tiny_zone 4 5 BLK_ZONE_COND_IMP_OPEN)"
    by (simp add: tiny_written_zone)
  have "num_zones tiny_config * nat (ZONE_SIZE tiny_config) = 4096"
    unfolding tiny_num_zones by (simp add: tiny_config_def)
  then have "zoned_reset_zone tiny_config ramdisk_raw 2048 tiny_written \<noteq> None"
    using zoned_operations_total(6) [OF tiny_written_reach tiny_cfg_ok, of 2048] by (simp add: RAMDISK_SIZE_def)
  then obtain st s' where run: "zoned_reset_zone tiny_config ramdisk_raw 2048 tiny_written = Some (st, s')" by auto
  show ?thesis
    using zoned_reset_rewinds [OF inv tiny_cfg_ok z run] run by (simp add: n tiny_zone_def SECTOR_SIZE_def)
qed

lemma open_at_limit:
  assumes "zinv cfg s" "get_zone s zone = Some z" "z_cond z = BLK_ZONE_COND_EMPTY"
    and "num_active_zones s < max_active_zones cfg" "max_open_zones cfg \<le> num_open_zones s"
    and "0 < num_imp_open_zones s"
  obtains s' where "open_zone_locked cfg zone explicit s = Some (BLK_STS_OK, s')" "zinv cfg s'" "get_zone s' zone = Some z"
    "num_active_zones s' = num_active_zones s + 1" "num_open_zones s' < num_open_zones s"
    "raw_store s' = raw_store s" "zone_stats s' = zone_stats s"
proof -
  let ?s = "s\<lparr>num_active_zones := num_active_zones s + 1\<rparr>"
  have inv: "zinv cfg ?s" using zinv_more_active [OF assms(1,4)] .
  have "get_zone ?s zone = Some z" "0 < num_imp_open_zones ?s" "\<not> is_imp (z_cond z)"
    using assms by (simp_all add: is_imp_def)
  from close_imp_open_zone_zinv [OF inv this(2,1,3)] show thesis
    using assms(2-6) that by (auto simp: open_zone_locked_def open_closed_zone_def word_less_nat_alt word_le_nat_alt)
qed

text \<open>
  C24. Opening an empty zone when all open slots are taken and one of them is held implicitly
  reports success without opening it: another zone loses its slot and the counter of active zones
  goes up, while the zone itself stays empty. An explicit open therefore has to be repeated, and
  the counter counts a zone that is not active.
\<close>

theorem open_at_limit_reports_success:
  assumes "zinv cfg s" "get_zone s zone = Some z" "z_cond z = BLK_ZONE_COND_EMPTY"
    and "num_active_zones s < max_active_zones cfg" "max_open_zones cfg \<le> num_open_zones s"
    and "0 < num_imp_open_zones s"
  shows "\<exists>s'. open_zone_locked cfg zone explicit s = Some (BLK_STS_OK, s') \<and>
    get_zone s' zone = Some z \<and> num_active_zones s' = num_active_zones s + 1 \<and>
    num_open_zones s' < num_open_zones s"
  by (rule open_at_limit [OF assms, of explicit]) blast

theorem open_at_limit_reports_success_witness:
  "zreach tiny_config ramdisk_raw tiny_written \<and>
   (\<exists>s'. open_zone_locked tiny_config 1 True tiny_written = Some (BLK_STS_OK, s') \<and>
     get_zone s' 1 = Some (tiny_zone 2 2 BLK_ZONE_COND_EMPTY) \<and> num_active_zones s' = 2 \<and> num_open_zones s' < 1)"
  using open_at_limit_reports_success [OF zreach_zinv [OF tiny_written_reach tiny_cfg_ok] tiny_written_zone(2), of True]
    tiny_written_reach
  by (simp add: tiny_write_run tiny_limits tiny_zone_def)

text \<open>
  C34. Data written at the open limit survives a reset. A write to an empty zone while all open slots are
  taken and one of them is held implicitly stores its data and moves the write pointer, but the zone
  keeps the condition empty; a reset of the zone then reports success and keeps both the write pointer
  and the data.
\<close>

theorem limit_write_survives_reset:
  assumes "zinv cfg s" "get_zone s (zone_number cfg offset) = Some z" "z_cond z = BLK_ZONE_COND_EMPTY"
    and "z_type z = BLK_ZONE_TYPE_SEQWRITE_REQ" "offset = z_wp z * of_nat SECTOR_SIZE"
    and "offset + len \<le> (z_start z + z_capacity z) * of_nat SECTOR_SIZE"
    and "z_wp z + len div of_nat SECTOR_SIZE \<noteq> z_start z + z_capacity z"
    and "num_active_zones s < max_active_zones cfg" "max_open_zones cfg \<le> num_open_zones s" "0 < num_imp_open_zones s"
    and "0 < unat len" "unat offset + unat len \<le> RAMDISK_SIZE"
  shows "\<exists>s1 s2. zoned_write cfg ramdisk_raw data offset len m s = Some (BLK_STS_OK, s1) \<and>
    zoned_reset_zone cfg ramdisk_raw offset s1 = Some (BLK_STS_OK, s2) \<and>
    get_zone s2 (zone_number cfg offset) = Some (z\<lparr>z_wp := z_wp z + len div of_nat SECTOR_SIZE\<rparr>) \<and>
    raw_store s2 = mem_write (raw_store s) (unat offset) (mem_read m data (unat len))"
proof -
  let ?i = "zone_number cfg offset" and ?z = "z\<lparr>z_wp := z_wp z + len div of_nat SECTOR_SIZE\<rparr>"
  obtain s' where s': "open_zone_locked cfg ?i False s = Some (BLK_STS_OK, s')" "zinv cfg s'" "get_zone s' ?i = Some z"
    "num_active_zones s' = num_active_zones s + 1" "num_open_zones s' < num_open_zones s"
    "raw_store s' = raw_store s" "zone_stats s' = zone_stats s" by (rule open_at_limit [OF assms(1-3,8-10), of False])
  have "?i < num_zones cfg" using assms(1) get_zone_length [OF assms(2)] by (simp add: zinv_def zones_ok_def)
  then obtain t where t: "get_stat s' ?i = Some t" using get_stat_defined [OF s'(2)] by blast
  let ?s1 = "(put_stat ?i (t\<lparr>st_written := st_written t + len\<rparr>) (put_zone ?i ?z s'))
    \<lparr>raw_store := mem_write (raw_store s) (unat offset) (mem_read m data (unat len))\<rparr>"
  have put: "get_zone (put_zone ?i ?z s') ?i = Some ?z" "get_stat (put_zone ?i ?z s') ?i = Some t"
    "raw_store (put_zone ?i ?z s') = raw_store s"
    using get_zone_length [OF s'(3)] t s'(6) by (simp_all add: get_stat_def put_zone_def get_zone_def split: if_splits)
  have adv: "advance_zone cfg ?i offset len s = Some (Inr (put_zone ?i ?z s'))"
    using assms(2,3,6,7) s'(1,3) by (simp add: advance_zone_def open_for_write_def not_less)
  have raw: "raw_write ramdisk_raw data offset len m (raw_store s) =
      Some (BLK_STS_OK, mem_write (raw_store s) (unat offset) (mem_read m data (unat len)))"
    using ramdisk.wr_ok [OF assms(11,12), of data m "raw_store s"] by (auto simp: ramdisk_raw_def)
  have put_stat: "get_zone (put_stat i t' x) = get_zone x" "raw_store (put_stat i t' x) = raw_store x" for i t' and x :: "ramdisk zoned_state"
    by (simp_all add: put_stat_def get_zone_def fun_eq_iff)
  have wrote: "zoned_write cfg ramdisk_raw data offset len m s = Some (BLK_STS_OK, ?s1)"
    using assms(2,4,5) adv put raw by (simp add: zoned_write_def zoned_write_common_def put_stat Let_def)
  have sel: "get_zone ?s1 ?i = Some ?z" using put(1) by (simp add: put_stat)
  obtain t1 where "get_stat ?s1 ?i = Some t1" using put(2) by (auto simp: get_stat_def put_stat_def split: if_splits)
  with sel have "\<exists>s2. zoned_reset_zone cfg ramdisk_raw offset ?s1 = Some (BLK_STS_OK, s2) \<and>
      get_zone s2 ?i = Some ?z \<and> raw_store s2 = raw_store ?s1"
    using assms(3) by (simp add: zoned_reset_zone_def put_stat Let_def)
  with wrote show ?thesis by auto
qed

theorem limit_write_survives_reset_witness:
  "zreach tiny_config ramdisk_raw tiny_written \<and>
   (\<exists>s1 s2. zoned_write tiny_config ramdisk_raw 100 1024 512 of_nat tiny_written = Some (BLK_STS_OK, s1) \<and>
     zoned_reset_zone tiny_config ramdisk_raw 1024 s1 = Some (BLK_STS_OK, s2) \<and>
     get_zone s2 1 = Some (tiny_zone 2 3 BLK_ZONE_COND_EMPTY) \<and>
     raw_store s2 = mem_write (raw_store tiny_written) 1024 (mem_read of_nat 100 512))"
proof -
  have n: "zone_number tiny_config 1024 = 1" using tiny_zone_number [of 1024] by simp
  have z: "get_zone tiny_written (zone_number tiny_config 1024) = Some (tiny_zone 2 2 BLK_ZONE_COND_EMPTY)"
    using tiny_written_zone(2) by (simp add: n)
  show ?thesis
    using limit_write_survives_reset [OF zreach_zinv [OF tiny_written_reach tiny_cfg_ok] z, of 512 100 of_nat] tiny_written_reach
    by (simp add: n tiny_write_run tiny_limits tiny_zone_def SECTOR_SIZE_def RAMDISK_SIZE_def)
qed

lemma initial_zones_None: "initial_zones cfg is = None \<longleftrightarrow> (\<exists>i \<in> set is. initial_zone cfg i = None)"
  by (induction "is") (auto split: Option.bind_split)

text \<open>
  C25. On which targets the zoned passthrough starts: the start sector of a zone is computed in
  \<^verbatim>\<open>int\<close>, which overflows exactly when the target has 2049 zones of 512 MiB or more, that is, from
  1 TiB and 512 MiB on.
\<close>

theorem zoned_passthrough_overflow:
  "initialize (zoned_passthrough_config target_bytes) r = None \<longleftrightarrow> 2049 * (512 * 1024 * 1024) \<le> unat target_bytes"
proof -
  let ?cfg = "zoned_passthrough_config target_bytes"
  have "num_zones ?cfg = (unat target_bytes - unat target_bytes mod 536870912) div 536870912"
    by (simp add: num_zones_def zoned_passthrough_config_def unat_div unat_sub word_le_nat_alt unat_mod)
  then have n: "num_zones ?cfg = unat target_bytes div 536870912" by (simp add: minus_mod_eq_mult_div)
  have zone: "initial_zone ?cfg i = None \<longleftrightarrow> 2048 \<le> i" for i
    by (auto simp: initial_zone_def zone_start_sector_def zoned_passthrough_config_def SECTOR_SIZE_def c_div_nonneg Let_def)
  have "initialize ?cfg r = None \<longleftrightarrow> initial_zones ?cfg [0 ..< num_zones ?cfg] = None"
    by (auto simp: initialize_def initialize_zone_info_def zoned_passthrough_config_def split: Option.bind_split)
  also have "\<dots> \<longleftrightarrow> 2049 \<le> num_zones ?cfg" by (auto simp: initial_zones_None zone intro: bexI [of _ 2048])
  also have "\<dots> \<longleftrightarrow> 2049 * (512 * 1024 * 1024) \<le> unat target_bytes"
    by (simp add: n less_eq_div_iff_mult_less_eq)
  finally show ?thesis .
qed

text \<open>
  C26. The passthrough returns what it stored. Over a file whose system calls transfer at least one
  byte and at most what is asked, after a write inside the file a read of the same range succeeds
  with the written bytes, however the calls split the transfers.
\<close>

theorem passthrough_read_after_write:
  assumes "regular_file api contents cap" "0 < unat len" "unat off + unat len \<le> cap"
    and "passthrough_write api data off len m f = Some (st, f')"
  shows "st = BLK_STS_OK \<and>
    passthrough_read api buf off len m' f' = Some (BLK_STS_OK, mem_write m' buf (mem_read m data (unat len)), f')"
  using regular_file.passthrough_read_back [OF assms] .

theorem passthrough_read_after_write_witness:
  "\<exists>f'. passthrough_write short_file_api 100 4096 10 of_nat (\<lambda>_. 0) = Some (BLK_STS_OK, f') \<and>
     passthrough_read short_file_api 7000 4096 10 (\<lambda>_. 0) f' =
       Some (BLK_STS_OK, mem_write (\<lambda>_. 0) 7000 (mem_read of_nat 100 10), f')"
proof -
  obtain st f' where run: "passthrough_write short_file_api 100 4096 10 of_nat (\<lambda>_. 0) = Some (st, f')"
    using short_file.pass.wr_ok [of 10 4096 100 of_nat "\<lambda>_. 0"] by auto
  from passthrough_read_after_write [OF short_file.regular_file_axioms _ _ this, of 7000 "\<lambda>_. 0"] run
  show ?thesis by simp
qed

end
