(* ===== verification/Bius_Library.thy ===== *)
theory Bius_Library
  imports Bius_Backend Bius_Request
begin

text \<open>
  The user library (libbius.c): the messages that create or join a device, the loop that reads a
  command, carries it out with the operations of the program and writes the reply, and
  \<open>bius_main\<close>. The open file of \<^verbatim>\<open>/dev/bius\<close> is a parameter (\<open>fd_api\<close>) over a state \<open>'w\<close> of
  the other side; a system call that never returns is \<open>None\<close>, and so is undefined behaviour of the
  library itself. A header is passed as a value: a read of \<^verbatim>\<open>sizeof\<close> bytes fills it. \<^verbatim>\<open>exit(n)\<close> is
  \<open>Inl n\<close>.
\<close>

section \<open>The descriptor\<close>

text \<open>
  \<open>fd_read_header\<close> and \<open>fd_read_data\<close> are \<^verbatim>\<open>read\<close> with a header or a buffer as destination: the
  result and what was stored. Reading a command can change the process's memory where the kernel
  maps pages into it. \<open>fd_write\<close> is \<^verbatim>\<open>write\<close> of a reply header; the kernel sees the process's
  memory during the call. \<open>fd_mmap\<close> says whether \<^verbatim>\<open>mmap\<close> succeeds.
\<close>

record 'w fd_api =
  fd_read_header :: "mem \<Rightarrow> 'w \<Rightarrow> (int \<times> bius_k2u_header \<times> mem \<times> 'w) option"
  fd_read_data :: "nat \<Rightarrow> 'w \<Rightarrow> (int \<times> byte list \<times> 'w) option"
  fd_write :: "bius_u2k_header \<Rightarrow> mem \<Rightarrow> 'w \<Rightarrow> (int \<times> 'w) option"
  fd_mmap :: "'w \<Rightarrow> bool \<times> 'w"

section \<open>Creating and connecting\<close>

text \<open>
  \<open>options_address\<close> and \<open>name_address\<close> are the addresses of the options and of the name in them;
  \<^verbatim>\<open>strlen\<close> runs to the terminating zero, which must be inside the array.
\<close>

definition disk_name_strlen :: "bius_block_device_options \<Rightarrow> nat option" where
  "disk_name_strlen options =
     (if 0 \<in> set (opt_disk_name options)
      then Some (length (takeWhile (\<lambda>b. b \<noteq> 0) (opt_disk_name options))) else None)"

definition init_message ::
  "bius_req \<Rightarrow> bius_block_device_options \<Rightarrow> nat \<Rightarrow> bius_u2k_header option" where
  "init_message req options address = do {
     n \<leftarrow> disk_name_strlen options;
     Some \<lparr>u2k_id = 0, u2k_union = u2k_init_union (bius_req_code req) (of_nat n),
           u2k_user_data = of_nat address\<rparr>
   }"

definition user_create_block_device ::
  "'w fd_api \<Rightarrow> bius_block_device_options \<Rightarrow> nat \<Rightarrow> mem \<Rightarrow> 'w \<Rightarrow> (int + 'w) option" where
  "user_create_block_device fd options options_address m w = do {
     u2k \<leftarrow> init_message BIUS_CREATE options options_address;
     (result, w) \<leftarrow> fd_write fd u2k m w;
     Some (if result < 0 then Inl 1 else Inr w)
   }"

definition connect_block_device ::
  "'w fd_api \<Rightarrow> bius_block_device_options \<Rightarrow> nat \<Rightarrow> mem \<Rightarrow> 'w \<Rightarrow> (int + 'w) option" where
  "connect_block_device fd options name_address m w = do {
     u2k \<leftarrow> init_message BIUS_CONNECT options name_address;
     (result, w) \<leftarrow> fd_write fd u2k m w;
     Some (if result < 0 then Inl 1 else Inr w)
   }"

section \<open>Reading a command and writing a reply\<close>

text \<open>
  A read that returns nothing leaves the header as it was; a short read is turned into an error. The
  header is \<open>None\<close> before anything was stored in it.
\<close>

definition read_command ::
  "'w fd_api \<Rightarrow> bius_k2u_header option \<Rightarrow> mem \<Rightarrow> 'w
     \<Rightarrow> (int \<times> bius_k2u_header option \<times> mem \<times> 'w) option" where
  "read_command fd header m w = do {
     (result, h, m, w) \<leftarrow> fd_read_header fd m w;
     Some (to_c_int (if 0 < result \<and> result < int SIZEOF_K2U_HEADER then - 1 else result),
           if 0 < result then Some h else header, m, w)
   }"

definition write_command :: "'w fd_api \<Rightarrow> bius_u2k_header \<Rightarrow> mem \<Rightarrow> 'w \<Rightarrow> (int \<times> 'w) option" where
  "write_command fd header m w = do {
     (result, w) \<leftarrow> fd_write fd header m w;
     Some (to_c_int (if 0 < result \<and> result < int SIZEOF_U2K_HEADER then - 1 else result), w)
   }"

section \<open>Data that arrives through the descriptor\<close>

text \<open>
  The loop of \<open>handle_copy_in\<close>: \<open>len\<close> is the length in the header, \<open>buffer_size\<close> the size of the
  buffer, past which nothing may be stored.
\<close>

function copy_in_loop ::
  "'w fd_api \<Rightarrow> nat \<Rightarrow> nat \<Rightarrow> nat \<Rightarrow> nat \<Rightarrow> mem \<Rightarrow> 'w \<Rightarrow> (int + mem \<times> 'w) option" where
  "copy_in_loop fd buffer buffer_size len total_read m w =
     (if total_read < len then
        (case fd_read_data fd (len - total_read) w of
           None \<Rightarrow> None
         | Some (read_size, bs, w) \<Rightarrow>
             if read_size \<le> 0 then Some (Inl 1)
             else if buffer_size < total_read + nat read_size then None
             else copy_in_loop fd buffer buffer_size len (total_read + nat read_size)
                    (mem_write m (buffer + total_read) (take (nat read_size) bs)) w)
      else Some (Inr (m, w)))"
  by pat_completeness auto
termination
  by (relation "measure (\<lambda>(fd, buffer, buffer_size, len, total_read, m, w). len - total_read)") auto

declare copy_in_loop.simps [simp del]

definition handle_copy_in ::
  "'w fd_api \<Rightarrow> nat \<Rightarrow> nat \<Rightarrow> bius_k2u_header \<Rightarrow> mem \<Rightarrow> 'w
     \<Rightarrow> (int + bius_k2u_header \<times> mem \<times> 'w) option" where
  "handle_copy_in fd buffer buffer_size header m w =
     (if request_may_have_data (k2u_opcode header) \<and> k2u_data_map_type header = BIUS_DATAMAP_UNMAPPED
      then
        (let header' = header\<lparr>k2u_data_map_type := BIUS_DATAMAP_SIMPLE,
                              k2u_data_address := of_nat buffer, k2u_mapping_data := 0\<rparr>
         in if request_is_write (k2u_opcode header) then
              map_option (map_sum id (\<lambda>(m, w). (header', m, w)))
                (copy_in_loop fd buffer buffer_size (unat (k2u_length header)) 0 m w)
            else Some (Inr (header', m, w)))
      else Some (Inr (header, m, w)))"

section \<open>Carrying out a block command\<close>

text \<open>
  The result is the status, what is left in \<^verbatim>\<open>*out_user_data\<close>, the memory and the device. \<open>notsupp\<close>
  is the branch of a missing operation or an opcode without a case.
\<close>

type_synonym 'd command_result = "(int \<times> u64 \<times> mem \<times> 'd) option"

definition status :: "blk_status \<Rightarrow> int" where
  "status st = int (unat st)"

definition notsupp :: "u64 \<Rightarrow> mem \<Rightarrow> 'd \<Rightarrow> 'd command_result" where
  "notsupp user_data m d = Some (status BLK_STS_NOTSUPP, user_data, m, d)"

definition call_read :: "'d bius_operations \<Rightarrow> nat \<Rightarrow> u64 \<Rightarrow> u64 \<Rightarrow> u64 \<Rightarrow> mem \<Rightarrow> 'd \<Rightarrow> 'd command_result" where
  "call_read ops address offset len user_data m d =
     (case op_read ops of
        None \<Rightarrow> notsupp user_data m d
      | Some f \<Rightarrow> map_option (\<lambda>(st, m, d). (status st, user_data, m, d)) (f address offset len m d))"

definition call_write :: "'d bius_operations \<Rightarrow> nat \<Rightarrow> u64 \<Rightarrow> u64 \<Rightarrow> u64 \<Rightarrow> mem \<Rightarrow> 'd \<Rightarrow> 'd command_result" where
  "call_write ops address offset len user_data m d =
     (case op_write ops of
        None \<Rightarrow> notsupp user_data m d
      | Some f \<Rightarrow> map_option (\<lambda>(st, d). (status st, user_data, m, d)) (f address offset len m d))"

text \<open>\<open>want\<close> says that \<^verbatim>\<open>out_user_data\<close> itself, not a null pointer, is passed on.\<close>

definition call_append ::
  "'d bius_operations \<Rightarrow> nat \<Rightarrow> u64 \<Rightarrow> u64 \<Rightarrow> bool \<Rightarrow> u64 \<Rightarrow> mem \<Rightarrow> 'd \<Rightarrow> 'd command_result" where
  "call_append ops address offset len want user_data m d =
     (case op_append_zone ops of
        None \<Rightarrow> notsupp user_data m d
      | Some f \<Rightarrow> map_option (\<lambda>(st, pos, d). (status st, case_option user_data (\<lambda>p. p) pos, m, d))
                    (f address offset len want m d))"

definition call_range :: "'d range_op option \<Rightarrow> u64 \<Rightarrow> u64 \<Rightarrow> u64 \<Rightarrow> mem \<Rightarrow> 'd \<Rightarrow> 'd command_result" where
  "call_range op offset len user_data m d =
     (case op of
        None \<Rightarrow> notsupp user_data m d
      | Some f \<Rightarrow> map_option (\<lambda>(st, d). (status st, user_data, m, d)) (f offset len d))"

definition call_zone :: "'d zone_op option \<Rightarrow> u64 \<Rightarrow> u64 \<Rightarrow> mem \<Rightarrow> 'd \<Rightarrow> 'd command_result" where
  "call_zone op offset user_data m d =
     (case op of
        None \<Rightarrow> notsupp user_data m d
      | Some f \<Rightarrow> map_option (\<lambda>(st, d). (status st, user_data, m, d)) (f offset d))"

definition call_dev :: "'d dev_op option \<Rightarrow> u64 \<Rightarrow> mem \<Rightarrow> 'd \<Rightarrow> 'd command_result" where
  "call_dev op user_data m d =
     (case op of
        None \<Rightarrow> notsupp user_data m d
      | Some f \<Rightarrow> map_option (\<lambda>(st, d). (status st, user_data, m, d)) (f d))"

text \<open>
  The list of segments of a command whose pages are not contiguous: pairs of address and size,
  64-bit words in the process's memory, ended by a zero address. The index is an \<^verbatim>\<open>int\<close> and the
  subscript \<^verbatim>\<open>i * 2 + 1\<close> must not overflow it.
\<close>

definition u64_at :: "mem \<Rightarrow> nat \<Rightarrow> u64" where
  "u64_at m a = of_nat (le_nat (mem_read m a 8))"

definition segment_call ::
  "'d bius_operations \<Rightarrow> bius_req \<Rightarrow> nat \<Rightarrow> u64 \<Rightarrow> u64 \<Rightarrow> bool \<Rightarrow> u64 \<Rightarrow> mem \<Rightarrow> 'd \<Rightarrow> 'd command_result" where
  "segment_call ops opcode address offset segment_size first_call user_data m d =
     (case opcode of
        BIUS_READ \<Rightarrow> call_read ops address offset segment_size user_data m d
      | BIUS_WRITE \<Rightarrow> call_write ops address offset segment_size user_data m d
      | BIUS_ZONE_APPEND \<Rightarrow> call_append ops address offset segment_size first_call user_data m d
      | _ \<Rightarrow> notsupp user_data m d)"

function datamap_loop ::
  "'d bius_operations \<Rightarrow> bius_req \<Rightarrow> nat \<Rightarrow> nat \<Rightarrow> u64 \<Rightarrow> bool \<Rightarrow> u64 \<Rightarrow> mem \<Rightarrow> 'd \<Rightarrow> 'd command_result" where
  "datamap_loop ops opcode datamap_list i offset first_call user_data m d =
     (if 2 ^ 30 \<le> i then None
      else
        (let data_address = u64_at m (datamap_list + 16 * i);
             segment_size = u64_at m (datamap_list + 16 * i + 8)
         in if data_address = 0 then Some (status BLK_STS_OK, user_data, m, d)
            else
              (case segment_call ops opcode (unat data_address) offset segment_size first_call user_data m d of
                 None \<Rightarrow> None
               | Some (result, user_data, m, d) \<Rightarrow>
                   if result \<noteq> status BLK_STS_OK then Some (result, user_data, m, d)
                   else datamap_loop ops opcode datamap_list (i + 1) (offset + segment_size) False user_data m d)))"
  by pat_completeness auto
termination
  by (relation "measure (\<lambda>(ops, opcode, datamap_list, i, offset, first_call, user_data, m, d). 2 ^ 30 - i)") auto

declare datamap_loop.simps [simp del]

definition handle_blk_command_with_datamap_list ::
  "'d bius_operations \<Rightarrow> bius_k2u_header \<Rightarrow> u64 \<Rightarrow> mem \<Rightarrow> 'd \<Rightarrow> 'd command_result" where
  "handle_blk_command_with_datamap_list ops k2u user_data m d =
     datamap_loop ops (k2u_opcode k2u) (unat (k2u_mapping_data k2u)) 0 (k2u_offset k2u) True user_data m d"

definition handle_blk_command ::
  "'d bius_operations \<Rightarrow> bius_k2u_header \<Rightarrow> u64 \<Rightarrow> mem \<Rightarrow> 'd \<Rightarrow> 'd command_result" where
  "handle_blk_command ops k2u user_data m d =
     (if k2u_data_map_type k2u = BIUS_DATAMAP_LIST
      then handle_blk_command_with_datamap_list ops k2u user_data m d
      else
        (let position = k2u_data_address k2u + k2u_mapping_data k2u;
             offset = k2u_offset k2u; len = k2u_length k2u
         in case k2u_opcode k2u of
              BIUS_READ \<Rightarrow> call_read ops (unat position) offset len position m d
            | BIUS_WRITE \<Rightarrow> call_write ops (unat position) offset len user_data m d
            | BIUS_DISCARD \<Rightarrow> call_range (op_discard ops) offset len user_data m d
            | BIUS_FLUSH \<Rightarrow> call_dev (op_flush ops) user_data m d
            | BIUS_ZONE_OPEN \<Rightarrow> call_zone (op_open_zone ops) offset user_data m d
            | BIUS_ZONE_CLOSE \<Rightarrow> call_zone (op_close_zone ops) offset user_data m d
            | BIUS_ZONE_FINISH \<Rightarrow> call_zone (op_finish_zone ops) offset user_data m d
            | BIUS_ZONE_APPEND \<Rightarrow> call_append ops (unat position) offset len True user_data m d
            | BIUS_ZONE_RESET \<Rightarrow> call_zone (op_reset_zone ops) offset user_data m d
            | BIUS_ZONE_RESET_ALL \<Rightarrow> call_dev (op_reset_all_zone ops) user_data m d
            | _ \<Rightarrow> notsupp user_data m d))"

section \<open>The request loop\<close>

text \<open>
  What one turn of the loop leaves for the next: the command header, and the reply and user data of
  the reply header (\<open>None\<close> before they were first stored), the memory, the device and the other side.
\<close>

record ('w, 'd) serving =
  sv_k2u :: "bius_k2u_header option"
  sv_answer :: "(u64 \<times> u64) option"
  sv_mem :: mem
  sv_dev :: 'd
  sv_world :: 'w

text \<open>
  The answer to a command: a block command's status and user data, or a zone report's size in bytes
  and its buffer, which \<open>malloc\<close> gives (zero for a null pointer). A zone report without an operation
  leaves the answer of the command before.
\<close>

definition answer_command ::
  "'d bius_operations \<Rightarrow> (nat \<Rightarrow> nat) \<Rightarrow> bius_k2u_header \<Rightarrow> (u64 \<times> u64) option \<Rightarrow> mem \<Rightarrow> 'd
     \<Rightarrow> ((u64 \<times> u64) option \<times> mem \<times> 'd) option" where
  "answer_command ops malloc k2u answer m d =
     (if is_blk_request (k2u_opcode k2u) then do {
        (reply, user_data, m, d) \<leftarrow> handle_blk_command ops k2u 0 m d;
        Some (Some (u2k_reply_union reply, user_data), m, d)
      }
      else case op_report_zones ops of
        None \<Rightarrow> Some (answer, m, d)
      | Some f \<Rightarrow> do {
          let zone_info = malloc (unat (of_nat SIZEOF_BLK_ZONE * k2u_length k2u));
          (n, m) \<leftarrow> f (k2u_offset k2u) (to_c_int (uint (k2u_length k2u))) zone_info m d;
          Some (Some (u2k_reply_union (n * int SIZEOF_BLK_ZONE), of_nat zone_info), m, d)
        })"

definition handle_request ::
  "'w fd_api \<Rightarrow> 'd bius_operations \<Rightarrow> (nat \<Rightarrow> nat) \<Rightarrow> nat \<Rightarrow> nat \<Rightarrow> ('w, 'd) serving
     \<Rightarrow> (int + ('w, 'd) serving) option" where
  "handle_request fd ops malloc buffer buffer_size sv = do {
     (result, k2u, m, w) \<leftarrow> read_command fd (sv_k2u sv) (sv_mem sv) (sv_world sv);
     (if result < 0 then Some (Inl 1)
      else do {
        k2u \<leftarrow> k2u;
        r \<leftarrow> handle_copy_in fd buffer buffer_size k2u m w;
        (case r of
           Inl n \<Rightarrow> Some (Inl n)
         | Inr (k2u, m, w) \<Rightarrow> do {
             (answer, m, d) \<leftarrow> answer_command ops malloc k2u (sv_answer sv) m (sv_dev sv);
             (reply, user_data) \<leftarrow> answer;
             (result, w) \<leftarrow> write_command fd \<lparr>u2k_id = k2u_id k2u, u2k_union = reply, u2k_user_data = user_data\<rparr> m w;
             Some (if result < 0 then Inl 1
                   else Inr \<lparr>sv_k2u = Some k2u, sv_answer = answer, sv_mem = m, sv_dev = d, sv_world = w\<rparr>)
           })
      })
   }"

text \<open>The first \<open>n\<close> turns of the loop, which has no other end than \<^verbatim>\<open>exit\<close>.\<close>

fun serve ::
  "'w fd_api \<Rightarrow> 'd bius_operations \<Rightarrow> (nat \<Rightarrow> nat) \<Rightarrow> nat \<Rightarrow> nat \<Rightarrow> nat \<Rightarrow> ('w, 'd) serving
     \<Rightarrow> (int + ('w, 'd) serving) option" where
  "serve fd ops malloc buffer buffer_size 0 sv = Some (Inr sv)"
| "serve fd ops malloc buffer buffer_size (Suc n) sv =
     (case handle_request fd ops malloc buffer buffer_size sv of
        None \<Rightarrow> None
      | Some (Inl e) \<Rightarrow> Some (Inl e)
      | Some (Inr sv) \<Rightarrow> serve fd ops malloc buffer buffer_size n sv)"

text \<open>The allocations of the process: the copy buffer, and \<^verbatim>\<open>malloc\<close>.\<close>

record process_env =
  pe_datamap :: bool
  pe_copy_buffer :: "nat option"
  pe_malloc :: "nat \<Rightarrow> nat"

definition copy_buffer_size :: "bool \<Rightarrow> nat" where
  "copy_buffer_size datamap = (if datamap then BIUS_MAP_DATA_THRESHOLD else BIUS_MAX_SIZE_PER_COMMAND)"

definition handle_requests ::
  "'w fd_api \<Rightarrow> process_env \<Rightarrow> 'd bius_operations \<Rightarrow> nat \<Rightarrow> mem \<Rightarrow> 'd \<Rightarrow> 'w
     \<Rightarrow> (int + ('w, 'd) serving) option" where
  "handle_requests fd env ops n m d w =
     (let (mapped, w) = (if pe_datamap env then fd_mmap fd w else (True, w))
      in if \<not> mapped then Some (Inl 1)
         else case pe_copy_buffer env of
           None \<Rightarrow> Some (Inl 1)
         | Some buffer \<Rightarrow>
             serve fd ops (pe_malloc env) buffer (copy_buffer_size (pe_datamap env)) n
               \<lparr>sv_k2u = None, sv_answer = None, sv_mem = m, sv_dev = d, sv_world = w\<rparr>)"

section \<open>Threads and the main function\<close>

text \<open>
  \<open>main_env\<close> gives what the environment answers: the addresses of the options and of the name in them,
  whether \<^verbatim>\<open>malloc\<close> of the thread table and \<^verbatim>\<open>open\<close> succeed, and the result of the \<open>i\<close>-th
  \<^verbatim>\<open>pthread_create\<close>. The state of the other side is that of the thread's own descriptor.
\<close>

record main_env =
  me_options_address :: nat
  me_threads_ok :: bool
  me_open_ok :: bool
  me_pthread_create :: "nat \<Rightarrow> int"

definition DISK_NAME_OFFSET :: nat where [bius_const]: "DISK_NAME_OFFSET = 24"

definition thread_main ::
  "'w fd_api \<Rightarrow> process_env \<Rightarrow> main_env \<Rightarrow> 'd bius_operations \<Rightarrow> bius_block_device_options
     \<Rightarrow> nat \<Rightarrow> mem \<Rightarrow> 'd \<Rightarrow> 'w \<Rightarrow> (int + ('w, 'd) serving) option" where
  "thread_main fd env me ops options n m d w =
     (if \<not> me_open_ok me then Some (Inl 1)
      else do {
        r \<leftarrow> connect_block_device fd options (me_options_address me + DISK_NAME_OFFSET) m w;
        (case r of
           Inl e \<Rightarrow> Some (Inl e)
         | Inr w \<Rightarrow> handle_requests fd env ops n m d w)
      })"

text \<open>
  How the main function stands after at most \<open>n\<close> commands: it returned, the process exited, or it
  is serving.
\<close>

datatype ('w, 'd) main_result = Return int | Exit int | Serving "('w, 'd) serving"

fun start_threads :: "main_env \<Rightarrow> nat list \<Rightarrow> int option" where
  "start_threads me [] = None"
| "start_threads me (i # is) =
     (if me_pthread_create me i < 0 then Some (me_pthread_create me i) else start_threads me is)"

definition BIUS_DEFAULT_NUM_THREADS :: nat where [bius_const]: "BIUS_DEFAULT_NUM_THREADS = 4"

definition num_threads_of :: "bius_block_device_options \<Rightarrow> nat" where
  "num_threads_of options =
     (if opt_num_threads options \<noteq> 0 then unat (opt_num_threads options) else BIUS_DEFAULT_NUM_THREADS)"

definition bius_main_real ::
  "'w fd_api \<Rightarrow> process_env \<Rightarrow> main_env \<Rightarrow> 'd bius_operations option
     \<Rightarrow> bius_block_device_options option \<Rightarrow> nat \<Rightarrow> mem \<Rightarrow> 'd \<Rightarrow> 'w \<Rightarrow> ('w, 'd) main_result option" where
  "bius_main_real fd env me operations options n m d w =
     (case (operations, options) of
        (Some operations, Some options) \<Rightarrow>
          if \<not> me_threads_ok me then Some (Return (- ENOMEM))
          else if \<not> me_open_ok me then Some (Exit 1)
          else do {
            r \<leftarrow> user_create_block_device fd options (me_options_address me) m w;
            (case r of
               Inl e \<Rightarrow> Some (Exit e)
             | Inr w \<Rightarrow>
                 (case start_threads me [0 ..< num_threads_of options - 1] of
                    Some result \<Rightarrow> Some (Return result)
                  | None \<Rightarrow> map_option (case_sum Exit Serving) (handle_requests fd env operations n m d w)))
          }
      | _ \<Rightarrow> Some (Return (- EINVAL)))"

text \<open>\<open>bius_main\<close> returns with \<^verbatim>\<open>errno\<close> set.\<close>

datatype ('w, 'd) bius_main_result = Main_return int int | Main_exit int | Main_serving "('w, 'd) serving"

definition bius_main ::
  "'w fd_api \<Rightarrow> process_env \<Rightarrow> main_env \<Rightarrow> 'd bius_operations option
     \<Rightarrow> bius_block_device_options option \<Rightarrow> nat \<Rightarrow> mem \<Rightarrow> 'd \<Rightarrow> 'w \<Rightarrow> ('w, 'd) bius_main_result option" where
  "bius_main fd env me operations options n m d w =
     map_option (\<lambda>r. case r of
         Return result \<Rightarrow> if result < 0 then Main_return (- 1) result else Main_return result 0
       | Exit e \<Rightarrow> Main_exit e
       | Serving sv \<Rightarrow> Main_serving sv)
       (bius_main_real fd env me operations options n m d w)"

end
