(* ===== verification/Bius_Library_Properties.thy ===== *)
theory Bius_Library_Properties
  imports Bius_Library
begin

text \<open>
  What the library's handling of one command rests on and achieves: data that arrives through the
  descriptor is assembled whatever the sizes of the reads, and a command on a list of segments has
  the effect of one command on their concatenation.
\<close>

section \<open>Data read from a stream\<close>

text \<open>
  \<open>stream w\<close> are the bytes the descriptor still has to deliver; a read delivers some of them. \<open>same\<close>
  relates the states of the other side between which only delivery makes a difference.
\<close>

locale byte_stream =
  fixes fd :: "'w fd_api" and stream :: "'w \<Rightarrow> byte list" and same :: "'w \<Rightarrow> 'w \<Rightarrow> bool"
  assumes same_refl: "same w w" and same_trans: "same a b \<Longrightarrow> same b c \<Longrightarrow> same a c"
    and read_some: "0 < n \<Longrightarrow> stream w \<noteq> [] \<Longrightarrow>
      \<exists>bs w'. fd_read_data fd n w = Some (int (length bs), bs, w') \<and> bs \<noteq> [] \<and> length bs \<le> n \<and>
        stream w = bs @ stream w' \<and> same w w'"
begin

lemma copy_in_loop_ok:
  assumes "k \<le> len" "len \<le> buffer_size" "len - k \<le> length (stream w)"
  shows "\<exists>w'. copy_in_loop fd buffer buffer_size len k m w =
      Some (Inr (mem_write m (buffer + k) (take (len - k) (stream w)), w')) \<and>
    stream w' = drop (len - k) (stream w) \<and> same w w'"
  using assms
proof (induction "len - k" arbitrary: k m w rule: less_induct)
  case less
  show ?case
  proof (cases "k < len")
    case True
    then have "0 < len - k" "stream w \<noteq> []" using less.prems(3) by auto
    from read_some [OF this] obtain bs w1 where r: "fd_read_data fd (len - k) w = Some (int (length bs), bs, w1)"
      "bs \<noteq> []" "length bs \<le> len - k" "stream w = bs @ stream w1" "same w w1" by blast
    let ?k = "k + length bs"
    have "len - ?k < len - k" "?k \<le> len" "len - ?k \<le> length (stream w1)"
      using r(2-4) True less.prems(3) by (auto simp: less_diff_conv)
    from less.hyps [OF this(1,2) less.prems(2) this(3), of "mem_write m (buffer + k) bs"]
    obtain w' where w': "copy_in_loop fd buffer buffer_size len ?k (mem_write m (buffer + k) bs) w1 =
        Some (Inr (mem_write (mem_write m (buffer + k) bs) (buffer + ?k) (take (len - ?k) (stream w1)), w'))"
      "stream w' = drop (len - ?k) (stream w1)" "same w1 w'" by blast
    have "mem_write (mem_write m (buffer + k) bs) (buffer + ?k) (take (len - ?k) (stream w1)) =
        mem_write m (buffer + k) (take (len - k) (stream w))"
      using mem_write_append [of m "buffer + k" bs] r(3,4) by (simp add: add.assoc)
    moreover have "drop (len - ?k) (stream w1) = drop (len - k) (stream w)" using r(3,4) by simp
    ultimately show ?thesis
      using w' r True less.prems(2) \<open>?k \<le> len\<close> same_trans [OF r(5) w'(3)]
      by (subst copy_in_loop.simps) simp
  next
    case False
    then show ?thesis using less.prems same_refl by (subst copy_in_loop.simps) simp
  qed
qed

lemma handle_copy_in_write:
  assumes "request_is_write (k2u_opcode h)" "k2u_data_map_type h = BIUS_DATAMAP_UNMAPPED"
    and "unat (k2u_length h) \<le> buffer_size" "unat (k2u_length h) \<le> length (stream w)"
  shows "\<exists>w'. handle_copy_in fd buffer buffer_size h m w =
      Some (Inr (h\<lparr>k2u_data_map_type := BIUS_DATAMAP_SIMPLE, k2u_data_address := of_nat buffer, k2u_mapping_data := 0\<rparr>,
        mem_write m buffer (take (unat (k2u_length h)) (stream w)), w')) \<and>
    stream w' = drop (unat (k2u_length h)) (stream w) \<and> same w w'"
  using copy_in_loop_ok [of 0 "unat (k2u_length h)" buffer_size w buffer m] assms write_has_data
  by (auto simp: handle_copy_in_def)

end

lemma handle_copy_in_read:
  assumes "request_may_have_data (k2u_opcode h)" "\<not> request_is_write (k2u_opcode h)"
    "k2u_data_map_type h = BIUS_DATAMAP_UNMAPPED"
  shows "handle_copy_in fd buffer buffer_size h m w = Some (Inr (h\<lparr>k2u_data_map_type := BIUS_DATAMAP_SIMPLE,
    k2u_data_address := of_nat buffer, k2u_mapping_data := 0\<rparr>, m, w))"
  using assms by (simp add: handle_copy_in_def)

section \<open>Commands on a list of segments\<close>

text \<open>\<open>datamap_at m a segs\<close>: the memory holds at \<open>a\<close> the list \<open>segs\<close> of addresses and sizes with its end mark.\<close>

fun datamap_at :: "mem \<Rightarrow> nat \<Rightarrow> (u64 \<times> u64) list \<Rightarrow> bool" where
  "datamap_at m a [] \<longleftrightarrow> u64_at m a = 0"
| "datamap_at m a ((address, n) # segs) \<longleftrightarrow>
     address \<noteq> 0 \<and> u64_at m a = address \<and> u64_at m (a + 8) = n \<and> datamap_at m (a + 16) segs"

definition seg_total :: "(u64 \<times> u64) list \<Rightarrow> nat" where
  "seg_total segs = sum_list (map (\<lambda>(_, n). unat n) segs)"

text \<open>Gathering the bytes of the segments, and scattering bytes over them.\<close>

definition gather :: "mem \<Rightarrow> (u64 \<times> u64) list \<Rightarrow> byte list" where
  "gather m segs = concat (map (\<lambda>(address, n). mem_read m (unat address) (unat n)) segs)"

fun scatter :: "mem \<Rightarrow> (u64 \<times> u64) list \<Rightarrow> byte list \<Rightarrow> mem" where
  "scatter m [] bs = m"
| "scatter m ((address, n) # segs) bs =
     scatter (mem_write m (unat address) (take (unat n) bs)) segs (drop (unat n) bs)"

definition seg_addresses :: "(u64 \<times> u64) list \<Rightarrow> nat list" where
  "seg_addresses segs = concat (map (\<lambda>(address, n). [unat address ..< unat address + unat n]) segs)"

lemma seg_simps [simp]:
  "seg_total [] = 0" "seg_total ((address, n) # segs) = unat n + seg_total segs"
  "gather m [] = []" "gather m ((address, n) # segs) = mem_read m (unat address) (unat n) @ gather m segs"
  "seg_addresses [] = []"
  "seg_addresses ((address, n) # segs) = [unat address ..< unat address + unat n] @ seg_addresses segs"
  by (simp_all add: seg_total_def gather_def seg_addresses_def)

lemma gather_map: "gather m segs = map m (seg_addresses segs)"
  by (induction segs) (auto simp: mem_read_def)

lemma length_seg_addresses [simp]: "length (seg_addresses segs) = seg_total segs"
  by (induction segs) auto

lemma length_gather [simp]: "length (gather m segs) = seg_total segs"
  by (simp add: gather_map)

lemma scatter_frame: "x \<notin> set (seg_addresses segs) \<Longrightarrow> scatter m segs bs x = m x"
  by (induction m segs bs rule: scatter.induct) (auto simp: mem_write_def)

lemma scatter_gather:
  "distinct (seg_addresses segs) \<Longrightarrow> length bs = seg_total segs \<Longrightarrow> gather (scatter m segs bs) segs = bs"
proof (induction m segs bs rule: scatter.induct)
  case (2 m address n segs bs)
  let ?a = "unat address" and ?n = "unat n"
  let ?m = "mem_write m ?a (take ?n bs)"
  have len: "length (take ?n bs) = ?n" using 2(3) by simp
  have "scatter ?m segs (drop ?n bs) x = ?m x" if "x \<in> {?a ..< ?a + ?n}" for x
    using that 2(2) by (intro scatter_frame) auto
  then have "mem_read (scatter ?m segs (drop ?n bs)) ?a ?n = mem_read ?m ?a ?n" by (simp add: mem_read_def)
  also have "\<dots> = take ?n bs" using mem_read_write_same [of m ?a "take ?n bs"] unfolding len .
  finally show ?case using 2 by simp
qed simp

lemma u64_at_cong: "\<forall>x \<in> {a ..< a + 8}. m x = m' x \<Longrightarrow> u64_at m a = u64_at m' a"
  by (auto simp: u64_at_def mem_read_def intro!: arg_cong [where f = "\<lambda>bs. of_nat (le_nat bs)"])

lemma datamap_at_cong:
  "\<forall>x \<in> {a ..< a + 16 * length segs + 8}. m x = m' x \<Longrightarrow> datamap_at m a segs = datamap_at m' a segs"
proof (induction segs arbitrary: a)
  case Nil
  then show ?case using u64_at_cong [of a m m'] by simp
next
  case (Cons s segs)
  moreover obtain address n where s: "s = (address, n)" by (cases s)
  moreover have "u64_at m a = u64_at m' a" "u64_at m (a + 8) = u64_at m' (a + 8)"
    by (rule u64_at_cong; use Cons.prems in simp)+
  ultimately show ?case by simp
qed

text \<open>On a store, the loop over a list of segments has the effect of one operation.\<close>

context block_store
begin

lemma datamap_loop_write:
  assumes "op_write ops = Some wr" "datamap_at m (l + 16 * i) segs" "i + length segs < 2 ^ 30"
    and "\<forall>(a, n) \<in> set segs. 0 < unat n" "unat off + seg_total segs \<le> cap" "cap < 2 ^ 64"
  shows "\<exists>d'. datamap_loop ops BIUS_WRITE l i off first ud m d = Some (0, ud, m, d') \<and>
    contents d' = mem_write (contents d) (unat off) (gather m segs)"
  using assms(2-5)
proof (induction segs arbitrary: i off first d)
  case Nil
  then show ?case by (subst datamap_loop.simps) (simp add: status_def BLK_STS_OK_def)
next
  case (Cons s segs)
  obtain address n where s: "s = (address, n)" by (cases s)
  have n: "0 < unat n" "unat off + unat n \<le> cap" using Cons.prems s by auto
  from wr_ok [OF n, of "unat address" m d] obtain d1 where d1: "wr (unat address) off n m d = Some (BLK_STS_OK, d1)"
    "contents d1 = mem_write (contents d) (unat off) (mem_read m (unat address) (unat n))" by blast
  have off: "unat (off + n) = unat off + unat n"
    using n(2) assms(6) by (simp add: unat_word_ariths)
  have "datamap_at m (l + 16 * (i + 1)) segs" "i + 1 + length segs < 2 ^ 30"
    "\<forall>(a, n) \<in> set segs. 0 < unat n" "unat (off + n) + seg_total segs \<le> cap"
    using Cons.prems off by (auto simp: s algebra_simps)
  from Cons.IH [OF this, of False d1] obtain d' where d':
    "datamap_loop ops BIUS_WRITE l (i + 1) (off + n) False ud m d1 = Some (0, ud, m, d')"
    "contents d' = mem_write (contents d1) (unat (off + n)) (gather m segs)" by blast
  have "contents d' = mem_write (contents d) (unat off) (gather m (s # segs))"
    using mem_write_append [of "contents d" "unat off" "mem_read m (unat address) (unat n)"]
    by (simp add: d'(2) d1(2) off s)
  then show ?case
    using Cons.prems d' d1(1) assms(1)
    by (subst datamap_loop.simps)
      (simp add: s segment_call_def call_write_def status_def BLK_STS_OK_def)
qed

lemma datamap_loop_read:
  assumes "op_read ops = Some rd" "datamap_at m (l + 16 * i) segs" "i + length segs < 2 ^ 30"
    and "\<forall>(a, n) \<in> set segs. 0 < unat n" "unat off + seg_total segs \<le> cap" "cap < 2 ^ 64"
    and "set (seg_addresses segs) \<inter> {l + 16 * i ..< l + 16 * (i + length segs) + 8} = {}"
  shows "datamap_loop ops BIUS_READ l i off first ud m d =
    Some (0, ud, scatter m segs (mem_read (contents d) (unat off) (seg_total segs)), d)"
  using assms(2-5,7)
proof (induction segs arbitrary: i off first m)
  case Nil
  then show ?case by (subst datamap_loop.simps) (simp add: status_def BLK_STS_OK_def)
next
  case (Cons s segs)
  obtain address n where s: "s = (address, n)" by (cases s)
  have n: "0 < unat n" "unat off + unat n \<le> cap" using Cons.prems s by auto
  let ?m = "mem_write m (unat address) (mem_read (contents d) (unat off) (unat n))"
  note rd = rd_ok [OF n, of "unat address" m d]
  have off: "unat (off + n) = unat off + unat n"
    using n(2) assms(6) by (simp add: unat_word_ariths)
  have "?m x = m x" if x: "x \<in> {l + 16 * (i + 1) ..< l + 16 * (i + 1) + 16 * length segs + 8}" for x
  proof -
    have "x \<in> {l + 16 * i ..< l + 16 * (i + length (s # segs)) + 8}" using x by simp
    then have "x \<notin> set (seg_addresses (s # segs))" using Cons.prems(5) by blast
    then show ?thesis by (intro mem_write_outside) (auto simp: s)
  qed
  then have "datamap_at ?m (l + 16 * (i + 1)) segs = datamap_at m (l + 16 * (i + 1)) segs"
    by (intro datamap_at_cong) blast
  then have "datamap_at ?m (l + 16 * (i + 1)) segs" "i + 1 + length segs < 2 ^ 30"
    "\<forall>(a, n) \<in> set segs. 0 < unat n" "unat (off + n) + seg_total segs \<le> cap"
    using Cons.prems off by (auto simp: s algebra_simps)
  moreover have "set (seg_addresses segs) \<inter> {l + 16 * (i + 1) ..< l + 16 * (i + 1 + length segs) + 8} = {}"
    using Cons.prems(5) by (auto simp: s disjoint_iff)
  ultimately have "datamap_loop ops BIUS_READ l (i + 1) (off + n) False ud ?m d =
      Some (0, ud, scatter ?m segs (mem_read (contents d) (unat off + unat n) (seg_total segs)), d)"
    using Cons.IH [of ?m "i + 1" "off + n" False] by (simp add: off)
  moreover have "mem_read (contents d) (unat off) (unat n + seg_total segs) =
      mem_read (contents d) (unat off) (unat n) @ mem_read (contents d) (unat off + unat n) (seg_total segs)"
    by (rule mem_read_add)
  ultimately show ?case
    using Cons.prems rd assms(1)
    by (subst datamap_loop.simps)
      (simp add: s segment_call_def call_read_def status_def BLK_STS_OK_def)
qed

end

end
