(* ===== verification/Bius_Library_Claims.thy ===== *)
theory Bius_Library_Claims
  imports Bius_Library_Properties
begin

text \<open>The theorems on the user library alone, with concrete instances.\<close>

section \<open>Commands on a list of segments\<close>

text \<open>A memory with a list of two segments at 64: four bytes at 256 and eight at 512.\<close>

definition list_mem :: mem where
  "list_mem = (\<lambda>a. if 200 \<le> a then of_nat a else if a = 65 then 1 else if a = 72 then 4
                    else if a = 81 then 2 else if a = 88 then 8 else 0)"

definition list_header :: "bius_req \<Rightarrow> bius_k2u_header" where
  "list_header opcode = \<lparr>k2u_id = 7, k2u_opcode = opcode, k2u_offset = 4096, k2u_length = 12, k2u_data_address = 0,
     k2u_mapping_data = 64, k2u_data_map_type = BIUS_DATAMAP_LIST\<rparr>"

lemma list_mem_datamap: "datamap_at list_mem 64 [(256, 4), (512, 8)]"
  by (simp add: u64_at_def mem_read_def list_mem_def upt_rec_numeral)

text \<open>
  C31. A write command whose pages are not contiguous has the effect of one write: the bytes of the
  segments, one after the other, are stored at the command's position of the ramdisk, and the status is
  success.
\<close>

theorem list_write_is_one_write:
  assumes "k2u_opcode h = BIUS_WRITE" "k2u_data_map_type h = BIUS_DATAMAP_LIST"
    and "datamap_at m (unat (k2u_mapping_data h)) segs" "length segs < 2 ^ 30" "\<forall>(a, n) \<in> set segs. 0 < unat n"
    and "unat (k2u_offset h) + seg_total segs \<le> RAMDISK_SIZE"
  shows "handle_blk_command ramdisk_operations h ud m d =
    Some (0, ud, m, mem_write d (unat (k2u_offset h)) (gather m segs))"
proof -
  have op: "op_write ramdisk_operations = Some ramdisk_write" by (simp add: ramdisk_operations_def)
  have cap: "RAMDISK_SIZE < 2 ^ 64" by (simp add: RAMDISK_SIZE_def)
  from ramdisk.datamap_loop_write [OF op _ _ assms(5,6) cap, of m "unat (k2u_mapping_data h)" 0] assms(1-4)
  show ?thesis by (fastforce simp: handle_blk_command_def handle_blk_command_with_datamap_list_def)
qed

theorem list_write_is_one_write_witness:
  "handle_blk_command ramdisk_operations (list_header BIUS_WRITE) 0 list_mem (\<lambda>_. 0) =
     Some (0, 0, list_mem, mem_write (\<lambda>_. 0) 4096 (map of_nat [256, 257, 258, 259, 512, 513, 514, 515, 516, 517, 518, 519]))"
proof -
  have "gather list_mem [(256, 4), (512, 8)] = map of_nat [256, 257, 258, 259, 512, 513, 514, 515, 516, 517, 518, 519]"
    by (simp add: mem_read_def list_mem_def upt_rec_numeral)
  then show ?thesis
    using list_write_is_one_write [of "list_header BIUS_WRITE" list_mem "[(256, 4), (512, 8)]" 0 "\<lambda>_. 0"] list_mem_datamap
    by (simp add: list_header_def RAMDISK_SIZE_def)
qed

text \<open>
  C32. A read command whose pages are not contiguous fills its segments, one after the other, with the
  bytes at the command's position, provided the segments do not overlap each other or the list; no
  other memory changes.
\<close>

theorem list_read_fills_segments:
  assumes "k2u_opcode h = BIUS_READ" "k2u_data_map_type h = BIUS_DATAMAP_LIST"
    and "datamap_at m (unat (k2u_mapping_data h)) segs" "length segs < 2 ^ 30" "\<forall>(a, n) \<in> set segs. 0 < unat n"
    and "unat (k2u_offset h) + seg_total segs \<le> RAMDISK_SIZE" "distinct (seg_addresses segs)"
    and "set (seg_addresses segs) \<inter> {unat (k2u_mapping_data h) ..< unat (k2u_mapping_data h) + 16 * length segs + 8} = {}"
  shows "\<exists>m'. handle_blk_command ramdisk_operations h ud m d = Some (0, ud, m', d) \<and>
    gather m' segs = mem_read d (unat (k2u_offset h)) (seg_total segs) \<and>
    (\<forall>x. x \<notin> set (seg_addresses segs) \<longrightarrow> m' x = m x)"
proof -
  let ?m = "scatter m segs (mem_read d (unat (k2u_offset h)) (seg_total segs))"
  have op: "op_read ramdisk_operations = Some ramdisk_read" by (simp add: ramdisk_operations_def)
  have cap: "RAMDISK_SIZE < 2 ^ 64" by (simp add: RAMDISK_SIZE_def)
  have "handle_blk_command ramdisk_operations h ud m d = Some (0, ud, ?m, d)"
    using ramdisk.datamap_loop_read [OF op _ _ assms(5,6) cap, of m "unat (k2u_mapping_data h)" 0 True ud d] assms(1-4,8)
    by (simp add: handle_blk_command_def handle_blk_command_with_datamap_list_def)
  then show ?thesis using scatter_gather [OF assms(7), of _ m] scatter_frame [of _ segs m] by simp
qed

theorem list_read_fills_segments_witness:
  "\<exists>m'. handle_blk_command ramdisk_operations (list_header BIUS_READ) 0 list_mem of_nat = Some (0, 0, m', of_nat) \<and>
     gather m' [(256, 4), (512, 8)] = mem_read of_nat 4096 12 \<and> m' 300 = 44"
proof -
  have "m' 300 = 44" if "\<forall>x. x \<notin> set (seg_addresses [(256, 4), (512, 8)]) \<longrightarrow> m' x = list_mem x" for m' :: mem
    using that by (simp add: list_mem_def)
  then show ?thesis
    using list_read_fills_segments [of "list_header BIUS_READ" list_mem "[(256, 4), (512, 8)]" 0 of_nat] list_mem_datamap
    by (fastforce simp: list_header_def RAMDISK_SIZE_def disjoint_iff)
qed

section \<open>What the loop does with a failing descriptor\<close>

text \<open>
  C33. An end of file on the descriptor is not taken as an error: the loop carries out the command of
  the turn before once more and sends its reply again. (With data of a write already in the buffer the
  header of the turn before says so, and no data is read.)
\<close>

theorem eof_repeats_command:
  assumes "fd_read_header fd (sv_mem sv) (sv_world sv) = Some (0, junk, sv_mem sv, w)"
    and "sv_k2u sv = Some h" "k2u_data_map_type h \<noteq> BIUS_DATAMAP_UNMAPPED" "is_blk_request (k2u_opcode h)"
    and "handle_blk_command ops h 0 (sv_mem sv) (sv_dev sv) = Some (reply, ud, m', d')"
    and "fd_write fd \<lparr>u2k_id = k2u_id h, u2k_union = u2k_reply_union reply, u2k_user_data = ud\<rparr> m' w =
      Some (int SIZEOF_U2K_HEADER, w')"
  shows "handle_request fd ops malloc buffer buffer_size sv =
    Some (Inr \<lparr>sv_k2u = Some h, sv_answer = Some (u2k_reply_union reply, ud), sv_mem = m', sv_dev = d', sv_world = w'\<rparr>)"
  using assms
  by (simp add: handle_request_def read_command_def write_command_def handle_copy_in_def answer_command_def
      to_c_int_def SIZEOF_U2K_HEADER_def)

text \<open>A descriptor at its end that records the replies.\<close>

definition eof_fd :: "bius_u2k_header list fd_api" where
  "eof_fd = \<lparr>fd_read_header = (\<lambda>m w. Some (0, list_header BIUS_READ, m, w)), fd_read_data = (\<lambda>n w. Some (0, [], w)),
     fd_write = (\<lambda>h m w. Some (24, w @ [h])), fd_mmap = (\<lambda>w. (True, w))\<rparr>"

definition eof_serving :: "(bius_u2k_header list, ramdisk) serving" where
  "eof_serving = \<lparr>sv_k2u = Some (list_header BIUS_WRITE), sv_answer = None, sv_mem = list_mem, sv_dev = (\<lambda>_. 0),
     sv_world = []\<rparr>"

theorem eof_repeats_command_witness:
  "\<exists>d'. handle_request eof_fd ramdisk_operations (\<lambda>_. 0) 0 0 eof_serving =
    Some (Inr \<lparr>sv_k2u = Some (list_header BIUS_WRITE), sv_answer = Some (u2k_reply_union 0, 0), sv_mem = list_mem,
      sv_dev = d', sv_world = [\<lparr>u2k_id = 7, u2k_union = u2k_reply_union 0, u2k_user_data = 0\<rparr>]\<rparr>)"
proof -
  let ?h = "list_header BIUS_WRITE"
  from ramdisk.datamap_loop_write [of ramdisk_operations list_mem 64 0 "[(256, 4), (512, 8)]" 4096 True 0 "\<lambda>_. 0"]
  obtain d' where d': "handle_blk_command ramdisk_operations ?h 0 list_mem (\<lambda>_. 0) = Some (0, 0, list_mem, d')"
    using list_mem_datamap
    by (auto simp: handle_blk_command_def handle_blk_command_with_datamap_list_def list_header_def
        ramdisk_operations_def RAMDISK_SIZE_def)
  show ?thesis
    using eof_repeats_command [of eof_fd eof_serving "list_header BIUS_READ" "[]" ?h ramdisk_operations 0 0 list_mem d'
        "[\<lparr>u2k_id = 7, u2k_union = u2k_reply_union 0, u2k_user_data = 0\<rparr>]" "\<lambda>_. 0" 0 0] d'
    by (auto simp: eof_fd_def eof_serving_def list_header_def is_blk_request_def SIZEOF_U2K_HEADER_def)
qed

end
