(* ===== verification/Bius_System.thy ===== *)
theory Bius_System
  imports Bius_Kernel_Properties Bius_Library_Properties
begin

text \<open>
  The library on top of the kernel module: the descriptor of the library is a connection of the
  module, in the build without data mapping. One turn of the library's loop takes the oldest pending
  request, carries it out and answers it; data moves between the segments of the request and the
  device behind the operations.
\<close>

section \<open>The module behind the descriptor\<close>

text \<open>
  The system calls of a thread on its connection \<open>c\<close>, with its memory fully accessible. A read that
  would sleep does not return; a header where data is due, or the reverse, does not occur (shown below)
  and is \<open>None\<close>.
\<close>

definition user_of :: "mem \<Rightarrow> user_env" where
  "user_of m = \<lparr>ue_mem = m, ue_not_copied = (\<lambda>_ _. 0)\<rparr>"

definition kernel_read :: "'bio bio_api \<Rightarrow> ptr \<Rightarrow> nat \<Rightarrow> 'bio kstate \<Rightarrow> (int \<times> read_output \<times> 'bio kstate) option" where
  "kernel_read api c n s =
     (case bius_dev_read api False (\<lambda>_ n. n) False c n s of
        Some (Returned r) \<Rightarrow> Some r
      | _ \<Rightarrow> None)"

definition kernel_fd :: "'bio bio_api \<Rightarrow> nat \<Rightarrow> create_env \<Rightarrow> ptr \<Rightarrow> 'bio kstate fd_api" where
  "kernel_fd api z env c =
     \<lparr>fd_read_header = (\<lambda>m s. case kernel_read api c SIZEOF_K2U_HEADER s of
          Some (ret, Header_output h, s) \<Rightarrow> Some (ret, h, m, s) | _ \<Rightarrow> None),
      fd_read_data = (\<lambda>n s. case kernel_read api c n s of
          Some (ret, Data_output bs, s) \<Rightarrow> Some (ret, bs, s) | _ \<Rightarrow> None),
      fd_write = (\<lambda>h m s. bius_dev_write api False z env (user_of m) SIZEOF_U2K_HEADER h c SIZEOF_U2K_HEADER s),
      fd_mmap = (\<lambda>s. (False, s))\<rparr>"

text \<open>The bytes of the request \<open>p\<close> that connection \<open>c\<close> still has to deliver.\<close>

definition sending_ok :: "('bio \<Rightarrow> nat list) \<Rightarrow> ptr \<Rightarrow> ptr \<Rightarrow> 'bio kstate \<Rightarrow> 'bio blk_part \<Rightarrow> bool" where
  "sending_ok addrs c p s b \<longleftrightarrow>
     (\<exists>cn r. ks_conns s c = Some cn \<and> cn_block_dev cn \<noteq> None \<and> cn_sending cn = Some p \<and>
        ks_reqs s p = Some r \<and> blk_fields r = Some b \<and> req_map_type b = BIUS_DATAMAP_UNMAPPED \<and>
        req_map_data b = length (chain_addrs addrs (req_bio b)) \<and> req_map_data b < 2 ^ 64)"

definition sending_part :: "ptr \<Rightarrow> 'bio kstate \<Rightarrow> 'bio blk_part option" where
  "sending_part p s = Option.bind (ks_reqs s p) blk_fields"

definition sending_bytes :: "('bio \<Rightarrow> nat list) \<Rightarrow> ptr \<Rightarrow> ptr \<Rightarrow> 'bio kstate \<Rightarrow> byte list" where
  "sending_bytes addrs c p s =
     (case sending_part p s of
        Some b \<Rightarrow> if sending_ok addrs c p s b then map (ks_mem s) (chain_addrs addrs (req_bio b)) else []
      | None \<Rightarrow> [])"

text \<open>Between the states \<open>s\<close> and \<open>s'\<close> only data of the request \<open>p\<close> was delivered to \<open>c\<close>.\<close>

definition req_head :: "'bio bius_request \<Rightarrow> u64 \<times> bius_req \<times> u64 \<times> nat" where
  "req_head r = (req_id r, req_type r, req_pos r, req_length r)"

definition conn_head :: "ptr \<Rightarrow> bius_connection \<Rightarrow> ptr option \<times> ptr list \<times> ptr option" where
  "conn_head p cn = (cn_block_dev cn, cn_waiting cn, if cn_sending cn = Some p then None else cn_sending cn)"

definition quiet :: "ptr \<Rightarrow> ptr \<Rightarrow> 'bio kstate \<Rightarrow> 'bio kstate \<Rightarrow> bool" where
  "quiet c p s s' \<longleftrightarrow> (kinv s \<longrightarrow> kinv s') \<and> ks_mem s' = ks_mem s \<and> ks_ended s' = ks_ended s \<and>
     ks_devs s' = ks_devs s \<and> ks_rqs s' = ks_rqs s \<and>
     map_option req_head (ks_reqs s' p) = map_option req_head (ks_reqs s p) \<and>
     (\<forall>q. q \<noteq> p \<longrightarrow> ks_reqs s' q = ks_reqs s q) \<and>
     map_option (conn_head p) (ks_conns s' c) = map_option (conn_head p) (ks_conns s c)"

lemma quiet_refl: "quiet c p s s"
  by (simp add: quiet_def)

lemma quiet_trans: "quiet c p s t \<Longrightarrow> quiet c p t u \<Longrightarrow> quiet c p s u"
  by (simp add: quiet_def)

text \<open>What the kernel documents of bios, as a contract.\<close>

locale kernel_services =
  fixes api :: "'bio bio_api" and addrs :: "'bio \<Rightarrow> nat list"
  assumes api_ok: "bio_api_ok api addrs"
begin

lemma kernel_read_data:
  assumes n: "0 < n" and b: "sending_ok addrs c p s b" "chain_addrs addrs (req_bio b) \<noteq> []"
  shows "\<exists>k b' s'. kernel_read api c n s =
      Some (int k, Data_output (map (ks_mem s) (take k (chain_addrs addrs (req_bio b)))), s') \<and>
    0 < k \<and> k \<le> n \<and> k \<le> length (chain_addrs addrs (req_bio b)) \<and> quiet c p s s' \<and>
    sending_part p s' = Some b' \<and> chain_addrs addrs (req_bio b') = drop k (chain_addrs addrs (req_bio b)) \<and>
    (k < length (chain_addrs addrs (req_bio b)) \<longrightarrow> sending_ok addrs c p s' b')"
proof -
  obtain cn r where r: "ks_conns s c = Some cn" "cn_block_dev cn \<noteq> None" "cn_sending cn = Some p"
    "ks_reqs s p = Some r" "blk_fields r = Some b" "req_map_type b = BIUS_DATAMAP_UNMAPPED"
    "req_map_data b = length (chain_addrs addrs (req_bio b))" "req_map_data b < 2 ^ 64"
    using b(1) by (auto simp: sending_ok_def)
  from bius_send_data_correct [OF api_ok _ r(5-8), of "\<lambda>_ n. n" "ks_mem s" n]
  obtain bio' where send: "bius_send_data api (\<lambda>_ n. n) (ks_mem s) r n = Some (int (min (req_map_data b) n),
      map (ks_mem s) (take (min (req_map_data b) n) (chain_addrs addrs (req_bio b))),
      set_blk_fields (b\<lparr>req_bio := bio', req_map_data := req_map_data b - min (req_map_data b) n\<rparr>) r)"
    "chain_addrs addrs bio' = drop (min (req_map_data b) n) (chain_addrs addrs (req_bio b))" by auto
  define k where "k = min (req_map_data b) n"
  define b' where "b' = b\<lparr>req_bio := bio', req_map_data := req_map_data b - k\<rparr>"
  define s' where "s' = (if req_map_data b' = 0
    then put_conn c (cn\<lparr>cn_sending := None\<rparr>) (put_req p (set_blk_fields b' r) s) else put_req p (set_blk_fields b' r) s)"
  have b'_sel: "blk_fields (set_blk_fields b' r) = Some b'" "req_map_type b' = BIUS_DATAMAP_UNMAPPED"
    "req_map_data b' = length (chain_addrs addrs (req_bio b'))" "req_map_data b' < 2 ^ 64"
    using r(6-8) send(2) by (auto simp: set_blk_fields_def blk_fields_def b'_def k_def)
  have read: "bius_dev_read api False (\<lambda>_ n. n) False c n s =
      Some (Returned (int k, Data_output (map (ks_mem s) (take k (chain_addrs addrs (req_bio b)))), s'))"
    using r(1-4) send(1) b'_sel
    by (auto simp: bius_dev_read_def dev_read_sending_def request_io_done_def bius_sel s'_def
        simp flip: k_def b'_def)
  have "quiet c p s s'"
    using bius_dev_read_refines [OF _ read] r(1,3,4)
    by (auto simp: quiet_def s'_def bius_sel req_head_def conn_head_def set_blk_fields_def)
  moreover have "sending_part p s' = Some b'" by (simp add: sending_part_def s'_def bius_sel b'_sel)
  moreover have "chain_addrs addrs (req_bio b') = drop k (chain_addrs addrs (req_bio b))"
    using send(2) by (simp add: b'_def k_def)
  moreover have "sending_ok addrs c p s' b'" if "k < length (chain_addrs addrs (req_bio b))"
    using that b'_sel r(1-4,7) by (auto simp: sending_ok_def s'_def b'_def bius_sel)
  moreover have "0 < k" using n b(2) r(7) by (simp add: k_def)
  ultimately show ?thesis
    using read r(7) by (auto simp: kernel_read_def k_def)
qed

end

text \<open>So a connection with a write in transfer is a stream for the library.\<close>

sublocale kernel_services \<subseteq> transfer: byte_stream "kernel_fd api z env c" "sending_bytes addrs c p" "quiet c p"
  for z env c p
proof unfold_locales
  show "quiet c p w w" for w :: "'bio kstate" by (rule quiet_refl)
  show "quiet c p u v \<Longrightarrow> quiet c p v w \<Longrightarrow> quiet c p u w" for u v w :: "'bio kstate" by (rule quiet_trans)
  fix n :: nat and w :: "'bio kstate"
  assume n: "0 < n" and "sending_bytes addrs c p w \<noteq> []"
  then obtain b where b: "sending_part p w = Some b" "sending_ok addrs c p w b" "chain_addrs addrs (req_bio b) \<noteq> []"
    "sending_bytes addrs c p w = map (ks_mem w) (chain_addrs addrs (req_bio b))"
    by (auto simp: sending_bytes_def split: option.splits if_splits)
  let ?chain = "chain_addrs addrs (req_bio b)"
  from kernel_read_data [OF n b(2,3)] obtain k b' w' where k:
    "kernel_read api c n w = Some (int k, Data_output (map (ks_mem w) (take k ?chain)), w')"
    "0 < k" "k \<le> n" "k \<le> length ?chain" "quiet c p w w'" "sending_part p w' = Some b'"
    "chain_addrs addrs (req_bio b') = drop k ?chain" "k < length ?chain \<longrightarrow> sending_ok addrs c p w' b'" by blast
  have "ks_mem w' = ks_mem w" using k(5) by (simp add: quiet_def)
  then have "sending_bytes addrs c p w' = map (ks_mem w) (drop k ?chain)"
    using k(4,6-8) by (auto simp: sending_bytes_def)
  then have "sending_bytes addrs c p w = map (ks_mem w) (take k ?chain) @ sending_bytes addrs c p w'"
    using b(4) by (simp flip: map_append)
  then show "\<exists>bs w'. fd_read_data (kernel_fd api z env c) n w = Some (int (length bs), bs, w') \<and> bs \<noteq> [] \<and>
      length bs \<le> n \<and> sending_bytes addrs c p w = bs @ sending_bytes addrs c p w' \<and> quiet c p w w'"
    using k(1-5) by (intro exI [of _ "map (ks_mem w) (take k ?chain)"] exI [of _ w'])
      (auto simp: kernel_fd_def min_def)
qed

section \<open>One turn of the loop\<close>

text \<open>
  A connection ready for its next command, with the request \<open>p\<close> at the head of its device's pending list.
\<close>

definition ready :: "ptr \<Rightarrow> ptr \<Rightarrow> 'bio bius_request \<Rightarrow> ptr list \<Rightarrow> 'bio kstate \<Rightarrow> bool" where
  "ready c p r rest s \<longleftrightarrow> kinv s \<and> ks_reqs s p = Some r \<and>
     (\<exists>cn d dev. ks_conns s c = Some cn \<and> cn_block_dev cn = Some d \<and> cn_sending cn = None \<and>
        ks_devs s d = Some dev \<and> bd_pending dev = p # rest)"

text \<open>The pending list seen by a connection that is between commands.\<close>

definition pending_at :: "ptr \<Rightarrow> 'bio kstate \<Rightarrow> ptr list option" where
  "pending_at c s = do {
     cn \<leftarrow> ks_conns s c;
     d \<leftarrow> cn_block_dev cn;
     dev \<leftarrow> ks_devs s d;
     (if cn_sending cn = None then Some (bd_pending dev) else None)
   }"

lemma ready_pending: "ready c p r rest s \<longleftrightarrow> kinv s \<and> ks_reqs s p = Some r \<and> pending_at c s = Some (p # rest)"
  by (auto simp: ready_def pending_at_def Option.bind_eq_Some_conv split: if_splits)

text \<open>After the command was read the request waits at the connection.\<close>

definition fetched :: "ptr \<Rightarrow> ptr \<Rightarrow> 'bio bius_request \<Rightarrow> ptr list \<Rightarrow> 'bio kstate \<Rightarrow> 'bio kstate \<Rightarrow> bool" where
  "fetched c p r rest s s' \<longleftrightarrow> kinv s' \<and> ks_mem s' = ks_mem s \<and> ks_ended s' = ks_ended s \<and> ks_rqs s' = ks_rqs s \<and>
     map_option req_head (ks_reqs s' p) = Some (req_head r) \<and> (\<forall>q. q \<noteq> p \<longrightarrow> ks_reqs s' q = ks_reqs s q) \<and>
     (\<exists>cn d dev. ks_conns s' c = Some cn \<and> cn_block_dev cn = Some d \<and> p \<in> set (cn_waiting cn) \<and>
        (cn_sending cn = None \<or> cn_sending cn = Some p) \<and> ks_devs s' d = Some dev \<and> bd_pending dev = rest)"

lemma fetched_quiet:
  assumes "fetched c p r rest s t" "quiet c p t u"
  shows "fetched c p r rest s u"
proof -
  obtain cn d dev where cn: "ks_conns t c = Some cn" "cn_block_dev cn = Some d" "p \<in> set (cn_waiting cn)"
    "cn_sending cn = None \<or> cn_sending cn = Some p" "ks_devs t d = Some dev" "bd_pending dev = rest"
    using assms(1) by (auto simp: fetched_def)
  then obtain cn' where "ks_conns u c = Some cn'" "conn_head p cn' = conn_head p cn"
    using assms(2) by (auto simp: quiet_def)
  then have "\<exists>cn d dev. ks_conns u c = Some cn \<and> cn_block_dev cn = Some d \<and> p \<in> set (cn_waiting cn) \<and>
      (cn_sending cn = None \<or> cn_sending cn = Some p) \<and> ks_devs u d = Some dev \<and> bd_pending dev = rest"
    using cn assms(2) by (auto simp: conn_head_def quiet_def split: if_splits)
  then show ?thesis using assms by (auto simp: fetched_def quiet_def)
qed

text \<open>
  What a turn has done when request \<open>p\<close> was the oldest: it is answered, the rest of the pending list is
  next, and the other requests are untouched.
\<close>

definition turn_done :: "ptr \<Rightarrow> ptr \<Rightarrow> kblk_status \<Rightarrow> ptr list \<Rightarrow> 'b kstate \<Rightarrow> 'b kstate \<Rightarrow> bool" where
  "turn_done c p st rest s s' \<longleftrightarrow> kinv s' \<and> pending_at c s' = Some rest \<and> ks_ended s' = ks_ended s @ [(p, st)] \<and>
     (\<forall>q. q \<noteq> p \<longrightarrow> ks_reqs s' q = ks_reqs s q \<and> ks_rqs s' q = ks_rqs s q)"

text \<open>The header of a command once its data is, or will be, in the buffer.\<close>

definition simple_header :: "nat \<Rightarrow> 'bio bius_request \<Rightarrow> bius_k2u_header" where
  "simple_header buffer r = (command_header r)\<lparr>k2u_data_map_type := BIUS_DATAMAP_SIMPLE,
     k2u_data_address := of_nat buffer, k2u_mapping_data := 0\<rparr>"

lemma unat_address: "a < 2 ^ 64 \<Longrightarrow> unat (of_nat a :: u64) = a"
  by (intro of_nat_inverse [OF refl]) simp

lemma status_reply: "u2k_union h = u2k_reply_union (status st) \<Longrightarrow> u2k_reply h = status st"
  using uint_bounded [of st] uint_nonnegative [of st]
  by (intro u2k_reply_roundtrip) (simp_all add: status_def order.trans [of _ 0])

lemma status_zero: "status st = 0 \<longleftrightarrow> st = BLK_STS_OK"
  by (simp add: status_def BLK_STS_OK_def uint_0_iff)

lemma status_byte: "word_of_int (status st) = (ucast st :: kblk_status)"
  by (simp add: status_def)

text \<open>A turn is the composition of its four steps.\<close>

lemma handle_request_run:
  assumes "read_command fd (sv_k2u sv) (sv_mem sv) (sv_world sv) = Some (56, Some h, m, w1)"
    and "handle_copy_in fd buffer buffer_size h m w1 = Some (Inr (h', m', w2))"
    and "answer_command ops malloc h' (sv_answer sv) m' (sv_dev sv) = Some (Some (reply, ud), m2, d1)"
    and "write_command fd \<lparr>u2k_id = k2u_id h', u2k_union = reply, u2k_user_data = ud\<rparr> m2 w2 = Some (24, w3)"
  shows "handle_request fd ops malloc buffer buffer_size sv =
    Some (Inr \<lparr>sv_k2u = Some h', sv_answer = Some (reply, ud), sv_mem = m2, sv_dev = d1, sv_world = w3\<rparr>)"
  using assms by (simp add: handle_request_def)

lemma sending_fetched:
  assumes "ks_reqs s p = Some (fetched_request r)" "ks_conns s c = Some cn" "cn_block_dev cn \<noteq> None"
    "cn_sending cn = Some p" "blk_fields r = Some b" "req_map_type b = BIUS_DATAMAP_UNMAPPED"
    "req_length r = length (chain_addrs addrs (req_bio b))" "sends_data r" "req_length r < 2 ^ 64"
  shows "sending_bytes addrs c p s = map (ks_mem s) (chain_addrs addrs (req_bio b))"
proof -
  have "fetched_request r = set_blk_fields (b\<lparr>req_map_data := req_length r\<rparr>) r"
    using assms by (simp add: fetched_request_def)
  then have part: "blk_fields (fetched_request r) = Some (b\<lparr>req_map_data := req_length r\<rparr>)"
    by (simp add: set_blk_fields_def blk_fields_def)
  then have "sending_ok addrs c p s (b\<lparr>req_map_data := req_length r\<rparr>)"
    using assms by (auto simp: sending_ok_def)
  then show ?thesis using assms(1) part by (simp add: sending_bytes_def sending_part_def)
qed

lemma to_c_int_sizes: "to_c_int (int SIZEOF_K2U_HEADER) = 56" "to_c_int (int SIZEOF_U2K_HEADER) = 24"
  by (simp_all add: SIZEOF_K2U_HEADER_def SIZEOF_U2K_HEADER_def to_c_int_def)

context kernel_services
begin

text \<open>Reading the command.\<close>

lemma read_command_turn:
  assumes "ready c p r rest s"
  shows "\<exists>s1. read_command (kernel_fd api z env c) k2u m s = Some (56, Some (command_header r), m, s1) \<and>
    fetched c p r rest s s1 \<and> ks_reqs s1 p = Some (fetched_request r) \<and>
    (sends_data r \<longrightarrow> (\<exists>cn. ks_conns s1 c = Some cn \<and> cn_block_dev cn \<noteq> None \<and> cn_sending cn = Some p))"
proof -
  obtain cn d dev where r: "kinv s" "ks_reqs s p = Some r" "ks_conns s c = Some cn" "cn_block_dev cn = Some d"
    "cn_sending cn = None" "ks_devs s d = Some dev" "bd_pending dev = p # rest"
    using assms by (auto simp: ready_def)
  from bius_dev_read_head [where copy_to_iter = "\<lambda>_ n. n" and n = SIZEOF_K2U_HEADER and api = api and sig = False,
      OF r(1,3-7,2)]
  obtain s1 where s1: "bius_dev_read api False (\<lambda>_ n. n) False c SIZEOF_K2U_HEADER s =
      Some (Returned (int SIZEOF_K2U_HEADER, Header_output (command_header r), s1))" "kinv s1"
    "ks_devs s1 = (ks_devs s)(d \<mapsto> dev\<lparr>bd_pending := rest\<rparr>)"
    "ks_conns s1 = (ks_conns s)(c \<mapsto> cn\<lparr>cn_sending := (if sends_data r then Some p else None),
      cn_waiting := cn_waiting cn @ [p]\<rparr>)"
    "ks_reqs s1 = (ks_reqs s)(p \<mapsto> fetched_request r)" "ks_rqs s1 = ks_rqs s" "ks_mem s1 = ks_mem s"
    "ks_ended s1 = ks_ended s" by auto
  have "req_head (fetched_request r) = req_head r"
    by (simp add: fetched_request_def req_head_def set_blk_fields_def split: option.split)
  then have "fetched c p r rest s s1" using s1(2-8) r(4) by (simp add: fetched_def)
  moreover have "fd_read_header (kernel_fd api z env c) m s = Some (int SIZEOF_K2U_HEADER, command_header r, m, s1)"
    using s1(1) by (simp add: kernel_fd_def kernel_read_def)
  then have "read_command (kernel_fd api z env c) k2u m s = Some (56, Some (command_header r), m, s1)"
    by (simp add: read_command_def to_c_int_sizes) (simp add: SIZEOF_K2U_HEADER_def)
  ultimately show ?thesis using s1(4,5) r(4) by simp
qed

text \<open>The answered request leaves the connection ready for the next one.\<close>

lemma replied_ready:
  assumes "fetched c p r rest s t" "ks_conns t c = Some cn" "replied c cn p st t s'"
  shows "kinv s' \<and> pending_at c s' = Some rest \<and> ks_ended s' = ks_ended s @ [(p, st)] \<and>
    (\<forall>q. q \<noteq> p \<longrightarrow> ks_reqs s' q = ks_reqs s q \<and> ks_rqs s' q = ks_rqs s q)"
  using assms by (auto simp: fetched_def replied_def pending_at_def Option.bind_eq_Some_conv)

lemma fetchedD:
  assumes "fetched c p r rest s t"
  obtains cn r' where "kinv t" "ks_conns t c = Some cn" "cn_block_dev cn \<noteq> None" "p \<in> set (cn_waiting cn)"
    "ks_reqs t p = Some r'" "req_id r' = req_id r" "req_type r' = req_type r"
  using assms by (auto simp: fetched_def req_head_def)

lemma write_command_turn:
  assumes t: "fetched c p r rest s t" and r: "is_blk_request (req_type r)" "u2k_id h = req_id r"
    and st: "u2k_reply h = 0 \<longrightarrow> req_type r \<noteq> BIUS_READ"
  shows "\<exists>s'. write_command (kernel_fd api z env c) h m t = Some (24, s') \<and> kinv s' \<and>
    pending_at c s' = Some rest \<and> ks_ended s' = ks_ended s @ [(p, word_of_int (u2k_reply h))] \<and> ks_mem s' = ks_mem s \<and>
    (\<forall>q. q \<noteq> p \<longrightarrow> ks_reqs s' q = ks_reqs s q \<and> ks_rqs s' q = ks_rqs s q) \<and>
    (req_type r = BIUS_ZONE_APPEND \<longrightarrow> map_option rq_bio_sector (ks_rqs s' p) =
       Some (word_of_int (c_div (sint (u2k_user_data h)) (int SECTOR_SIZE))))"
proof -
  obtain cn r' where t': "kinv t" "ks_conns t c = Some cn" "cn_block_dev cn \<noteq> None" "p \<in> set (cn_waiting cn)"
    "ks_reqs t p = Some r'" "req_id r' = req_id r" "req_type r' = req_type r" using fetchedD [OF t] .
  have "0 < SIZEOF_U2K_HEADER" by (simp add: SIZEOF_U2K_HEADER_def)
  from reply_run [OF t'(1-5), of h SIZEOF_U2K_HEADER SIZEOF_U2K_HEADER api z env "user_of m"] this r st t'(6,7)
  obtain s' where s': "bius_dev_write api False z env (user_of m) SIZEOF_U2K_HEADER h c SIZEOF_U2K_HEADER t =
      Some (int SIZEOF_U2K_HEADER, s')" "replied c cn p (word_of_int (u2k_reply h)) t s'" "ks_mem s' = ks_mem t"
    "req_type r = BIUS_ZONE_APPEND \<longrightarrow> map_option rq_bio_sector (ks_rqs s' p) =
       Some (word_of_int (c_div (sint (u2k_user_data h)) (int SECTOR_SIZE)))" by auto
  have "write_command (kernel_fd api z env c) h m t = Some (24, s')"
    using s'(1) by (simp add: write_command_def kernel_fd_def to_c_int_sizes)
  then show ?thesis
    using replied_ready [OF t t'(2) s'(2)] s'(3,4) t by (auto simp: fetched_def)
qed

text \<open>A turn whose reply carries no data for the request.\<close>

lemma finish_turn:
  assumes "read_command (kernel_fd api z env c) (sv_k2u sv) (sv_mem sv) (sv_world sv) =
      Some (56, Some (command_header r), m, s1)"
    and "handle_copy_in (kernel_fd api z env c) buffer buffer_size (command_header r) m s1 = Some (Inr (h', m', s2))"
    and "fetched c p r rest (sv_world sv) s2" "k2u_id h' = req_id r"
    and "answer_command ops malloc h' (sv_answer sv) m' (sv_dev sv) =
      Some (Some (u2k_reply_union (status st), ud), m2, d1)"
    and "is_blk_request (req_type r)" "st = BLK_STS_OK \<longrightarrow> req_type r \<noteq> BIUS_READ"
  shows "\<exists>sv'. handle_request (kernel_fd api z env c) ops malloc buffer buffer_size sv = Some (Inr sv') \<and>
    sv_dev sv' = d1 \<and> sv_mem sv' = m2 \<and> turn_done c p (ucast st) rest (sv_world sv) (sv_world sv') \<and>
    ks_mem (sv_world sv') = ks_mem (sv_world sv) \<and>
    (req_type r = BIUS_ZONE_APPEND \<longrightarrow> map_option rq_bio_sector (ks_rqs (sv_world sv') p) =
       Some (word_of_int (c_div (sint ud) (int SECTOR_SIZE))))"
proof -
  let ?h = "\<lparr>u2k_id = req_id r, u2k_union = u2k_reply_union (status st), u2k_user_data = ud\<rparr>"
  have reply: "u2k_reply ?h = status st" by (rule status_reply) simp
  from write_command_turn [OF assms(3,6), of ?h z env m2] assms(7) obtain s' where s':
    "write_command (kernel_fd api z env c) ?h m2 s2 = Some (24, s')" "kinv s'" "pending_at c s' = Some rest"
    "ks_ended s' = ks_ended (sv_world sv) @ [(p, word_of_int (status st))]" "ks_mem s' = ks_mem (sv_world sv)"
    "\<forall>q. q \<noteq> p \<longrightarrow> ks_reqs s' q = ks_reqs (sv_world sv) q \<and> ks_rqs s' q = ks_rqs (sv_world sv) q"
    "req_type r = BIUS_ZONE_APPEND \<longrightarrow> map_option rq_bio_sector (ks_rqs s' p) =
       Some (word_of_int (c_div (sint ud) (int SECTOR_SIZE)))"
    by (auto simp: reply status_zero)
  have "turn_done c p (ucast st) rest (sv_world sv) s'" using s'(2-4,6) by (simp add: turn_done_def status_byte)
  then show ?thesis
    using handle_request_run [OF assms(1,2,5)] s'(1,5,7) assms(4) by simp
qed

text \<open>A turn that carries the data of a write or an append to the program.\<close>

lemma data_turn:
  assumes rd: "ready c p r rest (sv_world sv)" and b: "blk_fields r = Some b" "req_map_type b = BIUS_DATAMAP_UNMAPPED"
    and r: "request_is_write (req_type r)" "req_length r = length (chain_addrs addrs (req_bio b))" "0 < req_length r"
    and buf: "req_length r \<le> buffer_size" "buffer_size < 2 ^ 64"
    and m': "m' = mem_write (sv_mem sv) buffer (map (ks_mem (sv_world sv)) (chain_addrs addrs (req_bio b)))"
    and ans: "answer_command ops malloc (simple_header buffer r) (sv_answer sv) m' (sv_dev sv) =
      Some (Some (u2k_reply_union (status st), ud), m2, d1)"
  shows "\<exists>sv'. handle_request (kernel_fd api z env c) ops malloc buffer buffer_size sv = Some (Inr sv') \<and>
    sv_dev sv' = d1 \<and> turn_done c p (ucast st) rest (sv_world sv) (sv_world sv') \<and>
    ks_mem (sv_world sv') = ks_mem (sv_world sv) \<and>
    (req_type r = BIUS_ZONE_APPEND \<longrightarrow> map_option rq_bio_sector (ks_rqs (sv_world sv') p) =
       Some (word_of_int (c_div (sint ud) (int SECTOR_SIZE))))"
proof -
  let ?fd = "kernel_fd api z env c" and ?s = "sv_world sv"
  have sends: "sends_data r" using r by (simp add: sends_data_def)
  obtain s1 cn where s1: "read_command ?fd (sv_k2u sv) (sv_mem sv) ?s = Some (56, Some (command_header r), sv_mem sv, s1)"
    "fetched c p r rest ?s s1" "ks_reqs s1 p = Some (fetched_request r)"
    "ks_conns s1 c = Some cn" "cn_block_dev cn \<noteq> None" "cn_sending cn = Some p"
    using read_command_turn [OF rd, of z env "sv_k2u sv" "sv_mem sv"] sends by blast
  have stream: "sending_bytes addrs c p s1 = map (ks_mem ?s) (chain_addrs addrs (req_bio b))"
    using sending_fetched [OF s1(3-6) b r(2) sends] buf(1,2) s1(2) by (simp add: fetched_def)
  have len: "unat (of_nat (req_length r) :: u64) = req_length r"
    using buf(1,2) by (intro of_nat_inverse [OF refl]) simp
  obtain s2 where s2: "handle_copy_in ?fd buffer buffer_size (command_header r) (sv_mem sv) s1 =
      Some (Inr (simple_header buffer r, m', s2))" "quiet c p s1 s2"
    using transfer.handle_copy_in_write [of "command_header r" buffer_size c p s1 z env buffer "sv_mem sv"]
      r buf len m' stream by (auto simp: command_header_def simple_header_def)
  have "is_blk_request (req_type r)" "st = BLK_STS_OK \<longrightarrow> req_type r \<noteq> BIUS_READ"
    "k2u_id (simple_header buffer r) = req_id r"
    using write_has_data [OF r(1)] r(1) by (auto simp: request_is_write_def simple_header_def command_header_def)
  then show ?thesis
    using finish_turn [OF s1(1) s2(1) fetched_quiet [OF s1(2) s2(2)] _ ans] by blast
qed

text \<open>A turn that brings the data of a successful read back into the request's segments.\<close>

lemma read_turn:
  assumes rd: "ready c p r rest (sv_world sv)" and b: "blk_fields r = Some b" "req_map_type b = BIUS_DATAMAP_UNMAPPED"
      "req_bio b \<noteq> []"
    and r: "req_type r = BIUS_READ" "buffer < 2 ^ 64"
    and q: "ks_rqs (sv_world sv) p = Some q" "distinct (chain_addrs addrs (rq_bio q))"
    and op: "op_read ops = Some f"
      "f buffer (req_pos r) (of_nat (req_length r)) (sv_mem sv) (sv_dev sv) = Some (BLK_STS_OK, m', d1)"
  shows "\<exists>sv'. handle_request (kernel_fd api z env c) ops malloc buffer buffer_size sv = Some (Inr sv') \<and>
    sv_dev sv' = d1 \<and> turn_done c p 0 rest (sv_world sv) (sv_world sv') \<and>
    map (ks_mem (sv_world sv')) (chain_addrs addrs (rq_bio q)) =
      mem_read m' buffer (length (chain_addrs addrs (rq_bio q))) \<and>
    (\<forall>x. x \<notin> set (chain_addrs addrs (rq_bio q)) \<longrightarrow> ks_mem (sv_world sv') x = ks_mem (sv_world sv) x)"
proof -
  let ?fd = "kernel_fd api z env c" and ?s = "sv_world sv"
  have "\<not> sends_data r" using r(1) by (simp add: sends_data_def request_is_write_def)
  then have "fetched_request r = r" by (simp add: fetched_request_def split: option.split)
  then obtain s1 where s1: "read_command ?fd (sv_k2u sv) (sv_mem sv) ?s = Some (56, Some (command_header r), sv_mem sv, s1)"
    "fetched c p r rest ?s s1" "ks_reqs s1 p = Some r"
    using read_command_turn [OF rd, of z env "sv_k2u sv" "sv_mem sv"] by auto
  have copy: "handle_copy_in ?fd buffer buffer_size (command_header r) (sv_mem sv) s1 =
      Some (Inr (simple_header buffer r, sv_mem sv, s1))"
    using r(1) by (simp add: handle_copy_in_read command_header_def simple_header_def request_is_write_def
        request_may_have_data_def)
  have ans: "answer_command ops malloc (simple_header buffer r) (sv_answer sv) (sv_mem sv) (sv_dev sv) =
      Some (Some (u2k_reply_union (status BLK_STS_OK), of_nat buffer), m', d1)"
    using op r(1) unat_address [OF r(2)]
    by (simp add: answer_command_def is_blk_request_def simple_header_def command_header_def
        handle_blk_command_def call_read_def Let_def)
  let ?h = "\<lparr>u2k_id = k2u_id (simple_header buffer r), u2k_union = u2k_reply_union (status BLK_STS_OK),
    u2k_user_data = of_nat buffer\<rparr>"
  have reply: "u2k_reply ?h = 0" by (subst status_reply [of _ BLK_STS_OK]) (simp_all add: status_zero)
  obtain cn where cn: "kinv s1" "ks_conns s1 c = Some cn" "cn_block_dev cn \<noteq> None" "p \<in> set (cn_waiting cn)"
    using fetchedD [OF s1(2)] by blast
  have "ks_rqs s1 p = Some q" "ks_mem s1 = ks_mem ?s" using q(1) s1(2) by (simp_all add: fetched_def)
  with read_reply_run [OF cn s1(3) r(1), of ?h SIZEOF_U2K_HEADER SIZEOF_U2K_HEADER api addrs "user_of m'" b q z env,
      OF _ reply _ _ api_ok _ b _ q(2)]
  obtain s' where s': "bius_dev_write api False z env (user_of m') SIZEOF_U2K_HEADER ?h c SIZEOF_U2K_HEADER s1 =
      Some (int SIZEOF_U2K_HEADER, s')" "replied c cn p 0 s1 s'"
    "map (ks_mem s') (chain_addrs addrs (rq_bio q)) = mem_read m' buffer (length (chain_addrs addrs (rq_bio q)))"
    "\<forall>x. x \<notin> set (chain_addrs addrs (rq_bio q)) \<longrightarrow> ks_mem s' x = ks_mem ?s x"
    by (auto simp: simple_header_def command_header_def user_of_def unat_address [OF r(2)] SIZEOF_U2K_HEADER_def)
  have "write_command ?fd ?h m' s1 = Some (24, s')"
    using s'(1) by (simp add: write_command_def kernel_fd_def to_c_int_sizes)
  then show ?thesis
    using handle_request_run [OF s1(1) copy ans] replied_ready [OF s1(2) cn(2) s'(2)] s'(3,4)
    by (simp add: turn_done_def)
qed

text \<open>A turn for a command without data.\<close>

lemma plain_turn:
  assumes rd: "ready c p r rest (sv_world sv)" and r: "is_blk_request (req_type r)" "\<not> request_may_have_data (req_type r)"
    and ans: "answer_command ops malloc (command_header r) (sv_answer sv) (sv_mem sv) (sv_dev sv) =
      Some (Some (u2k_reply_union (status st), ud), m2, d1)"
  shows "\<exists>sv'. handle_request (kernel_fd api z env c) ops malloc buffer buffer_size sv = Some (Inr sv') \<and>
    sv_dev sv' = d1 \<and> turn_done c p (ucast st) rest (sv_world sv) (sv_world sv') \<and>
    ks_mem (sv_world sv') = ks_mem (sv_world sv)"
proof -
  let ?fd = "kernel_fd api z env c"
  obtain s1 where s1: "read_command ?fd (sv_k2u sv) (sv_mem sv) (sv_world sv) =
      Some (56, Some (command_header r), sv_mem sv, s1)" "fetched c p r rest (sv_world sv) s1"
    using read_command_turn [OF rd, of z env "sv_k2u sv" "sv_mem sv"] by blast
  have copy: "handle_copy_in ?fd buffer buffer_size (command_header r) (sv_mem sv) s1 =
      Some (Inr (command_header r, sv_mem sv, s1))"
    using r(2) by (simp add: handle_copy_in_def command_header_def)
  have "k2u_id (command_header r) = req_id r" "req_type r \<noteq> BIUS_READ"
    using r(2) by (auto simp: command_header_def request_may_have_data_def)
  then show ?thesis using finish_turn [OF s1(1) copy s1(2) _ ans r(1)] by blast
qed

end

text \<open>The contract is met by bios that are segment lists.\<close>

interpretation segments: kernel_services seg_api seg_addrs
  by unfold_locales (rule seg_api_ok)

end
