(* ===== verification/Bius_System_Claims.thy ===== *)
theory Bius_System_Claims
  imports Bius_System Bius_Zoned_Claims
begin

text \<open>
  The theorems on the whole path of a request: from the block layer through the module and the library to
  the program's operations and back, with concrete instances.
\<close>

section \<open>A store served through the module\<close>

locale served_store = kernel_services api addrs + block_store rd wr contents cap
  for api :: "'bio bio_api" and addrs :: "'bio \<Rightarrow> nat list" and rd :: "'d read_op" and wr :: "'d write_op"
    and contents :: "'d \<Rightarrow> nat \<Rightarrow> byte" and cap :: nat
begin

text \<open>A write request stores its segments' bytes at its position.\<close>

lemma write_request_served:
  assumes rd: "ready c p r rest (sv_world sv)" and b: "blk_fields r = Some b" "req_map_type b = BIUS_DATAMAP_UNMAPPED"
    and r: "req_type r = BIUS_WRITE" "req_length r = length (chain_addrs addrs (req_bio b))" "0 < req_length r"
    and buf: "req_length r \<le> buffer_size" "buffer_size < 2 ^ 64" "buffer < 2 ^ 64"
    and room: "unat (req_pos r) + req_length r \<le> cap" and op: "op_write ops = Some wr"
  shows "\<exists>sv'. handle_request (kernel_fd api z env c) ops malloc buffer buffer_size sv = Some (Inr sv') \<and>
    contents (sv_dev sv') = mem_write (contents (sv_dev sv)) (unat (req_pos r))
      (map (ks_mem (sv_world sv)) (chain_addrs addrs (req_bio b))) \<and>
    turn_done c p 0 rest (sv_world sv) (sv_world sv') \<and> ks_mem (sv_world sv') = ks_mem (sv_world sv)"
proof -
  let ?data = "map (ks_mem (sv_world sv)) (chain_addrs addrs (req_bio b))"
  let ?m = "mem_write (sv_mem sv) buffer ?data"
  have len: "unat (of_nat (req_length r) :: u64) = req_length r"
    using buf(1,2) by (intro of_nat_inverse [OF refl]) simp
  obtain d1 where d1: "wr buffer (req_pos r) (of_nat (req_length r)) ?m (sv_dev sv) = Some (BLK_STS_OK, d1)"
    "contents d1 = mem_write (contents (sv_dev sv)) (unat (req_pos r)) (mem_read ?m buffer (req_length r))"
    using wr_ok [of "of_nat (req_length r)" "req_pos r" buffer ?m "sv_dev sv"] r(3) room unfolding len by blast
  have "mem_read ?m buffer (req_length r) = ?data"
    using mem_read_write_same [of "sv_mem sv" buffer ?data] r(2) by simp
  moreover have "answer_command ops malloc (simple_header buffer r) (sv_answer sv) ?m (sv_dev sv) =
      Some (Some (u2k_reply_union (status BLK_STS_OK), 0), ?m, d1)"
    using op d1(1) r(1) unat_address [OF buf(3)]
    by (simp add: answer_command_def is_blk_request_def simple_header_def command_header_def
        handle_blk_command_def call_write_def Let_def)
  moreover have "request_is_write (req_type r)" by (simp add: r(1) request_is_write_def)
  ultimately show ?thesis
    using data_turn [OF rd b _ r(2,3) buf(1,2) refl, of ops malloc buffer BLK_STS_OK 0 ?m d1 z env] d1(2)
    by (auto simp: BLK_STS_OK_def)
qed

text \<open>A read request fills its segments with the bytes at its position.\<close>

lemma read_request_served:
  assumes rd: "ready c p r rest (sv_world sv)" and b: "blk_fields r = Some b" "req_map_type b = BIUS_DATAMAP_UNMAPPED"
      "req_bio b \<noteq> []"
    and r: "req_type r = BIUS_READ" "0 < req_length r" "req_length r < 2 ^ 64" "buffer < 2 ^ 64"
    and q: "ks_rqs (sv_world sv) p = Some q" "distinct (chain_addrs addrs (rq_bio q))"
      "req_length r = length (chain_addrs addrs (rq_bio q))"
    and room: "unat (req_pos r) + req_length r \<le> cap" and op: "op_read ops = Some rd"
  shows "\<exists>sv'. handle_request (kernel_fd api z env c) ops malloc buffer buffer_size sv = Some (Inr sv') \<and>
    sv_dev sv' = sv_dev sv \<and> turn_done c p 0 rest (sv_world sv) (sv_world sv') \<and>
    map (ks_mem (sv_world sv')) (chain_addrs addrs (rq_bio q)) =
      mem_read (contents (sv_dev sv)) (unat (req_pos r)) (req_length r) \<and>
    (\<forall>x. x \<notin> set (chain_addrs addrs (rq_bio q)) \<longrightarrow> ks_mem (sv_world sv') x = ks_mem (sv_world sv) x)"
proof -
  let ?bs = "mem_read (contents (sv_dev sv)) (unat (req_pos r)) (req_length r)"
  have len: "unat (of_nat (req_length r) :: u64) = req_length r" using r(3) by (rule unat_address)
  have "rd buffer (req_pos r) (of_nat (req_length r)) (sv_mem sv) (sv_dev sv) =
      Some (BLK_STS_OK, mem_write (sv_mem sv) buffer ?bs, sv_dev sv)"
    using rd_ok [of "of_nat (req_length r)" "req_pos r" buffer "sv_mem sv" "sv_dev sv"] r(2) room unfolding len by blast
  moreover have "mem_read (mem_write (sv_mem sv) buffer ?bs) buffer (length (chain_addrs addrs (rq_bio q))) = ?bs"
    using mem_read_write_same [of "sv_mem sv" buffer ?bs] q(3) by simp
  ultimately show ?thesis
    using read_turn [OF rd b r(1,4) q(1,2) op, of "mem_write (sv_mem sv) buffer ?bs" "sv_dev sv" z env malloc buffer_size]
    by metis
qed

text \<open>Two turns: what one request writes the next one reads.\<close>

lemma write_then_read:
  assumes inv: "kinv (sv_world sv)" and pend: "pending_at c (sv_world sv) = Some (p # q # rest)" "p \<noteq> q"
    and w: "ks_reqs (sv_world sv) p = Some r" "blk_fields r = Some b" "req_map_type b = BIUS_DATAMAP_UNMAPPED"
      "req_type r = BIUS_WRITE" "req_length r = length (chain_addrs addrs (req_bio b))" "0 < req_length r"
    and v: "ks_reqs (sv_world sv) q = Some r'" "blk_fields r' = Some b'" "req_map_type b' = BIUS_DATAMAP_UNMAPPED"
      "req_bio b' \<noteq> []" "req_type r' = BIUS_READ" "req_pos r' = req_pos r" "req_length r' = req_length r"
      "ks_rqs (sv_world sv) q = Some rq" "distinct (chain_addrs addrs (rq_bio rq))"
      "req_length r' = length (chain_addrs addrs (rq_bio rq))"
    and buf: "req_length r \<le> buffer_size" "buffer_size < 2 ^ 64" "buffer < 2 ^ 64"
    and room: "unat (req_pos r) + req_length r \<le> cap" and ops: "op_write ops = Some wr" "op_read ops = Some rd"
  shows "\<exists>sv'. serve (kernel_fd api z env c) ops malloc buffer buffer_size 2 sv = Some (Inr sv') \<and>
    ks_ended (sv_world sv') = ks_ended (sv_world sv) @ [(p, 0), (q, 0)] \<and> pending_at c (sv_world sv') = Some rest \<and>
    kinv (sv_world sv') \<and>
    map (ks_mem (sv_world sv')) (chain_addrs addrs (rq_bio rq)) =
      map (ks_mem (sv_world sv)) (chain_addrs addrs (req_bio b))"
proof -
  let ?data = "map (ks_mem (sv_world sv)) (chain_addrs addrs (req_bio b))"
  have "ready c p r (q # rest) (sv_world sv)" using inv pend w(1) by (simp add: ready_pending)
  from write_request_served [OF this w(2-6) buf room ops(1), of z env malloc] obtain sv1 where t1:
    "handle_request (kernel_fd api z env c) ops malloc buffer buffer_size sv = Some (Inr sv1)"
    "contents (sv_dev sv1) = mem_write (contents (sv_dev sv)) (unat (req_pos r)) ?data"
    "turn_done c p 0 (q # rest) (sv_world sv) (sv_world sv1)" by blast
  have q1: "ks_reqs (sv_world sv1) q = Some r'" "ks_rqs (sv_world sv1) q = Some rq"
    using t1(3) pend(2) v(1,8) by (auto simp: turn_done_def)
  then have "ready c q r' rest (sv_world sv1)" using t1(3) by (simp add: ready_pending turn_done_def)
  from read_request_served [OF this v(2-5) _ _ buf(3) q1(2) v(9,10) _ ops(2), of z env malloc buffer_size]
  obtain sv2 where t2: "handle_request (kernel_fd api z env c) ops malloc buffer buffer_size sv1 = Some (Inr sv2)"
    "turn_done c q 0 rest (sv_world sv1) (sv_world sv2)"
    "map (ks_mem (sv_world sv2)) (chain_addrs addrs (rq_bio rq)) =
      mem_read (contents (sv_dev sv1)) (unat (req_pos r)) (req_length r)"
    using w(6) buf(1,2) room v(6,7) by auto
  have "mem_read (contents (sv_dev sv1)) (unat (req_pos r)) (req_length r) = ?data"
    using mem_read_write_same [of "contents (sv_dev sv)" "unat (req_pos r)" ?data] t1(2) w(5) by simp
  then show ?thesis
    using t1(1,3) t2 by (simp add: numeral_2_eq_2 turn_done_def)
qed

end

lemma served_ramdisk:
  "bio_api_ok api addrs \<Longrightarrow> served_store api addrs ramdisk_read ramdisk_write (\<lambda>d. d) RAMDISK_SIZE"
  using ramdisk.block_store_axioms by (simp add: served_store_def kernel_services_def)

interpretation served_segments: served_store seg_api seg_addrs ramdisk_read ramdisk_write "\<lambda>d. d" RAMDISK_SIZE
  by (rule served_ramdisk [OF seg_api_ok])

text \<open>A write pointer in bytes, divided by the sector size again.\<close>

lemma wp_sector:
  assumes cfg: "cfg_ok cfg" and z: "zinv cfg s" "get_zone s i = Some z"
  shows "word_of_int (c_div (sint (z_wp z * of_nat SECTOR_SIZE)) (int SECTOR_SIZE)) = z_wp z"
proof -
  have ok: "zone_ok cfg i z" "i < num_zones cfg" using zinv_get_zone [OF z] by simp_all
  then have wp: "unat (z_wp z) < 2 ^ 31"
    using zone_sectors(2) [OF cfg ok(2)] by (simp add: zone_ok_def)
  then have u: "unat (z_wp z * of_nat SECTOR_SIZE) = unat (z_wp z) * SECTOR_SIZE"
    by (intro unat_mult_sector) simp
  then have "sint (z_wp z * of_nat SECTOR_SIZE) = int (unat (z_wp z)) * int SECTOR_SIZE"
    using wp sint_small [of "z_wp z * of_nat SECTOR_SIZE"] by (simp add: SECTOR_SIZE_def)
  then have "c_div (sint (z_wp z * of_nat SECTOR_SIZE)) (int SECTOR_SIZE) = int (unat (z_wp z))"
    by (simp add: c_div_nonneg SECTOR_SIZE_def)
  then show ?thesis by simp
qed

section \<open>Whole requests\<close>

text \<open>
  A write reaches the disk. When a write request is the oldest of the device and its data fits the
  library's buffer, one turn of the library's loop over the module stores exactly the bytes of the
  request's segments at its position in the ramdisk, and answers the request with success.
\<close>

theorem ramdisk_write_request_served:
  assumes "bio_api_ok api addrs" "ready c p r rest (sv_world sv)"
    and "blk_fields r = Some b" "req_map_type b = BIUS_DATAMAP_UNMAPPED" "req_type r = BIUS_WRITE"
    and "req_length r = length (chain_addrs addrs (req_bio b))" "0 < req_length r"
    and "req_length r \<le> buffer_size" "buffer_size < 2 ^ 64" "buffer < 2 ^ 64"
    and "unat (req_pos r) + req_length r \<le> RAMDISK_SIZE"
  shows "\<exists>sv'. handle_request (kernel_fd api z env c) ramdisk_operations malloc buffer buffer_size sv = Some (Inr sv') \<and>
    sv_dev sv' = mem_write (sv_dev sv) (unat (req_pos r)) (map (ks_mem (sv_world sv)) (chain_addrs addrs (req_bio b))) \<and>
    turn_done c p 0 rest (sv_world sv) (sv_world sv')"
proof -
  have op: "op_write ramdisk_operations = Some ramdisk_write" by (simp add: ramdisk_operations_def)
  show ?thesis
    using served_store.write_request_served [OF served_ramdisk [OF assms(1)] assms(2-11) op] by blast
qed

definition demo_serving :: "(seg_bio kstate, ramdisk) serving" where
  "demo_serving = \<lparr>sv_k2u = None, sv_answer = None, sv_mem = (\<lambda>_. 0), sv_dev = (\<lambda>_. 0), sv_world = demo_two\<rparr>"

lemma demo_serving_facts:
  "pending_at 20 (sv_world demo_serving) = Some [30, 31]" "kinv (sv_world demo_serving)"
  "ks_reqs (sv_world demo_serving) 30 = Some (demo_req True)" "ks_reqs (sv_world demo_serving) 31 = Some demo_req2"
  "ks_rqs (sv_world demo_serving) 31 = Some demo_rq2" "ks_mem (sv_world demo_serving) = of_nat"
  "ks_ended (sv_world demo_serving) = []" "sv_dev demo_serving = (\<lambda>_. 0)"
  by (simp_all add: demo_serving_def pending_at_def demo_two_sel demo_conn_def demo_two_kinv)

definition demo_part :: "bool \<Rightarrow> seg_bio blk_part" where
  "demo_part first = \<lparr>req_bio = (if first then rq_bio (demo_rq True) else rq_bio demo_rq2), req_map_data = 0,
     req_mapped_size = 0, req_map_type = BIUS_DATAMAP_UNMAPPED, req_blk_result = 0\<rparr>"

lemma demo_part_facts:
  "blk_fields (demo_req True) = Some (demo_part True)" "blk_fields demo_req2 = Some (demo_part False)"
  "req_map_type (demo_part f) = BIUS_DATAMAP_UNMAPPED"
  "chain_addrs seg_addrs (req_bio (demo_part True)) = [20480 ..< 20488] @ [28688 ..< 28692]"
  "chain_addrs seg_addrs (rq_bio demo_rq2) = [36864 ..< 36876]" "req_bio (demo_part False) \<noteq> []"
  by (simp_all add: demo_part_def demo_req_def demo_req2_def blk_fields_def demo_rq_def demo_rq2_def
      bvec_addrs_def seg_api_def)

lemma demo_req_facts:
  "req_type (demo_req True) = BIUS_WRITE" "req_pos (demo_req True) = 512" "req_length (demo_req True) = 12"
  "req_type demo_req2 = BIUS_READ" "req_pos demo_req2 = 512" "req_length demo_req2 = 12"
  by (simp_all add: demo_req_def demo_req2_def)

theorem ramdisk_write_request_served_witness:
  "ready 20 30 (demo_req True) [31] demo_two \<and>
   (\<exists>sv'. handle_request (kernel_fd seg_api 0 demo_create 20) ramdisk_operations (\<lambda>_. 0) 4096 65536 demo_serving = Some (Inr sv') \<and>
     sv_dev sv' = mem_write (\<lambda>_. 0) 512 (map of_nat ([20480 ..< 20488] @ [28688 ..< 28692])) \<and>
     turn_done 20 30 0 [31] demo_two (sv_world sv'))"
proof -
  have "ready 20 30 (demo_req True) [31] (sv_world demo_serving)" by (simp add: ready_pending demo_serving_facts)
  moreover have "sv_world demo_serving = demo_two" by (simp add: demo_serving_def)
  ultimately show ?thesis
    using ramdisk_write_request_served [OF seg_api_ok, of 20 30 "demo_req True" "[31]" demo_serving "demo_part True"
        65536 4096 0 demo_create "\<lambda>_. 0"]
    by (simp add: demo_part_facts demo_req_facts demo_serving_facts(7,8) demo_two_sel(6) RAMDISK_SIZE_def)
qed

text \<open>
  C5. A write is read back through the whole system. When a write and then a read of the same range are
  the two oldest requests of the device, two turns of the library's loop over the module answer both
  with success, and the segments of the read hold the bytes that were in the segments of the write.
\<close>

theorem ramdisk_write_then_read:
  assumes "bio_api_ok api addrs" "kinv (sv_world sv)" "pending_at c (sv_world sv) = Some (p # q # rest)" "p \<noteq> q"
    and "ks_reqs (sv_world sv) p = Some r" "blk_fields r = Some b" "req_map_type b = BIUS_DATAMAP_UNMAPPED"
    and "req_type r = BIUS_WRITE" "req_length r = length (chain_addrs addrs (req_bio b))" "0 < req_length r"
    and "ks_reqs (sv_world sv) q = Some r'" "blk_fields r' = Some b'" "req_map_type b' = BIUS_DATAMAP_UNMAPPED"
    and "req_bio b' \<noteq> []" "req_type r' = BIUS_READ" "req_pos r' = req_pos r" "req_length r' = req_length r"
    and "ks_rqs (sv_world sv) q = Some rq" "distinct (chain_addrs addrs (rq_bio rq))"
    and "req_length r' = length (chain_addrs addrs (rq_bio rq))"
    and "req_length r \<le> buffer_size" "buffer_size < 2 ^ 64" "buffer < 2 ^ 64"
    and "unat (req_pos r) + req_length r \<le> RAMDISK_SIZE"
  shows "\<exists>sv'. serve (kernel_fd api z env c) ramdisk_operations malloc buffer buffer_size 2 sv = Some (Inr sv') \<and>
    ks_ended (sv_world sv') = ks_ended (sv_world sv) @ [(p, 0), (q, 0)] \<and> pending_at c (sv_world sv') = Some rest \<and>
    map (ks_mem (sv_world sv')) (chain_addrs addrs (rq_bio rq)) =
      map (ks_mem (sv_world sv)) (chain_addrs addrs (req_bio b))"
proof -
  have op: "op_write ramdisk_operations = Some ramdisk_write" "op_read ramdisk_operations = Some ramdisk_read"
    by (simp_all add: ramdisk_operations_def)
  show ?thesis
    using served_store.write_then_read [OF served_ramdisk [OF assms(1)] assms(2-24) op] by blast
qed

theorem ramdisk_write_then_read_witness:
  "kinv demo_two \<and>
   (\<exists>sv'. serve (kernel_fd seg_api 0 demo_create 20) ramdisk_operations (\<lambda>_. 0) 4096 65536 2 demo_serving = Some (Inr sv') \<and>
     ks_ended (sv_world sv') = [(30, 0), (31, 0)] \<and> pending_at 20 (sv_world sv') = Some [] \<and>
     map (ks_mem (sv_world sv')) [36864 ..< 36876] = map of_nat ([20480 ..< 20488] @ [28688 ..< 28692]))"
  using ramdisk_write_then_read [OF seg_api_ok demo_serving_facts(2,1) _ demo_serving_facts(3) demo_part_facts(1,3)
      demo_req_facts(1) _ _ demo_serving_facts(4) demo_part_facts(2,3,6) demo_req_facts(4) _ _ demo_serving_facts(5),
      where z = 0 and env = demo_create and malloc = "\<lambda>_. 0" and buffer = 4096 and buffer_size = 65536]
    demo_two_kinv
  by (simp add: demo_part_facts demo_req_facts demo_serving_facts RAMDISK_SIZE_def)

text \<open>
  C14. A zone append tells the block layer where its data went. When the program's append succeeds, one
  turn of the library's loop over the module answers the request with success and stores the zone's
  old write pointer as the sector of the request's bio, and the data is read back from there.
\<close>

theorem zone_append_request_served:
  assumes "bio_api_ok api addrs" "ready c p r rest (sv_world sv)"
    and "blk_fields r = Some b" "req_map_type b = BIUS_DATAMAP_UNMAPPED" "req_type r = BIUS_ZONE_APPEND"
    and "req_length r = length (chain_addrs addrs (req_bio b))" "0 < req_length r"
    and "req_length r \<le> buffer_size" "buffer_size < 2 ^ 62" "buffer < 2 ^ 64"
    and "zinv zoned_ramdisk_config (sv_dev sv)"
    and "get_zone (sv_dev sv) (zone_number zoned_ramdisk_config (req_pos r)) = Some z"
    and "z_type z = BLK_ZONE_TYPE_SEQWRITE_REQ"
    and "zoned_append_zone zoned_ramdisk_config ramdisk_raw buffer (req_pos r) (of_nat (req_length r)) True
      (mem_write (sv_mem sv) buffer (map (ks_mem (sv_world sv)) (chain_addrs addrs (req_bio b)))) (sv_dev sv) =
      Some (BLK_STS_OK, out, d')"
  shows "\<exists>sv'. handle_request (kernel_fd api z' env c) (zoned_ramdisk_operations enc) malloc buffer buffer_size sv =
      Some (Inr sv') \<and> turn_done c p 0 rest (sv_world sv) (sv_world sv') \<and>
    map_option rq_bio_sector (ks_rqs (sv_world sv') p) = Some (z_wp z) \<and>
    (\<exists>d''. zoned_read zoned_ramdisk_config ramdisk_raw buf (z_wp z * of_nat SECTOR_SIZE) (of_nat (req_length r)) m (sv_dev sv') =
      Some (BLK_STS_OK, mem_write m buf (map (ks_mem (sv_world sv)) (chain_addrs addrs (req_bio b))), d''))"
proof -
  let ?data = "map (ks_mem (sv_world sv)) (chain_addrs addrs (req_bio b))"
  let ?m = "mem_write (sv_mem sv) buffer ?data" and ?len = "of_nat (req_length r) :: u64"
  have len: "unat ?len = req_length r" "0 < unat ?len" "unat ?len < 2 ^ 62"
    using assms(7-9) unat_address [of "req_length r"] by auto
  have run: "zoned_write_common zoned_ramdisk_config ramdisk_raw True buffer (req_pos r) ?len True ?m (sv_dev sv) =
      Some (BLK_STS_OK, out, d')" using assms(14) by (simp add: zoned_append_zone_def)
  have "z_type z \<noteq> BLK_ZONE_TYPE_CONVENTIONAL" using assms(13) by simp
  note rb = zoned_ramdisk.write_common_read_back [OF assms(11) len(2,3) assms(12) this run]
  have out: "out = Some (z_wp z * of_nat SECTOR_SIZE)" using rb(2) by simp
  have data: "mem_read ?m buffer (unat ?len) = ?data"
    using mem_read_write_same [of "sv_mem sv" buffer ?data] unfolding len(1) unfolding assms(6) by simp
  have ans: "answer_command (zoned_ramdisk_operations enc) malloc (simple_header buffer r) (sv_answer sv) ?m (sv_dev sv) =
      Some (Some (u2k_reply_union (status BLK_STS_OK), z_wp z * of_nat SECTOR_SIZE), ?m, d')"
    using assms(5,14) unat_address [OF assms(10)] out
    by (simp add: answer_command_def is_blk_request_def simple_header_def command_header_def handle_blk_command_def
        call_append_def Let_def zoned_ramdisk_operations_def get_zoned_operations_def)
  have "request_is_write (req_type r)" "buffer_size < 2 ^ 64" using assms(5,9) by (simp_all add: request_is_write_def)
  from kernel_services.data_turn [OF kernel_services.intro [OF assms(1)] assms(2-4) this(1) assms(6-8) this(2) refl ans, of z' env]
  obtain sv' where "handle_request (kernel_fd api z' env c) (zoned_ramdisk_operations enc) malloc buffer buffer_size sv =
      Some (Inr sv')" "sv_dev sv' = d'" "turn_done c p 0 rest (sv_world sv) (sv_world sv')"
    "map_option rq_bio_sector (ks_rqs (sv_world sv') p) =
       Some (word_of_int (c_div (sint (z_wp z * of_nat SECTOR_SIZE)) (int SECTOR_SIZE)))"
    using assms(5) by (auto simp: BLK_STS_OK_def)
  moreover have "word_of_int (c_div (sint (z_wp z * of_nat SECTOR_SIZE)) (int SECTOR_SIZE)) = z_wp z"
    by (rule wp_sector [OF cfg_ok_ramdisk assms(11,12)])
  ultimately show ?thesis using rb(4) [of buf m] data by (auto simp: len)
qed

definition append_serving :: "(seg_bio kstate, ramdisk zoned_state) serving" where
  "append_serving = \<lparr>sv_k2u = None, sv_answer = None, sv_mem = (\<lambda>_. 0), sv_dev = zr_init, sv_world = demo_zone 13\<rparr>"

definition append_part :: "seg_bio blk_part" where
  "append_part = \<lparr>req_bio = rq_bio (demo_zone_rq 13), req_map_data = 0,
     req_mapped_size = 0, req_map_type = BIUS_DATAMAP_UNMAPPED, req_blk_result = 0\<rparr>"

lemma append_facts:
  "ready 20 30 (demo_zone_req 13) [] (sv_world append_serving)" "blk_fields (demo_zone_req 13) = Some append_part"
  "req_map_type append_part = BIUS_DATAMAP_UNMAPPED" "req_type (demo_zone_req 13) = BIUS_ZONE_APPEND"
  "req_pos (demo_zone_req 13) = 0" "req_length (demo_zone_req 13) = 512"
  "chain_addrs seg_addrs (req_bio append_part) = [20480 ..< 20992]"
  "sv_dev append_serving = zr_init" "ks_mem (sv_world append_serving) = of_nat" "sv_mem append_serving = (\<lambda>_. 0)"
  using demo_zone_kinv [of 13]
  by (simp_all add: ready_pending pending_at_def append_serving_def demo_zone_sel demo_conn_def append_part_def
      demo_zone_req_def blk_fields_def demo_zone_rq_def bvec_addrs_def seg_api_def)

definition append_data :: "byte list" where
  "append_data = map of_nat [20480 ..< 20992]"

theorem zone_append_request_served_witness:
  "\<exists>sv'. handle_request (kernel_fd seg_api 0 demo_create 20) (zoned_ramdisk_operations (\<lambda>_. [])) (\<lambda>_. 0) 4096 65536
      append_serving = Some (Inr sv') \<and> turn_done 20 30 0 [] (demo_zone 13) (sv_world sv') \<and>
    map_option rq_bio_sector (ks_rqs (sv_world sv') 30) = Some 0 \<and>
    (\<exists>d''. zoned_read zoned_ramdisk_config ramdisk_raw 7000 0 512 (\<lambda>_. 0) (sv_dev sv') =
      Some (BLK_STS_OK, mem_write (\<lambda>_. 0) 7000 append_data, d''))"
proof -
  let ?m = "mem_write (sv_mem append_serving) 4096 (map (ks_mem (sv_world append_serving)) (chain_addrs seg_addrs (req_bio append_part)))"
  obtain d' where run: "zoned_append_zone zoned_ramdisk_config ramdisk_raw 4096 0 512 True ?m zr_init = Some (BLK_STS_OK, Some 0, d')"
    using zr_write_common [of True 4096 True ?m] by (auto simp: zoned_append_zone_def)
  have z: "get_zone (sv_dev append_serving) (zone_number zoned_ramdisk_config (req_pos (demo_zone_req 13))) =
      Some \<lparr>z_start = 0, z_len = 65536, z_wp = 0, z_type = BLK_ZONE_TYPE_SEQWRITE_REQ,
        z_cond = BLK_ZONE_COND_EMPTY, z_capacity = 65536\<rparr>"
    using zr_zone0 unfolding append_facts(5,8) zr_zone_number .
  have w: "sv_world append_serving = demo_zone 13" by (simp add: append_serving_def)
  have inv: "zinv zoned_ramdisk_config (sv_dev append_serving)" unfolding append_facts(8) by (rule zr_zinv)
  have app: "zoned_append_zone zoned_ramdisk_config ramdisk_raw 4096 (req_pos (demo_zone_req 13))
      (of_nat (req_length (demo_zone_req 13))) True ?m (sv_dev append_serving) = Some (BLK_STS_OK, Some 0, d')"
    unfolding append_facts(5,6,8) using run by simp
  have len: "req_length (demo_zone_req 13) = length (chain_addrs seg_addrs (req_bio append_part))"
    unfolding append_facts(6,7) by simp
  have size: "0 < req_length (demo_zone_req 13)" "req_length (demo_zone_req 13) \<le> 65536" by (simp_all add: append_facts(6))
  show ?thesis
    using zone_append_request_served [OF seg_api_ok append_facts(1-4) len size _ _ inv z _ app,
        where z' = 0 and env = demo_create and enc = "\<lambda>_. []" and malloc = "\<lambda>_. 0" and buf = 7000 and m = "\<lambda>_. 0"]
    unfolding append_facts(6,7,9) append_data_def [symmetric] unfolding w by simp
qed

text \<open>
  C30. A command the program has no operation for is refused: a zone command to the ramdisk is answered
  with \<^verbatim>\<open>BLK_STS_NOTSUPP\<close>, and neither the ramdisk nor the kernel's memory changes.
\<close>

theorem unsupported_command_refused:
  assumes "bio_api_ok api addrs" "ready c p r rest (sv_world sv)"
    and "req_type r \<in> {BIUS_ZONE_OPEN, BIUS_ZONE_CLOSE, BIUS_ZONE_FINISH, BIUS_ZONE_RESET, BIUS_ZONE_RESET_ALL}"
  shows "\<exists>sv'. handle_request (kernel_fd api z env c) ramdisk_operations malloc buffer buffer_size sv = Some (Inr sv') \<and>
    sv_dev sv' = sv_dev sv \<and> turn_done c p 1 rest (sv_world sv) (sv_world sv') \<and>
    ks_mem (sv_world sv') = ks_mem (sv_world sv)"
proof -
  have "is_blk_request (req_type r)" "\<not> request_may_have_data (req_type r)"
    using assms(3) by (auto simp: is_blk_request_def request_may_have_data_def)
  moreover have "answer_command ramdisk_operations malloc (command_header r) (sv_answer sv) (sv_mem sv) (sv_dev sv) =
      Some (Some (u2k_reply_union (status BLK_STS_NOTSUPP), 0), sv_mem sv, sv_dev sv)"
    using assms(3) by (auto simp: answer_command_def is_blk_request_def command_header_def handle_blk_command_def
        ramdisk_operations_def no_operations_def call_zone_def call_dev_def notsupp_def Let_def)
  ultimately show ?thesis
    using kernel_services.plain_turn [OF kernel_services.intro [OF assms(1)] assms(2)]
    by (fastforce simp: BLK_STS_NOTSUPP_def)
qed

theorem unsupported_command_refused_witness:
  "\<exists>sv'. handle_request (kernel_fd seg_api 0 demo_create 20) ramdisk_operations (\<lambda>_. 0) 4096 65536
      (demo_serving\<lparr>sv_world := demo_zone 15\<rparr>) = Some (Inr sv') \<and> sv_dev sv' = (\<lambda>_. 0) \<and>
    turn_done 20 30 1 [] (demo_zone 15) (sv_world sv')"
proof -
  let ?sv = "demo_serving\<lparr>sv_world := demo_zone 15\<rparr>"
  have "ready 20 30 (demo_zone_req 15) [] (sv_world ?sv)"
    using demo_zone_kinv [of 15] by (simp add: ready_pending pending_at_def demo_zone_sel demo_conn_def)
  moreover have "req_type (demo_zone_req 15) = BIUS_ZONE_RESET" "sv_dev ?sv = (\<lambda>_. 0)"
    by (simp_all add: demo_zone_req_def demo_serving_def)
  ultimately show ?thesis
    using unsupported_command_refused [OF seg_api_ok, of 20 30 "demo_zone_req 15" "[]" ?sv 0 demo_create "\<lambda>_. 0" 4096 65536]
    by auto
qed

end
