(* ===== verification/Bius_Queue_Claims.thy ===== *)
theory Bius_Queue_Claims
  imports Bius_System_Claims
begin

text \<open>
  A whole queue of requests served by the library over the module: the device behaves like a disk that
  carries the requests out one after the other.
\<close>

section \<open>The sequential disk\<close>

text \<open>Bytes stored at a list of addresses, the segments of a request.\<close>

definition store_at :: "nat list \<Rightarrow> byte list \<Rightarrow> mem \<Rightarrow> mem" where
  "store_at as bs m = (\<lambda>x. case map_of (zip as bs) x of Some v \<Rightarrow> v | None \<Rightarrow> m x)"

lemma store_at_unique:
  assumes "distinct as" "map m' as = bs" "\<And>x. x \<notin> set as \<Longrightarrow> m' x = m x"
  shows "m' = store_at as bs m"
proof
  fix x
  show "m' x = store_at as bs m x"
  proof (cases "x \<in> set as")
    case True
    then obtain i where i: "i < length as" "x = as ! i" by (metis in_set_conv_nth)
    then have "map_of (zip as bs) x = Some (m' x)"
      using assms(1,2) map_of_zip_nth [of as bs i] by (auto simp: nth_map)
    then show ?thesis by (simp add: store_at_def)
  next
    case False
    then have "map_of (zip as bs) x = None" using assms(2) by (auto simp: map_of_zip_is_None)
    then show ?thesis using assms(3) False by (simp add: store_at_def)
  qed
qed

text \<open>
  What the request \<open>p\<close> of the state \<open>s\<close> means for the kernel's memory and the contents of the disk. The
  data of a write are the bytes its segments have when it is carried out.
\<close>

definition carry_out :: "('bio \<Rightarrow> nat list) \<Rightarrow> 'bio kstate \<Rightarrow> ptr \<Rightarrow> mem \<times> mem \<Rightarrow> mem \<times> mem" where
  "carry_out addrs s p = (\<lambda>(km, disk). case (ks_reqs s p, ks_rqs s p) of
     (Some r, Some q) \<Rightarrow> (case req_type r of
        BIUS_WRITE \<Rightarrow> (km, mem_write disk (unat (req_pos r)) (map km (chain_addrs addrs (rq_bio q))))
      | BIUS_READ \<Rightarrow> (store_at (chain_addrs addrs (rq_bio q)) (mem_read disk (unat (req_pos r)) (req_length r)) km, disk)
      | BIUS_DISCARD \<Rightarrow> (km, mem_set disk (unat (req_pos r)) (req_length r) 0)
      | _ \<Rightarrow> (km, disk))
   | _ \<Rightarrow> (km, disk))"

text \<open>The requests the block layer makes of a disk: in range, and with segments that hold their data.\<close>

definition disk_request :: "('bio \<Rightarrow> nat list) \<Rightarrow> nat \<Rightarrow> 'bio kstate \<Rightarrow> ptr \<Rightarrow> bool" where
  "disk_request addrs buffer_size s p \<longleftrightarrow> (\<exists>r q b. ks_reqs s p = Some r \<and> ks_rqs s p = Some q \<and> blk_fields r = Some b \<and>
     req_map_type b = BIUS_DATAMAP_UNMAPPED \<and> req_bio b = rq_bio q \<and>
     unat (req_pos r) + req_length r \<le> RAMDISK_SIZE \<and>
     (req_type r \<in> {BIUS_READ, BIUS_WRITE} \<and> 0 < req_length r \<and> req_length r \<le> buffer_size \<and>
        req_length r = length (chain_addrs addrs (rq_bio q)) \<and> distinct (chain_addrs addrs (rq_bio q)) \<or>
      req_type r \<in> {BIUS_DISCARD, BIUS_FLUSH}))"

section \<open>One request\<close>

lemma ramdisk_ops:
  "op_write ramdisk_operations = Some ramdisk_write" "op_read ramdisk_operations = Some ramdisk_read"
  "op_discard ramdisk_operations = Some ramdisk_discard" "op_flush ramdisk_operations = Some ramdisk_flush"
  by (simp_all add: ramdisk_operations_def)

lemma disk_request_turn:
  assumes api: "bio_api_ok api addrs" and inv: "kinv (sv_world sv)" "pending_at c (sv_world sv) = Some (p # rest)"
    and p: "disk_request addrs buffer_size (sv_world sv) p" and buf: "buffer_size < 2 ^ 64" "buffer < 2 ^ 64"
  shows "\<exists>sv'. handle_request (kernel_fd api z env c) ramdisk_operations malloc buffer buffer_size sv = Some (Inr sv') \<and>
    turn_done c p 0 rest (sv_world sv) (sv_world sv') \<and>
    (ks_mem (sv_world sv'), sv_dev sv') = carry_out addrs (sv_world sv) p (ks_mem (sv_world sv), sv_dev sv)"
proof -
  obtain r q b where r: "ks_reqs (sv_world sv) p = Some r" "ks_rqs (sv_world sv) p = Some q" "blk_fields r = Some b"
    "req_map_type b = BIUS_DATAMAP_UNMAPPED" "req_bio b = rq_bio q" "unat (req_pos r) + req_length r \<le> RAMDISK_SIZE"
    and kind: "req_type r \<in> {BIUS_READ, BIUS_WRITE} \<and> 0 < req_length r \<and> req_length r \<le> buffer_size \<and>
        req_length r = length (chain_addrs addrs (rq_bio q)) \<and> distinct (chain_addrs addrs (rq_bio q)) \<or>
      req_type r \<in> {BIUS_DISCARD, BIUS_FLUSH}"
    using p by (auto simp: disk_request_def)
  have rdy: "ready c p r rest (sv_world sv)" using inv r(1) by (simp add: ready_pending)
  have srv: "served_store api addrs ramdisk_read ramdisk_write (\<lambda>d. d) RAMDISK_SIZE" by (rule served_ramdisk [OF api])
  have ker: "kernel_services api addrs" by (rule kernel_services.intro [OF api])
  have len: "unat (of_nat (req_length r) :: u64) = req_length r"
    using r(6) by (intro unat_address) (simp add: RAMDISK_SIZE_def)
  consider (is_read) "req_type r = BIUS_READ" | (is_write) "req_type r = BIUS_WRITE"
    | (is_discard) "req_type r = BIUS_DISCARD" | (is_flush) "req_type r = BIUS_FLUSH" using kind by blast
  then show ?thesis
  proof cases
    case is_write
    then have k: "req_length r = length (chain_addrs addrs (req_bio b))" "0 < req_length r" "req_length r \<le> buffer_size"
      using kind r(5) by auto
    from served_store.write_request_served [OF srv rdy r(3,4) is_write k(1,2,3) buf r(6) ramdisk_ops(1), of z env malloc]
    show ?thesis using is_write r by (auto simp: carry_out_def)
  next
    case is_read
    then have k: "0 < req_length r" "req_length r < 2 ^ 64" "distinct (chain_addrs addrs (rq_bio q))"
      "req_length r = length (chain_addrs addrs (rq_bio q))" using kind buf(1) by auto
    then have "req_bio b \<noteq> []" using r(5) by (auto simp: chain_addrs_def)
    from served_store.read_request_served [OF srv rdy r(3,4) this is_read k(1,2) buf(2) r(2) k(3,4) r(6) ramdisk_ops(2), of z env malloc buffer_size]
    obtain sv' where "handle_request (kernel_fd api z env c) ramdisk_operations malloc buffer buffer_size sv = Some (Inr sv')"
      "sv_dev sv' = sv_dev sv" "turn_done c p 0 rest (sv_world sv) (sv_world sv')"
      "map (ks_mem (sv_world sv')) (chain_addrs addrs (rq_bio q)) = mem_read (sv_dev sv) (unat (req_pos r)) (req_length r)"
      "\<forall>x. x \<notin> set (chain_addrs addrs (rq_bio q)) \<longrightarrow> ks_mem (sv_world sv') x = ks_mem (sv_world sv) x" by blast
    then show ?thesis using store_at_unique [OF k(3), of "ks_mem (sv_world sv')"] is_read r by (auto simp: carry_out_def)
  next
    case is_discard
    then have "answer_command ramdisk_operations malloc (command_header r) (sv_answer sv) (sv_mem sv) (sv_dev sv) =
        Some (Some (u2k_reply_union (status BLK_STS_OK), 0), sv_mem sv, mem_set (sv_dev sv) (unat (req_pos r)) (req_length r) 0)"
      using r(6) len by (simp add: answer_command_def is_blk_request_def command_header_def handle_blk_command_def ramdisk_ops
          call_range_def ramdisk_discard_def in_ramdisk_def Let_def)
    from kernel_services.plain_turn [OF ker rdy _ _ this, of z env buffer buffer_size] show ?thesis
      using is_discard r by (auto simp: is_blk_request_def request_may_have_data_def carry_out_def BLK_STS_OK_def)
  next
    case is_flush
    then have "answer_command ramdisk_operations malloc (command_header r) (sv_answer sv) (sv_mem sv) (sv_dev sv) =
        Some (Some (u2k_reply_union (status BLK_STS_OK), 0), sv_mem sv, sv_dev sv)"
      by (simp add: answer_command_def is_blk_request_def command_header_def handle_blk_command_def ramdisk_ops
          call_dev_def ramdisk_flush_def Let_def)
    from kernel_services.plain_turn [OF ker rdy _ _ this, of z env buffer buffer_size] show ?thesis
      using is_flush r by (auto simp: is_blk_request_def request_may_have_data_def carry_out_def BLK_STS_OK_def)
  qed
qed

section \<open>The queue\<close>

text \<open>A request means the same in every state that agrees on it.\<close>

lemma same_request:
  assumes "ks_reqs t p = ks_reqs s p" "ks_rqs t p = ks_rqs s p"
  shows "disk_request addrs n t p = disk_request addrs n s p" "carry_out addrs t p = carry_out addrs s p"
  using assms by (auto simp: disk_request_def carry_out_def fun_eq_iff)

text \<open>
  C4. The device is a sequential disk. When the pending requests of a device are reads, writes, discards and
  flushes in range, as many turns of the library's loop over the module as there are requests return and
  leave none pending; every request was answered once, with success, in the order of the queue, and the
  memory of the kernel and the contents of the ramdisk are those of a disk that carries the requests out
  one after the other.
\<close>

theorem queue_served_in_order:
  assumes "bio_api_ok api addrs" "kinv (sv_world sv)" "pending_at c (sv_world sv) = Some ps" "distinct ps"
    and "\<forall>p \<in> set ps. disk_request addrs buffer_size (sv_world sv) p" "buffer_size < 2 ^ 64" "buffer < 2 ^ 64"
  shows "\<exists>sv'. serve (kernel_fd api z env c) ramdisk_operations malloc buffer buffer_size (length ps) sv = Some (Inr sv') \<and>
    pending_at c (sv_world sv') = Some [] \<and>
    ks_ended (sv_world sv') = ks_ended (sv_world sv) @ map (\<lambda>p. (p, 0)) ps \<and>
    (ks_mem (sv_world sv'), sv_dev sv') = fold (carry_out addrs (sv_world sv)) ps (ks_mem (sv_world sv), sv_dev sv)"
  using assms(2-5)
proof (induction ps arbitrary: sv)
  case (Cons p ps)
  from disk_request_turn [OF assms(1) Cons.prems(1,2) _ assms(6,7), of z env malloc] Cons.prems(4) obtain sv1 where
    t: "handle_request (kernel_fd api z env c) ramdisk_operations malloc buffer buffer_size sv = Some (Inr sv1)"
      "turn_done c p 0 ps (sv_world sv) (sv_world sv1)"
      "(ks_mem (sv_world sv1), sv_dev sv1) = carry_out addrs (sv_world sv) p (ks_mem (sv_world sv), sv_dev sv)" by auto
  have same: "ks_reqs (sv_world sv1) q = ks_reqs (sv_world sv) q" "ks_rqs (sv_world sv1) q = ks_rqs (sv_world sv) q"
    if "q \<in> set ps" for q using t(2) Cons.prems(3) that by (auto simp: turn_done_def)
  have inv: "kinv (sv_world sv1)" "pending_at c (sv_world sv1) = Some ps" using t(2) by (auto simp: turn_done_def)
  have reqs: "\<forall>q \<in> set ps. disk_request addrs buffer_size (sv_world sv1) q"
    using Cons.prems(4) same_request(1) [OF same] by auto
  obtain sv2 where "serve (kernel_fd api z env c) ramdisk_operations malloc buffer buffer_size (length ps) sv1 = Some (Inr sv2)"
    "pending_at c (sv_world sv2) = Some []" "ks_ended (sv_world sv2) = ks_ended (sv_world sv1) @ map (\<lambda>p. (p, 0)) ps"
    "(ks_mem (sv_world sv2), sv_dev sv2) = fold (carry_out addrs (sv_world sv1)) ps (ks_mem (sv_world sv1), sv_dev sv1)"
    using Cons.IH [OF inv _ reqs] Cons.prems(3) by auto
  moreover have "fold (carry_out addrs (sv_world sv1)) ps x = fold (carry_out addrs (sv_world sv)) ps x" for x
    by (rule fold_cong) (simp_all add: same_request(2) [OF same])
  ultimately show ?case using t by (simp add: turn_done_def)
qed simp

text \<open>A write and a read of the same range.\<close>

theorem queue_served_in_order_witness:
  "\<exists>sv'. serve (kernel_fd seg_api 0 demo_create 20) ramdisk_operations (\<lambda>_. 0) 4096 65536 2 demo_serving = Some (Inr sv') \<and>
    pending_at 20 (sv_world sv') = Some [] \<and> ks_ended (sv_world sv') = [(30, 0), (31, 0)]"
proof -
  have "req_bio (demo_part True) = rq_bio (demo_rq True)" "req_bio (demo_part False) = rq_bio demo_rq2"
    by (simp_all add: demo_part_def)
  moreover from this have "chain_addrs seg_addrs (rq_bio (demo_rq True)) = [20480 ..< 20488] @ [28688 ..< 28692]"
    using demo_part_facts(4) by simp
  ultimately have "disk_request seg_addrs 65536 (sv_world demo_serving) 30" "disk_request seg_addrs 65536 (sv_world demo_serving) 31"
    by (auto simp: disk_request_def demo_serving_facts demo_serving_def demo_two_sel demo_part_facts demo_req_facts RAMDISK_SIZE_def
        intro!: exI)
  moreover have two: "length [30, 31 :: ptr] = 2" by simp
  ultimately show ?thesis
    using queue_served_in_order [OF seg_api_ok demo_serving_facts(2,1), of 65536 4096 0 demo_create "\<lambda>_. 0", unfolded two]
      demo_serving_facts(7) by (auto simp del: serve.simps)
qed

end
