(* ===== verification/Bius_Mapping.thy ===== *)
theory Bius_Mapping
  imports Bius_Data_Mapping
begin

text \<open>
  What mapping a request's pages does (data_mapping.c). The frames of the kernel's memory are mapped
  linearly: the byte at offset \<open>k\<close> of frame \<open>f\<close> is at \<open>base + PAGE_SIZE * f + k\<close>. A cell \<open>(x, a)\<close>
  says that the byte of the request's data at the kernel address \<open>a\<close> is to be found at offset \<open>x\<close> of the
  area mapped into the process: its page shows the frame of \<open>a\<close> itself, or a reserved page that stands
  for it.
\<close>

lemma page_pos [simp]: "0 < PAGE_SIZE" "PAGE_SIZE \<noteq> 0"
  by (simp_all add: PAGE_SIZE_def)

lemma set_pte_Some:
  "set_pte ptes i f = Some ptes' \<longleftrightarrow> i < BIUS_PTES_PER_COMMAND \<and> ptes i \<noteq> None \<and> ptes' = ptes(i \<mapsto> f)"
  by (auto simp: set_pte_def)

lemma list_store_Some: "list_store l i v = Some l' \<longleftrightarrow> i < MAPPING_LIST_WORDS \<and> l' = l(i := v)"
  by (auto simp: list_store_def)

section \<open>Cells\<close>

definition reserved_area :: "bius_connection \<Rightarrow> nat set" where
  "reserved_area cn = {cn_reserved_pages cn ..< cn_reserved_pages cn + PAGE_SIZE * BIUS_NUM_RESERVED_PAGES}"

definition shown :: "nat \<Rightarrow> (nat \<Rightarrow> nat option) \<Rightarrow> nat \<Rightarrow> nat" where
  "shown base ptes x = base + PAGE_SIZE * the (ptes (x div PAGE_SIZE)) + x mod PAGE_SIZE"

text \<open>The part of the reserve list that counts: which data page a reserved page stands for.\<close>

definition cell_ok :: "nat \<Rightarrow> bius_connection \<Rightarrow> map_state \<Rightarrow> nat \<times> nat \<Rightarrow> bool" where
  "cell_ok base cn st = (\<lambda>(x, a). x div PAGE_SIZE < ms_user_page_num st \<and> ms_ptes st (x div PAGE_SIZE) \<noteq> None \<and>
     a \<notin> reserved_area cn \<and>
     (shown base (ms_ptes st) x = a \<or>
      (\<exists>r. 2 \<le> r \<and> r < ms_next_reserved st \<and>
        shown base (ms_ptes st) x = cn_reserved_pages cn + PAGE_SIZE * r + x mod PAGE_SIZE \<and>
        a = ms_reserve_list st r + x mod PAGE_SIZE)))"

definition linear_map :: "nat \<Rightarrow> 'bio bio_api \<Rightarrow> bius_connection \<Rightarrow> bool" where
  "linear_map base api cn \<longleftrightarrow> cn_reserved_pages cn = base + PAGE_SIZE * cn_reserved_pages_pfn cn \<and>
     (\<forall>p. page_address api p = base + PAGE_SIZE * page_to_pfn api p)"

text \<open>What holds throughout the loop, for a request that started from the memory \<open>m0\<close>.\<close>

definition map_inv :: "nat \<Rightarrow> bius_connection \<Rightarrow> nat \<Rightarrow> bool \<Rightarrow> mem \<Rightarrow> (nat \<times> nat) list \<Rightarrow> map_state \<Rightarrow> bool" where
  "map_inv base cn vm w m0 cells st \<longleftrightarrow>
     ms_user_addr st = vm + PAGE_SIZE * ms_user_page_num st \<and> 2 \<le> ms_next_reserved st \<and>
     ms_next_reserved st \<le> BIUS_NUM_RESERVED_PAGES \<and>
     (\<forall>y. y \<notin> reserved_area cn \<longrightarrow> ms_mem st y = m0 y) \<and>
     (\<forall>c \<in> set cells. cell_ok base cn st c \<and> (w \<longrightarrow> ms_mem st (shown base (ms_ptes st) (fst c)) = m0 (snd c)))"

definition run_cells :: "nat \<Rightarrow> nat \<Rightarrow> nat \<Rightarrow> (nat \<times> nat) list" where
  "run_cells x a n = map (\<lambda>k. (x + k, a + k)) [0 ..< n]"

lemma run_cells_add: "run_cells x a (i + j) = run_cells x a i @ run_cells (x + i) (a + i) j"
proof -
  have "map (\<lambda>k. (x + k, a + k)) [i ..< i + j] = map (\<lambda>k. (x + i + k, a + i + k)) [0 ..< j]"
    by (rule nth_equalityI) auto
  then show ?thesis using upt_add_eq_append [of 0 i j] by (simp add: run_cells_def)
qed

lemma run_cells_simps [simp]:
  "map fst (run_cells x a n) = [x ..< x + n]" "map snd (run_cells x a n) = [a ..< a + n]" "run_cells x a 0 = []"
  by (simp_all add: run_cells_def o_def) (rule nth_equalityI; simp)+

lemma page_of_offset: "k < PAGE_SIZE \<Longrightarrow> (PAGE_SIZE * i + k) div PAGE_SIZE = i" "k < PAGE_SIZE \<Longrightarrow> (PAGE_SIZE * i + k) mod PAGE_SIZE = k"
  by simp_all

lemma map_inv_list [simp]:
  "map_inv base cn vm w m0 cells (st\<lparr>ms_segment_end_aligned := b\<rparr>) = map_inv base cn vm w m0 cells st"
  "map_inv base cn vm w m0 cells (st\<lparr>ms_mapping_list := l, ms_list_entry_index := i\<rparr>) = map_inv base cn vm w m0 cells st"
  by (simp_all add: map_inv_def cell_ok_def)

section \<open>One page more\<close>

text \<open>Setting the next page and writing only to a reserved page that was not used yet keeps every cell.\<close>

lemma map_inv_extend:
  assumes inv: "map_inv base cn vm w m0 cells st"
    and lin: "cn_reserved_pages cn = base + PAGE_SIZE * cn_reserved_pages_pfn cn"
    and st': "ms_user_page_num st' = ms_user_page_num st + 1" "ms_ptes st' = (ms_ptes st)(ms_user_page_num st \<mapsto> f)"
      "ms_user_addr st' = ms_user_addr st + PAGE_SIZE"
      "ms_next_reserved st \<le> ms_next_reserved st'" "ms_next_reserved st' \<le> BIUS_NUM_RESERVED_PAGES"
      "\<forall>r < ms_next_reserved st. ms_reserve_list st' r = ms_reserve_list st r"
    and mem: "\<forall>y. y < cn_reserved_pages cn + PAGE_SIZE * ms_next_reserved st \<or>
        cn_reserved_pages cn + PAGE_SIZE * BIUS_NUM_RESERVED_PAGES \<le> y \<longrightarrow> ms_mem st' y = ms_mem st y"
    and new: "\<forall>c \<in> set cells'. cell_ok base cn st' c \<and> (w \<longrightarrow> ms_mem st' (shown base (ms_ptes st') (fst c)) = m0 (snd c))"
  shows "map_inv base cn vm w m0 (cells @ cells') st'"
proof -
  have old: "cell_ok base cn st' c \<and> (w \<longrightarrow> ms_mem st' (shown base (ms_ptes st') (fst c)) = m0 (snd c))"
    if c: "c \<in> set cells" for c
  proof -
    obtain x a where ca: "c = (x, a)" by (cases c)
    have ok: "cell_ok base cn st (x, a)" "w \<longrightarrow> ms_mem st (shown base (ms_ptes st) x) = m0 a"
      using inv c by (auto simp: map_inv_def ca)
    then have x: "x div PAGE_SIZE < ms_user_page_num st" by (simp add: cell_ok_def)
    then have sh: "shown base (ms_ptes st') x = shown base (ms_ptes st) x" by (simp add: shown_def st')
    have "shown base (ms_ptes st) x < cn_reserved_pages cn + PAGE_SIZE * ms_next_reserved st \<or>
        cn_reserved_pages cn + PAGE_SIZE * BIUS_NUM_RESERVED_PAGES \<le> shown base (ms_ptes st) x"
    proof (cases "shown base (ms_ptes st) x = a")
      case True
      then show ?thesis using ok(1) by (auto simp: cell_ok_def reserved_area_def)
    next
      case False
      then obtain r where r: "r < ms_next_reserved st"
        "shown base (ms_ptes st) x = cn_reserved_pages cn + PAGE_SIZE * r + x mod PAGE_SIZE"
        using ok(1) by (auto simp: cell_ok_def)
      have "PAGE_SIZE * r + PAGE_SIZE \<le> PAGE_SIZE * ms_next_reserved st"
        using mult_le_mono2 [OF Suc_leI [OF r(1)], of PAGE_SIZE] by simp
      then show ?thesis using r(2) mod_less_divisor [OF page_pos(1), of x] by linarith
    qed
    then have "ms_mem st' (shown base (ms_ptes st) x) = ms_mem st (shown base (ms_ptes st) x)" using mem by blast
    moreover have "cell_ok base cn st' (x, a)"
      using ok(1) x st' sh unfolding cell_ok_def by (auto dest: less_le_trans)
    ultimately show ?thesis using ok(2) sh by (simp add: ca)
  qed
  have "ms_mem st' y = m0 y" if y: "y \<notin> reserved_area cn" for y
  proof -
    have "PAGE_SIZE * ms_next_reserved st \<le> PAGE_SIZE * BIUS_NUM_RESERVED_PAGES" using st'(4,5) by simp
    then have "ms_mem st' y = ms_mem st y" using mem y by (auto simp: reserved_area_def)
    then show ?thesis using inv y by (simp add: map_inv_def)
  qed
  then show ?thesis using inv st' old new by (auto simp: map_inv_def)
qed

text \<open>A reserved page that stands for \<open>n\<close> bytes of a data page.\<close>

lemma map_reserved_inv:
  assumes inv: "map_inv base cn vm w m0 cells st" and run: "map_reserved w cn da off n st = Some st'"
    and lin: "cn_reserved_pages cn = base + PAGE_SIZE * cn_reserved_pages_pfn cn"
    and da: "off + n \<le> PAGE_SIZE" "\<forall>k < n. da + off + k \<notin> reserved_area cn"
  shows "map_inv base cn vm w m0 (cells @ run_cells (PAGE_SIZE * ms_user_page_num st + off) (da + off) n) st'"
proof (rule map_inv_extend [OF inv lin])
  let ?u = "ms_user_page_num st" and ?r = "ms_next_reserved st"
  let ?res = "cn_reserved_pages cn + PAGE_SIZE * ?r"
  have st': "st' = st\<lparr>ms_mem := ms_mem st', ms_ptes := (ms_ptes st)(?u \<mapsto> cn_reserved_pages_pfn cn + ?r),
      ms_reserve_list := (ms_reserve_list st)(?r := da), ms_next_reserved := ?r + 1,
      ms_user_addr := ms_user_addr st + PAGE_SIZE, ms_user_page_num := ?u + 1\<rparr>"
    and m': "ms_mem st' = (if w then mem_copy (mem_set (ms_mem st) ?res PAGE_SIZE 0) (?res + off) (da + off) n
      else mem_set (ms_mem st) ?res PAGE_SIZE 0)"
    and r: "?r < BIUS_NUM_RESERVED_PAGES"
    using run by (auto simp: map_reserved_def set_pte_Some Option.bind_eq_Some_conv Let_def split: if_splits)
  show "ms_user_page_num st' = ?u + 1" "ms_ptes st' = (ms_ptes st)(?u \<mapsto> cn_reserved_pages_pfn cn + ?r)"
    "ms_user_addr st' = ms_user_addr st + PAGE_SIZE" "?r \<le> ms_next_reserved st'"
    "ms_next_reserved st' \<le> BIUS_NUM_RESERVED_PAGES" "\<forall>r < ?r. ms_reserve_list st' r = ms_reserve_list st r"
    using r by (subst st'; simp)+
  have top: "PAGE_SIZE * ?r + PAGE_SIZE \<le> PAGE_SIZE * BIUS_NUM_RESERVED_PAGES"
    using mult_le_mono2 [OF Suc_leI [OF r], of PAGE_SIZE] by simp
  show "\<forall>y. y < ?res \<or> cn_reserved_pages cn + PAGE_SIZE * BIUS_NUM_RESERVED_PAGES \<le> y \<longrightarrow> ms_mem st' y = ms_mem st y"
    using top da(1) by (auto simp: m' mem_copy_def mem_set_def)
  show "\<forall>c \<in> set (run_cells (PAGE_SIZE * ?u + off) (da + off) n).
      cell_ok base cn st' c \<and> (w \<longrightarrow> ms_mem st' (shown base (ms_ptes st') (fst c)) = m0 (snd c))"
  proof
    fix c assume "c \<in> set (run_cells (PAGE_SIZE * ?u + off) (da + off) n)"
    then obtain k where k: "k < n" "c = (PAGE_SIZE * ?u + (off + k), da + off + k)"
      by (auto simp: run_cells_def add.assoc)
    let ?x = "PAGE_SIZE * ?u + (off + k)"
    have x: "?x div PAGE_SIZE = ?u" "?x mod PAGE_SIZE = off + k" using page_of_offset [of "off + k" ?u] k da(1) by simp_all
    have sh: "shown base (ms_ptes st') ?x = ?res + (off + k)"
      unfolding shown_def x by (subst st') (simp add: lin distrib_left)
    have "cell_ok base cn st' (?x, da + off + k)"
      unfolding cell_ok_def prod.case x sh
      by (subst (1 2 3 4) st') (use k da(2) inv in \<open>auto simp: map_inv_def add.assoc\<close>)
    moreover have "ms_mem st' (?res + (off + k)) = m0 (da + off + k)" if w
    proof -
      have "da + off + k \<notin> {?res ..< ?res + PAGE_SIZE}" using da(2) k(1) top by (auto simp: reserved_area_def)
      then show ?thesis
        using that k da(2) inv by (auto simp: m' mem_copy_def mem_set_def map_inv_def)
    qed
    ultimately show "cell_ok base cn st' c \<and> (w \<longrightarrow> ms_mem st' (shown base (ms_ptes st') (fst c)) = m0 (snd c))"
      by (simp add: k sh)
  qed
qed

text \<open>A page of the data itself.\<close>

lemma map_full_page_inv:
  assumes inv: "map_inv base cn vm w m0 cells st"
    and run: "set_pte (ms_ptes st) (ms_user_page_num st) pfn = Some ptes"
    and lin: "cn_reserved_pages cn = base + PAGE_SIZE * cn_reserved_pages_pfn cn" "da = base + PAGE_SIZE * pfn"
    and da: "\<forall>k < PAGE_SIZE. da + k \<notin> reserved_area cn"
  shows "map_inv base cn vm w m0 (cells @ run_cells (PAGE_SIZE * ms_user_page_num st) da PAGE_SIZE)
    (st\<lparr>ms_ptes := ptes, ms_user_addr := ms_user_addr st + PAGE_SIZE, ms_user_page_num := ms_user_page_num st + 1\<rparr>)"
  (is "map_inv _ _ _ _ _ _ ?st")
proof (rule map_inv_extend [OF inv lin(1), of _ pfn])
  let ?u = "ms_user_page_num st"
  have ptes: "ptes = (ms_ptes st)(?u \<mapsto> pfn)" using run by (simp add: set_pte_Some)
  show "\<forall>c \<in> set (run_cells (PAGE_SIZE * ?u) da PAGE_SIZE).
      cell_ok base cn ?st c \<and> (w \<longrightarrow> ms_mem ?st (shown base (ms_ptes ?st) (fst c)) = m0 (snd c))"
  proof
    fix c assume "c \<in> set (run_cells (PAGE_SIZE * ?u) da PAGE_SIZE)"
    then obtain k where k: "k < PAGE_SIZE" "c = (PAGE_SIZE * ?u + k, da + k)" by (auto simp: run_cells_def)
    then show "cell_ok base cn ?st c \<and> (w \<longrightarrow> ms_mem ?st (shown base (ms_ptes ?st) (fst c)) = m0 (snd c))"
      using da inv page_of_offset [OF k(1), of ?u] by (auto simp: cell_ok_def shown_def ptes lin(2) map_inv_def)
  qed
qed (use inv run in \<open>auto simp: set_pte_Some map_inv_def\<close>)

section \<open>One segment more\<close>

lemma map_full_pages_inv:
  assumes "map_full_pages pfn da n st = Some (da', n', st')" "map_inv base cn vm w m0 cells st"
    and "cn_reserved_pages cn = base + PAGE_SIZE * cn_reserved_pages_pfn cn" "da = base + PAGE_SIZE * pfn"
    and "\<forall>k < n. da + k \<notin> reserved_area cn"
  shows "\<exists>j. map_inv base cn vm w m0 (cells @ run_cells (PAGE_SIZE * ms_user_page_num st) da (PAGE_SIZE * j)) st' \<and>
    ms_user_page_num st' = ms_user_page_num st + j \<and> da' = da + PAGE_SIZE * j \<and> n = PAGE_SIZE * j + n' \<and> n' < PAGE_SIZE \<and>
    ms_list_entry_index st' = ms_list_entry_index st \<and> ms_mapping_list st' = ms_mapping_list st"
  using assms(1,2,4,5)
proof (induction pfn da n st arbitrary: cells rule: map_full_pages.induct)
  case (1 pfn da n st)
  show ?case
  proof (cases "PAGE_SIZE \<le> n")
    case False
    then show ?thesis using "1.prems" by (intro exI [of _ 0]) (auto simp: map_full_pages.simps [of pfn])
  next
    case True
    then obtain ptes where ptes: "set_pte (ms_ptes st) (ms_user_page_num st) pfn = Some ptes"
      using "1.prems"(1) by (auto simp: map_full_pages.simps [of pfn] split: option.splits)
    let ?st = "st\<lparr>ms_ptes := ptes, ms_user_addr := ms_user_addr st + PAGE_SIZE, ms_user_page_num := ms_user_page_num st + 1\<rparr>"
    have run: "map_full_pages (pfn + 1) (da + PAGE_SIZE) (n - PAGE_SIZE) ?st = Some (da', n', st')"
      using "1.prems"(1) True ptes by (simp add: map_full_pages.simps [of pfn])
    have inv: "map_inv base cn vm w m0 (cells @ run_cells (PAGE_SIZE * ms_user_page_num st) da PAGE_SIZE) ?st"
      using map_full_page_inv [OF "1.prems"(2) ptes assms(3) "1.prems"(3)] "1.prems"(4) True by simp
    have "\<forall>k < n - PAGE_SIZE. da + PAGE_SIZE + k \<notin> reserved_area cn"
      using "1.prems"(4) [rule_format, of "PAGE_SIZE + k" for k] by (simp add: ac_simps less_diff_conv)
    from "1.IH" [OF True ptes run inv _ this] "1.prems"(3)
    obtain j where j: "map_inv base cn vm w m0 (cells @ run_cells (PAGE_SIZE * ms_user_page_num st) da PAGE_SIZE @
        run_cells (PAGE_SIZE * (ms_user_page_num st + 1)) (da + PAGE_SIZE) (PAGE_SIZE * j)) st'"
      "ms_user_page_num st' = ms_user_page_num st + 1 + j" "da' = da + PAGE_SIZE + PAGE_SIZE * j"
      "n - PAGE_SIZE = PAGE_SIZE * j + n'" "n' < PAGE_SIZE"
      "ms_list_entry_index st' = ms_list_entry_index st" "ms_mapping_list st' = ms_mapping_list st"
      by (auto simp: distrib_left)
    then show ?thesis
      using True run_cells_add [of "PAGE_SIZE * ms_user_page_num st" da PAGE_SIZE "PAGE_SIZE * j"]
      by (intro exI [of _ "Suc j"]) (simp add: distrib_left add.commute)
  qed
qed

lemma map_tail_inv:
  assumes run: "map_tail w cn pfn da n st = Some st'" and inv: "map_inv base cn vm w m0 cells st"
    and lin: "cn_reserved_pages cn = base + PAGE_SIZE * cn_reserved_pages_pfn cn" "da = base + PAGE_SIZE * pfn"
    and da: "\<forall>k < n. da + k \<notin> reserved_area cn"
  shows "map_inv base cn vm w m0 (cells @ run_cells (PAGE_SIZE * ms_user_page_num st) da n) st' \<and>
    (ms_segment_end_aligned st' \<longrightarrow> PAGE_SIZE * ms_user_page_num st' = PAGE_SIZE * ms_user_page_num st + n) \<and>
    ms_list_entry_index st' = ms_list_entry_index st \<and> ms_mapping_list st' = ms_mapping_list st"
proof -
  obtain da1 n1 st1 where full: "map_full_pages pfn da n st = Some (da1, n1, st1)"
    and rest: "(if 0 < n1 then map_option (\<lambda>s. s\<lparr>ms_segment_end_aligned := False\<rparr>) (map_reserved w cn da1 0 n1 st1)
      else Some (st1\<lparr>ms_segment_end_aligned := True\<rparr>)) = Some st'"
    using run by (auto simp: map_tail_def Option.bind_eq_Some_conv split: if_splits)
  from map_full_pages_inv [OF full inv lin da] obtain j where
    j: "map_inv base cn vm w m0 (cells @ run_cells (PAGE_SIZE * ms_user_page_num st) da (PAGE_SIZE * j)) st1"
      "ms_user_page_num st1 = ms_user_page_num st + j" "da1 = da + PAGE_SIZE * j" "n = PAGE_SIZE * j + n1" "n1 < PAGE_SIZE"
      "ms_list_entry_index st1 = ms_list_entry_index st" "ms_mapping_list st1 = ms_mapping_list st" by blast
  show ?thesis
  proof (cases "0 < n1")
    case False
    then show ?thesis using rest j by (auto simp: distrib_left)
  next
    case True
    then obtain st2 where st2: "map_reserved w cn da1 0 n1 st1 = Some st2" "st' = st2\<lparr>ms_segment_end_aligned := False\<rparr>"
      using rest by auto
    have "\<forall>k < n1. da1 + 0 + k \<notin> reserved_area cn" using da j(3,4) by (simp add: add.assoc)
    from map_reserved_inv [OF j(1) st2(1) lin(1) _ this] j(2,3,5)
    have "map_inv base cn vm w m0 (cells @ run_cells (PAGE_SIZE * ms_user_page_num st) da n) st2"
      unfolding j(4) run_cells_add by (simp add: distrib_left)
    moreover have "ms_list_entry_index st2 = ms_list_entry_index st1" "ms_mapping_list st2 = ms_mapping_list st1"
      using st2(1) by (auto simp: map_reserved_def Option.bind_eq_Some_conv Let_def split: if_splits)
    ultimately show ?thesis using st2(2) j(6,7) by simp
  qed
qed

text \<open>Which bytes of the process's area the list of \<open>n\<close> entries names.\<close>

definition list_ranges :: "(nat \<Rightarrow> nat) \<Rightarrow> nat \<Rightarrow> nat list" where
  "list_ranges l n = concat (map (\<lambda>k. [l (2 * k) ..< l (2 * k) + l (2 * k + 1)]) [0 ..< n])"

lemma list_ranges_Suc: "list_ranges l (Suc n) = list_ranges l n @ [l (2 * n) ..< l (2 * n) + l (2 * n + 1)]"
  by (simp add: list_ranges_def)

lemma list_ranges_cong: "(\<And>i. i < 2 * n \<Longrightarrow> l i = l' i) \<Longrightarrow> list_ranges l n = list_ranges l' n"
  unfolding list_ranges_def by (intro arg_cong [of _ _ concat] map_cong) auto

definition list_inv :: "nat \<Rightarrow> (nat \<times> nat) list \<Rightarrow> map_state \<Rightarrow> bool" where
  "list_inv vm cells st \<longleftrightarrow> list_ranges (ms_mapping_list st) (ms_list_entry_index st) = map (\<lambda>c. vm + fst c) cells \<and>
     (\<forall>k < ms_list_entry_index st. vm \<le> ms_mapping_list st (2 * k)) \<and>
     (if ms_list_entry_index st = 0 then ms_user_page_num st = 0 else ms_mapping_list st 0 < vm + PAGE_SIZE) \<and>
     (ms_segment_end_aligned st \<longrightarrow> 0 < ms_list_entry_index st \<and>
       ms_mapping_list st (2 * ms_list_entry_index st - 2) + ms_mapping_list st (2 * ms_list_entry_index st - 1) = ms_user_addr st)"

lemma map_list_entry_ranges:
  assumes run: "map_list_entry bvec st = Some st1" and inv: "list_inv vm cells st"
    and u: "ms_user_addr st = vm + PAGE_SIZE * ms_user_page_num st" and o: "bv_offset bvec < PAGE_SIZE"
  shows "list_ranges (ms_mapping_list st1) (ms_list_entry_index st1) =
      map (\<lambda>c. vm + fst c) (cells @ run_cells (PAGE_SIZE * ms_user_page_num st + bv_offset bvec) a (bv_len bvec)) \<and>
    0 < ms_list_entry_index st1 \<and> (\<forall>k < ms_list_entry_index st1. vm \<le> ms_mapping_list st1 (2 * k)) \<and>
    ms_mapping_list st1 0 < vm + PAGE_SIZE \<and>
    ms_mapping_list st1 (2 * ms_list_entry_index st1 - 2) + ms_mapping_list st1 (2 * ms_list_entry_index st1 - 1) =
      ms_user_addr st + bv_offset bvec + bv_len bvec \<and>
    st1 = st\<lparr>ms_mapping_list := ms_mapping_list st1, ms_list_entry_index := ms_list_entry_index st1\<rparr>"
proof -
  let ?i = "ms_list_entry_index st" and ?l = "ms_mapping_list st" and ?n = "bv_len bvec" and ?o = "bv_offset bvec"
  have shift: "map (\<lambda>c. vm + fst c) (run_cells x a n) = [vm + x ..< vm + x + n]" for x n
    by (rule nth_equalityI) (auto simp: run_cells_def)
  show ?thesis
  proof (cases "\<not> ms_segment_end_aligned st \<or> ?o \<noteq> 0")
    case True
    let ?l1 = "?l(2 * ?i := ms_user_addr st + ?o, 2 * ?i + 1 := ?n)"
    have st1: "st1 = st\<lparr>ms_mapping_list := ?l1, ms_list_entry_index := ?i + 1\<rparr>"
      using run True by (auto simp: map_list_entry_def list_store_Some Option.bind_eq_Some_conv mult.commute split: if_splits)
    have "list_ranges ?l1 ?i = list_ranges ?l ?i" by (rule list_ranges_cong) auto
    then show ?thesis
      using inv u o by (auto simp: st1 list_inv_def list_ranges_Suc shift add.assoc less_Suc_eq simp del: run_cells_simps split: if_splits)
  next
    case False
    then obtain j where j: "?i = Suc j" using inv by (auto simp: list_inv_def gr0_conv_Suc)
    let ?l1 = "?l(2 * j + 1 := ?l (2 * j + 1) + ?n)"
    have st1: "st1 = st\<lparr>ms_mapping_list := ?l1\<rparr>"
      using run False j
      by (auto simp: map_list_entry_def list_store_Some Option.bind_eq_Some_conv mult.commute split: if_splits)
    have "list_ranges ?l1 j = list_ranges ?l j" by (rule list_ranges_cong) auto
    moreover have "?l (2 * j) + ?l (2 * j + 1) = ms_user_addr st" using inv False j by (simp add: list_inv_def)
    moreover have "[x ..< x + (p + q)] = [x ..< x + p] @ [x + p ..< x + p + q]" for x p q :: nat
      by (metis add.assoc upt_add_eq_append le_add1)
    ultimately show ?thesis
      using inv u False by (auto simp: st1 j list_inv_def list_ranges_Suc shift simp del: run_cells_simps)
  qed
qed

text \<open>The whole loop body, and the loop.\<close>

definition segment_ok :: "'bio bio_api \<Rightarrow> bius_connection \<Rightarrow> bio_vec \<Rightarrow> bool" where
  "segment_ok api cn v \<longleftrightarrow> bv_offset v < PAGE_SIZE \<and> set (bvec_addrs api v) \<inter> reserved_area cn = {}"

lemma segment_ok_addr: "segment_ok api cn v \<Longrightarrow> k < bv_len v \<Longrightarrow> page_address api (bv_page v) + bv_offset v + k \<notin> reserved_area cn"
  unfolding segment_ok_def disjoint_iff by (elim conjE allE [of _ "page_address api (bv_page v) + bv_offset v + k"])
    (simp add: bvec_addrs_def)

lemma map_segment_pages:
  assumes run: "map_segment api w cn v st = Some st'" and st1: "map_list_entry v st = Some st1"
    and inv1: "map_inv base cn vm w m0 cells st1" and lin: "linear_map base api cn" and ok: "segment_ok api cn v"
  shows "map_inv base cn vm w m0 (cells @ run_cells (PAGE_SIZE * ms_user_page_num st1 + bv_offset v)
      (page_address api (bv_page v) + bv_offset v) (bv_len v)) st' \<and>
    (ms_segment_end_aligned st' \<longrightarrow> PAGE_SIZE * ms_user_page_num st' = PAGE_SIZE * ms_user_page_num st1 + bv_offset v + bv_len v) \<and>
    ms_list_entry_index st' = ms_list_entry_index st1 \<and> ms_mapping_list st' = ms_mapping_list st1"
proof -
  let ?a = "page_address api (bv_page v)" and ?pfn = "page_to_pfn api (bv_page v)" and ?n = "bv_len v" and ?o = "bv_offset v"
  let ?x = "PAGE_SIZE * ms_user_page_num st1"
  have base: "cn_reserved_pages cn = base + PAGE_SIZE * cn_reserved_pages_pfn cn" "?a = base + PAGE_SIZE * ?pfn"
    using lin by (simp_all add: linear_map_def)
  show ?thesis
  proof (cases "?o = 0")
    case True
    then have "map_tail w cn ?pfn ?a ?n st1 = Some st'" using run st1 by (simp add: map_segment_def Let_def)
    from map_tail_inv [OF this inv1 base(1,2)] segment_ok_addr [OF ok] True
    show ?thesis by simp
  next
    case False
    let ?k = "min (PAGE_SIZE - ?o) ?n"
    have sub: "usub64 PAGE_SIZE ?o = PAGE_SIZE - ?o"
      using ok by (intro usub64_exact) (auto simp: segment_ok_def PAGE_SIZE_def)
    then obtain st2 where st2: "map_reserved w cn ?a ?o ?k st1 = Some st2"
      and rest: "(if ?k \<noteq> PAGE_SIZE - ?o then Some (st2\<lparr>ms_segment_end_aligned := False\<rparr>)
        else map_tail w cn (?pfn + 1) (?a + PAGE_SIZE) (?n - ?k) st2) = Some st'"
      using run st1 False by (auto simp: map_segment_def Option.bind_eq_Some_conv Let_def)
    have "?o + ?k \<le> PAGE_SIZE" using ok by (auto simp: segment_ok_def)
    from map_reserved_inv [OF inv1 st2 base(1) this] segment_ok_addr [OF ok]
    have inv2: "map_inv base cn vm w m0 (cells @ run_cells (?x + ?o) (?a + ?o) ?k) st2" by simp
    have st2s: "ms_list_entry_index st2 = ms_list_entry_index st1" "ms_mapping_list st2 = ms_mapping_list st1"
      "ms_user_page_num st2 = ms_user_page_num st1 + 1"
      using st2 by (auto simp: map_reserved_def Option.bind_eq_Some_conv Let_def split: if_splits)
    show ?thesis
    proof (cases "?k = PAGE_SIZE - ?o")
      case False
      then have "?k = ?n" by linarith
      moreover have "st' = st2\<lparr>ms_segment_end_aligned := False\<rparr>" using rest unfolding if_P [OF False] by simp
      ultimately show ?thesis using inv2 st2s by simp
    next
      case True
      have o: "?o < PAGE_SIZE" using ok by (simp add: segment_ok_def)
      have n: "?n = ?k + (?n - ?k)" by simp
      have "?a + PAGE_SIZE = base + PAGE_SIZE * (?pfn + 1)" using base(2) by simp
      moreover have "\<forall>j < ?n - ?k. ?a + PAGE_SIZE + j \<notin> reserved_area cn"
        using segment_ok_addr [OF ok, of "?k + j" for j] True o by (simp add: add.assoc less_diff_conv add.commute)
      moreover have "map_tail w cn (?pfn + 1) (?a + PAGE_SIZE) (?n - ?k) st2 = Some st'" using rest True by simp
      ultimately have "map_inv base cn vm w m0 ((cells @ run_cells (?x + ?o) (?a + ?o) ?k) @
          run_cells (PAGE_SIZE * ms_user_page_num st2) (?a + PAGE_SIZE) (?n - ?k)) st' \<and>
          (ms_segment_end_aligned st' \<longrightarrow> PAGE_SIZE * ms_user_page_num st' = PAGE_SIZE * ms_user_page_num st2 + (?n - ?k)) \<and>
          ms_list_entry_index st' = ms_list_entry_index st2 \<and> ms_mapping_list st' = ms_mapping_list st2"
        using map_tail_inv [OF _ inv2 base(1)] by blast
      moreover have "run_cells (?x + ?o) (?a + ?o) ?n = run_cells (?x + ?o) (?a + ?o) ?k @
          run_cells (PAGE_SIZE * ms_user_page_num st2) (?a + PAGE_SIZE) (?n - ?k)"
        using n True o run_cells_add [of "?x + ?o" "?a + ?o" ?k "?n - ?k"] by (simp add: st2s distrib_left add.commute)
      ultimately show ?thesis using True o by (auto simp: st2s distrib_left)
    qed
  qed
qed

lemma map_segment_inv:
  assumes run: "map_segment api w cn v st = Some st'" and inv: "map_inv base cn vm w m0 cells st" "list_inv vm cells st"
    and lin: "linear_map base api cn" and ok: "segment_ok api cn v"
  defines "new \<equiv> run_cells (PAGE_SIZE * ms_user_page_num st + bv_offset v) (page_address api (bv_page v) + bv_offset v) (bv_len v)"
  shows "map_inv base cn vm w m0 (cells @ new) st'" "list_inv vm (cells @ new) st'"
    "ms_list_entry_index st' = (if ms_segment_end_aligned st \<and> bv_offset v = 0 then ms_list_entry_index st else ms_list_entry_index st + 1)"
    "ms_mapping_list st' 0 = (if ms_list_entry_index st = 0 then ms_user_addr st + bv_offset v else ms_mapping_list st 0)"
proof -
  let ?a = "page_address api (bv_page v)" and ?n = "bv_len v" and ?o = "bv_offset v"
  let ?x = "PAGE_SIZE * ms_user_page_num st"
  have addr: "ms_user_addr st = vm + ?x" using inv by (simp add: map_inv_def)
  obtain st1 where st1: "map_list_entry v st = Some st1" using run by (auto simp: map_segment_def Option.bind_eq_Some_conv Let_def)
  have "?o < PAGE_SIZE" using ok by (simp add: segment_ok_def)
  note entry = map_list_entry_ranges [OF st1 inv(2) addr this, of "?a + ?o"]
  then have st1_eq: "st1 = st\<lparr>ms_mapping_list := ms_mapping_list st1, ms_list_entry_index := ms_list_entry_index st1\<rparr>"
    by blast
  have inv1: "map_inv base cn vm w m0 cells st1" "ms_user_page_num st1 = ms_user_page_num st"
    using inv(1) by (subst st1_eq; simp)+
  have st': "map_inv base cn vm w m0 (cells @ new) st'"
      "ms_segment_end_aligned st' \<longrightarrow> PAGE_SIZE * ms_user_page_num st' = ?x + ?o + ?n"
      "ms_list_entry_index st' = ms_list_entry_index st1" "ms_mapping_list st' = ms_mapping_list st1"
    using map_segment_pages [OF run st1 inv1(1) lin ok] unfolding new_def inv1(2) by blast+
  have "ms_user_addr st' = vm + PAGE_SIZE * ms_user_page_num st'" using st'(1) by (simp add: map_inv_def)
  then show "map_inv base cn vm w m0 (cells @ new) st'" "list_inv vm (cells @ new) st'"
    using st' entry addr by (auto simp: list_inv_def new_def)
  have "ms_segment_end_aligned st \<Longrightarrow> 0 < ms_list_entry_index st" using inv(2) by (simp add: list_inv_def)
  then show "ms_list_entry_index st' = (if ms_segment_end_aligned st \<and> ?o = 0 then ms_list_entry_index st else ms_list_entry_index st + 1)"
    "ms_mapping_list st' 0 = (if ms_list_entry_index st = 0 then ms_user_addr st + ?o else ms_mapping_list st 0)"
    using st1 by (auto simp: st'(3,4) map_list_entry_def list_store_Some Option.bind_eq_Some_conv split: if_splits)
qed

lemma map_segments_inv:
  assumes "map_segments api w cn segs st = Some st'" "map_inv base cn vm w m0 cells st" "list_inv vm cells st"
    and "linear_map base api cn" "\<forall>v \<in> set segs. segment_ok api cn v"
  shows "\<exists>cells'. map snd cells' = concat (map (bvec_addrs api) segs) \<and>
    map_inv base cn vm w m0 (cells @ cells') st' \<and> list_inv vm (cells @ cells') st'"
  using assms
proof (induction segs arbitrary: st cells)
  case Nil
  then show ?case by (intro exI [of _ "[]"]) auto
next
  case (Cons v segs)
  then obtain st1 where st1: "map_segment api w cn v st = Some st1" "map_segments api w cn segs st1 = Some st'"
    by (auto split: option.splits)
  define c1 where "c1 = run_cells (PAGE_SIZE * ms_user_page_num st + bv_offset v) (page_address api (bv_page v) + bv_offset v) (bv_len v)"
  have c1: "map snd c1 = bvec_addrs api v" "map_inv base cn vm w m0 (cells @ c1) st1" "list_inv vm (cells @ c1) st1"
    unfolding c1_def using map_segment_inv(1,2) [OF st1(1)] Cons.prems by (simp_all add: bvec_addrs_def)
  from Cons.IH [OF st1(2) c1(2,3)] Cons.prems obtain c2 where
    "map snd c2 = concat (map (bvec_addrs api) segs)" "map_inv base cn vm w m0 ((cells @ c1) @ c2) st'"
    "list_inv vm ((cells @ c1) @ c2) st'" by auto
  then show ?case using c1(1) by (intro exI [of _ "c1 @ c2"]) auto
qed

section \<open>Which page-table entries change\<close>

definition ptes_step :: "map_state \<Rightarrow> map_state \<Rightarrow> bool" where
  "ptes_step st st' \<longleftrightarrow> ms_user_page_num st \<le> ms_user_page_num st' \<and>
     (ms_user_page_num st \<le> BIUS_PTES_PER_COMMAND \<longrightarrow> ms_user_page_num st' \<le> BIUS_PTES_PER_COMMAND) \<and>
     ms_user_addr st' + PAGE_SIZE * ms_user_page_num st = ms_user_addr st + PAGE_SIZE * ms_user_page_num st' \<and>
     dom (ms_ptes st') = dom (ms_ptes st) \<and>
     (\<forall>i. i < ms_user_page_num st \<or> ms_user_page_num st' \<le> i \<longrightarrow> ms_ptes st' i = ms_ptes st i)"

lemma ptes_step_refl [simp]: "ptes_step st st"
  by (simp add: ptes_step_def)

lemma ptes_step_trans [trans]: "ptes_step st st1 \<Longrightarrow> ptes_step st1 st2 \<Longrightarrow> ptes_step st st2"
  unfolding ptes_step_def by (auto dest: le_trans)

lemma ptes_step_fields [simp]:
  "ptes_step st (st1\<lparr>ms_segment_end_aligned := b\<rparr>) = ptes_step st st1"
  "ptes_step st (st1\<lparr>ms_mapping_list := l\<rparr>) = ptes_step st st1"
  "ptes_step st (st1\<lparr>ms_list_entry_index := i\<rparr>) = ptes_step st st1"
  by (simp_all add: ptes_step_def)

lemma map_reserved_ptes: "map_reserved w cn da off n st = Some st' \<Longrightarrow> ptes_step st st'"
  by (auto simp: map_reserved_def set_pte_Some Option.bind_eq_Some_conv Let_def ptes_step_def distrib_left split: if_splits)

lemma map_full_pages_ptes: "map_full_pages pfn da n st = Some (da', n', st') \<Longrightarrow> ptes_step st st'"
proof (induction pfn da n st rule: map_full_pages.induct)
  case (1 pfn da n st)
  show ?case
  proof (cases "PAGE_SIZE \<le> n")
    case True
    then obtain ptes where ptes: "set_pte (ms_ptes st) (ms_user_page_num st) pfn = Some ptes"
      using "1.prems" by (auto simp: map_full_pages.simps [of pfn] split: option.splits)
    then have "ptes_step st (st\<lparr>ms_ptes := ptes, ms_user_addr := ms_user_addr st + PAGE_SIZE,
        ms_user_page_num := ms_user_page_num st + 1\<rparr>)"
      by (auto simp: ptes_step_def set_pte_Some distrib_left)
    also have "ptes_step \<dots> st'"
      using "1.IH" [OF True ptes] "1.prems" True ptes by (simp add: map_full_pages.simps [of pfn])
    finally show ?thesis .
  qed (use "1.prems" in \<open>simp add: map_full_pages.simps [of pfn]\<close>)
qed

lemma map_tail_ptes: "map_tail w cn pfn da n st = Some st' \<Longrightarrow> ptes_step st st'"
  by (auto simp: map_tail_def Option.bind_eq_Some_conv split: if_splits
      dest!: map_full_pages_ptes map_reserved_ptes intro: ptes_step_trans)

lemma map_list_entry_ptes: "map_list_entry v st = Some st' \<Longrightarrow> ptes_step st st'"
  by (auto simp: map_list_entry_def Option.bind_eq_Some_conv split: if_splits)

lemma map_segment_ptes: "map_segment api w cn v st = Some st' \<Longrightarrow> ptes_step st st'"
  by (auto simp: map_segment_def Option.bind_eq_Some_conv Let_def split: if_splits
      dest!: map_list_entry_ptes map_reserved_ptes map_tail_ptes intro: ptes_step_trans)

lemma map_segments_ptes: "map_segments api w cn segs st = Some st' \<Longrightarrow> ptes_step st st'"
  by (induction segs arbitrary: st) (auto split: option.splits dest!: map_segment_ptes intro: ptes_step_trans)

text \<open>Every segment has a list entry.\<close>

lemma map_reserved_index: "map_reserved w cn da off n st = Some st' \<Longrightarrow> ms_list_entry_index st' = ms_list_entry_index st"
  by (auto simp: map_reserved_def Option.bind_eq_Some_conv Let_def split: if_splits)

lemma map_full_pages_index: "map_full_pages pfn da n st = Some (da', n', st') \<Longrightarrow> ms_list_entry_index st' = ms_list_entry_index st"
proof (induction pfn da n st rule: map_full_pages.induct)
  case (1 pfn da n st)
  then show ?case by (auto simp: map_full_pages.simps [of pfn] split: if_splits option.splits)
qed

lemma map_tail_index: "map_tail w cn pfn da n st = Some st' \<Longrightarrow> ms_list_entry_index st' = ms_list_entry_index st"
  by (auto simp: map_tail_def Option.bind_eq_Some_conv split: if_splits dest!: map_full_pages_index map_reserved_index)

lemma map_segment_index: "map_segment api w cn v st = Some st' \<Longrightarrow> 0 < ms_list_entry_index st'"
  by (auto simp: map_segment_def map_list_entry_def Option.bind_eq_Some_conv Let_def split: if_splits
      dest!: map_tail_index map_reserved_index)

lemma map_segments_index: "map_segments api w cn segs st = Some st' \<Longrightarrow> segs \<noteq> [] \<Longrightarrow> 0 < ms_list_entry_index st'"
proof (induction segs arbitrary: st)
  case (Cons v segs)
  then show ?case by (cases "segs = []") (auto split: option.splits dest: map_segment_index)
qed simp

lemma unmap_loop_run:
  assumes "i + n \<le> BIUS_PTES_PER_COMMAND" "\<forall>j. i \<le> j \<and> j < i + n \<longrightarrow> ptes j \<noteq> None"
  shows "unmap_loop z i n ptes = Some (\<lambda>j. if i \<le> j \<and> j < i + n then Some z else ptes j)"
  using assms
proof (induction n arbitrary: i ptes)
  case (Suc n)
  have "set_pte ptes i z = Some (ptes(i \<mapsto> z))" using Suc.prems by (simp add: set_pte_Some)
  moreover have "unmap_loop z (Suc i) n (ptes(i \<mapsto> z)) =
      Some (\<lambda>j. if Suc i \<le> j \<and> j < Suc i + n then Some z else (ptes(i \<mapsto> z)) j)"
    using Suc.prems by (intro Suc.IH) auto
  ultimately show ?case by (auto simp: fun_eq_iff)
qed (auto simp: fun_eq_iff)

section \<open>When mapping cannot fail\<close>

text \<open>
  The block layer hands out the segments of a request page by page. With at most 256 of them, the reserved
  pages, the list and the page-table entries are enough.
\<close>

definition map_room :: "nat \<Rightarrow> map_state \<Rightarrow> bool" where
  "map_room k st \<longleftrightarrow> ms_next_reserved st \<le> 2 + k \<and> ms_user_page_num st \<le> k \<and> ms_list_entry_index st \<le> k \<and>
     (ms_segment_end_aligned st \<longrightarrow> 0 < ms_list_entry_index st) \<and> (\<forall>i < BIUS_PTES_PER_COMMAND. ms_ptes st i \<noteq> None)"

lemma map_reserved_total:
  assumes "ms_next_reserved st < BIUS_NUM_RESERVED_PAGES" "ms_user_page_num st < BIUS_PTES_PER_COMMAND"
    "\<forall>i < BIUS_PTES_PER_COMMAND. ms_ptes st i \<noteq> None"
  shows "\<exists>st'. map_reserved w cn da off n st = Some st' \<and> ms_next_reserved st' = ms_next_reserved st + 1 \<and>
    ms_user_page_num st' = ms_user_page_num st + 1 \<and> ms_list_entry_index st' = ms_list_entry_index st \<and>
    (\<forall>i < BIUS_PTES_PER_COMMAND. ms_ptes st' i \<noteq> None)"
  using assms by (simp add: map_reserved_def set_pte_def Let_def)

lemma map_room_bounds:
  assumes "map_room k st" "k < BIUS_MAX_SEGMENTS"
  shows "ms_next_reserved st < BIUS_NUM_RESERVED_PAGES" "ms_user_page_num st < BIUS_PTES_PER_COMMAND"
    "ms_list_entry_index st * 2 + 1 < MAPPING_LIST_WORDS"
  using assms by (simp_all add: map_room_def bius_const)

lemma map_list_entry_total:
  assumes "map_room k st" "k < BIUS_MAX_SEGMENTS"
  shows "\<exists>l i. map_list_entry v st = Some (st\<lparr>ms_mapping_list := l, ms_list_entry_index := i\<rparr>) \<and> 0 < i \<and> i \<le> ms_list_entry_index st + 1"
proof -
  note i = map_room_bounds(3) [OF assms]
  show ?thesis
  proof (cases "\<not> ms_segment_end_aligned st \<or> bv_offset v \<noteq> 0")
    case True
    let ?l = "(ms_mapping_list st)(ms_list_entry_index st * 2 := ms_user_addr st + bv_offset v,
      ms_list_entry_index st * 2 + 1 := bv_len v)"
    have "map_list_entry v st = Some (st\<lparr>ms_mapping_list := ?l, ms_list_entry_index := ms_list_entry_index st + 1\<rparr>)"
      using True i by (simp add: map_list_entry_def list_store_def)
    then show ?thesis by auto
  next
    case False
    let ?l = "(ms_mapping_list st)(2 * ms_list_entry_index st - 1 := ms_mapping_list st (2 * ms_list_entry_index st - 1) + bv_len v)"
    have entry: "map_list_entry v st = Some (st\<lparr>ms_mapping_list := ?l, ms_list_entry_index := ms_list_entry_index st\<rparr>)"
      using False i assms(1) by (simp add: map_list_entry_def list_store_def map_room_def mult.commute)
    show ?thesis by (intro exI conjI, rule entry) (use False assms(1) in \<open>simp_all add: map_room_def\<close>)
  qed
qed

lemma map_tail_total:
  assumes room: "ms_next_reserved st \<le> 2 + k" "ms_user_page_num st \<le> k" "ms_list_entry_index st \<le> Suc k"
      "0 < ms_list_entry_index st" "\<forall>i < BIUS_PTES_PER_COMMAND. ms_ptes st i \<noteq> None"
    and k: "k < BIUS_MAX_SEGMENTS" and n: "n \<le> PAGE_SIZE"
  shows "\<exists>st'. map_tail w cn pfn da n st = Some st' \<and> map_room (Suc k) st'"
proof -
  have u: "ms_user_page_num st < BIUS_PTES_PER_COMMAND" "ms_next_reserved st < BIUS_NUM_RESERVED_PAGES"
    using room k by (simp_all add: bius_const)
  consider "n = PAGE_SIZE" | "0 < n" "n < PAGE_SIZE" | "n = 0" using n by linarith
  then show ?thesis
  proof cases
    case 1
    then show ?thesis
      using room u by (simp add: map_tail_def map_full_pages.simps [of pfn] map_full_pages.simps [of "Suc pfn"]
          set_pte_def map_room_def)
  next
    case 2
    from map_reserved_total [OF u(2,1) room(5), of w cn da 0 n] show ?thesis
      using 2 room by (auto simp: map_tail_def map_full_pages.simps [of pfn] map_room_def)
  next
    case 3
    then show ?thesis using room by (auto simp: map_tail_def map_full_pages.simps [of pfn] map_room_def)
  qed
qed

lemma map_segment_total:
  assumes room: "map_room k st" "k < BIUS_MAX_SEGMENTS" and v: "bv_offset v + bv_len v \<le> PAGE_SIZE"
  shows "\<exists>st'. map_segment api w cn v st = Some st' \<and> map_room (Suc k) st'"
proof -
  obtain l i where st1: "map_list_entry v st = Some (st\<lparr>ms_mapping_list := l, ms_list_entry_index := i\<rparr>)"
    and i: "0 < i" "i \<le> ms_list_entry_index st + 1"
    using map_list_entry_total [OF room] by blast
  let ?st1 = "st\<lparr>ms_mapping_list := l, ms_list_entry_index := i\<rparr>"
  have room1: "ms_next_reserved ?st1 \<le> 2 + k" "ms_user_page_num ?st1 \<le> k" "ms_list_entry_index ?st1 \<le> Suc k"
    "0 < ms_list_entry_index ?st1" "\<forall>i < BIUS_PTES_PER_COMMAND. ms_ptes ?st1 i \<noteq> None"
    using room(1) i by (auto simp: map_room_def)
  show ?thesis
  proof (cases "bv_offset v = 0")
    case True
    then show ?thesis
      using map_tail_total [OF room1 room(2)] v st1 by (simp add: map_segment_def Let_def)
  next
    case False
    have sub: "usub64 PAGE_SIZE (bv_offset v) = PAGE_SIZE - bv_offset v"
      using v by (intro usub64_exact) (auto simp: PAGE_SIZE_def)
    have n: "min (PAGE_SIZE - bv_offset v) (bv_len v) = bv_len v" using v by simp
    from map_reserved_total [of ?st1] map_room_bounds [OF room] room1(5)
    obtain st2 where st2: "map_reserved w cn (page_address api (bv_page v)) (bv_offset v) (bv_len v) ?st1 = Some st2"
      "ms_next_reserved st2 = ms_next_reserved st + 1" "ms_user_page_num st2 = ms_user_page_num st + 1"
      "ms_list_entry_index st2 = i" "\<forall>i < BIUS_PTES_PER_COMMAND. ms_ptes st2 i \<noteq> None"
      by fastforce
    have "map_tail w cn pfn da 0 st2 = Some (st2\<lparr>ms_segment_end_aligned := True\<rparr>)" for pfn da
      by (simp add: map_tail_def map_full_pages.simps [of pfn])
    then show ?thesis
      using st1 st2 room1 False i by (auto simp: map_segment_def Let_def sub n map_room_def)
  qed
qed

lemma map_segments_total:
  assumes "map_room k st" "k + length segs \<le> BIUS_MAX_SEGMENTS" "\<forall>v \<in> set segs. bv_offset v + bv_len v \<le> PAGE_SIZE"
  shows "\<exists>st'. map_segments api w cn segs st = Some st' \<and> map_room (k + length segs) st'"
  using assms
proof (induction segs arbitrary: k st)
  case (Cons v segs)
  then obtain st1 where "map_segment api w cn v st = Some st1" "map_room (Suc k) st1"
    using map_segment_total [of k st v api w cn] by auto
  then show ?case using Cons.IH [of "Suc k" st1] Cons.prems by simp
qed simp

end
