(* ===== verification/Bius_Mapping_Read.thy ===== *)
theory Bius_Mapping_Read
  imports Bius_Mapping
begin

text \<open>
  Copying a read request's data back from the reserved pages (\<open>bius_copy_in_misaligned_pages\<close>) when the
  process sees the request as one range: which of its pages are reserved pages, and what the copy does
  to every byte.
\<close>

section \<open>The pages of one range\<close>

text \<open>
  \<open>start\<close> is the offset of the range in the mapped area and \<open>n\<close> its length. A first page that is not used
  from its beginning and a last page that is not used to its end are behind reserved pages, the others
  are shown themselves.
\<close>

definition front_page :: "nat \<Rightarrow> nat \<Rightarrow> bool" where
  "front_page start x \<longleftrightarrow> start \<noteq> 0 \<and> x < PAGE_SIZE"

definition tail_page :: "nat \<Rightarrow> nat \<Rightarrow> nat \<Rightarrow> bool" where
  "tail_page start n x \<longleftrightarrow> (start + n) mod PAGE_SIZE \<noteq> 0 \<and> x div PAGE_SIZE = (start + n) div PAGE_SIZE"

definition tail_reserve :: "nat \<Rightarrow> nat" where
  "tail_reserve start = (if start = 0 then 2 else 3)"

definition range_cell :: "nat \<Rightarrow> nat \<Rightarrow> nat \<Rightarrow> nat \<Rightarrow> (nat \<Rightarrow> nat option) \<Rightarrow> (nat \<Rightarrow> nat) \<Rightarrow> nat \<times> nat \<Rightarrow> bool" where
  "range_cell base res start n ptes rl = (\<lambda>(x, a).
     if front_page start x then shown base ptes x = res + PAGE_SIZE * 2 + x \<and> a = rl 2 + x
     else if tail_page start n x then
       shown base ptes x = res + PAGE_SIZE * tail_reserve start + x mod PAGE_SIZE \<and> a = rl (tail_reserve start) + x mod PAGE_SIZE
     else shown base ptes x = a)"

text \<open>What the loop over single pages does to the mapping as long as there is one list entry.\<close>

lemma map_segment_page:
  assumes run: "map_segment api w cn v st = Some st'" and v: "bv_offset v + bv_len v \<le> PAGE_SIZE" "0 < bv_len v"
  shows "ms_user_page_num st' = ms_user_page_num st + 1 \<and>
    (if bv_len v = PAGE_SIZE then
       ms_ptes st' = (ms_ptes st)(ms_user_page_num st \<mapsto> page_to_pfn api (bv_page v)) \<and>
       ms_next_reserved st' = ms_next_reserved st \<and> ms_reserve_list st' = ms_reserve_list st \<and> ms_segment_end_aligned st'
     else
       ms_ptes st' = (ms_ptes st)(ms_user_page_num st \<mapsto> cn_reserved_pages_pfn cn + ms_next_reserved st) \<and>
       ms_next_reserved st' = ms_next_reserved st + 1 \<and>
       ms_reserve_list st' = (ms_reserve_list st)(ms_next_reserved st := page_address api (bv_page v)) \<and>
       (ms_segment_end_aligned st' \<longleftrightarrow> bv_offset v + bv_len v = PAGE_SIZE))"
proof -
  obtain st1 where st1: "map_list_entry v st = Some st1" using run by (auto simp: map_segment_def Option.bind_eq_Some_conv Let_def)
  then have l: "ms_user_page_num st1 = ms_user_page_num st" "ms_ptes st1 = ms_ptes st"
    "ms_next_reserved st1 = ms_next_reserved st" "ms_reserve_list st1 = ms_reserve_list st"
    by (auto simp: map_list_entry_def Option.bind_eq_Some_conv split: if_splits)
  have sub: "usub64 PAGE_SIZE (bv_offset v) = PAGE_SIZE - bv_offset v"
    using v by (intro usub64_exact) (auto simp: PAGE_SIZE_def)
  have n: "min (PAGE_SIZE - bv_offset v) (bv_len v) = bv_len v" using v by simp
  consider "bv_offset v \<noteq> 0" | "bv_offset v = 0" "bv_len v = PAGE_SIZE" | "bv_offset v = 0" "bv_len v < PAGE_SIZE"
    using v by linarith
  then show ?thesis
  proof cases
    case 1
    have "map_tail w cn pfn da 0 st2 = Some (st2\<lparr>ms_segment_end_aligned := True\<rparr>)" for pfn da st2
      by (simp add: map_tail_def map_full_pages.simps [of pfn])
    then show ?thesis
      using run st1 1 l v by (auto simp: map_segment_def map_reserved_def set_pte_Some Option.bind_eq_Some_conv Let_def sub n split: if_splits)
  next
    case 2
    then show ?thesis
      using run st1 l
      by (auto simp: map_segment_def map_tail_def map_full_pages.simps [of "page_to_pfn api (bv_page v)"]
          map_full_pages.simps [of "Suc (page_to_pfn api (bv_page v))"] set_pte_Some split: option.splits)
  next
    case 3
    then show ?thesis
      using run st1 l v
      by (auto simp: map_segment_def map_tail_def map_full_pages.simps [of "page_to_pfn api (bv_page v)"]
          map_reserved_def set_pte_Some Option.bind_eq_Some_conv Let_def split: if_splits)
  qed
qed

definition range_inv :: "nat \<Rightarrow> bius_connection \<Rightarrow> nat \<Rightarrow> (nat \<times> nat) list \<Rightarrow> map_state \<Rightarrow> bool" where
  "range_inv base cn vm cells st \<longleftrightarrow>
     (ms_list_entry_index st = 0 \<longrightarrow> cells = [] \<and> ms_next_reserved st = 2 \<and> ms_user_page_num st = 0) \<and>
     (ms_list_entry_index st = 1 \<longrightarrow>
       (\<forall>c \<in> set cells. range_cell base (cn_reserved_pages cn) (ms_mapping_list st 0 - vm) (length cells)
          (ms_ptes st) (ms_reserve_list st) c) \<and>
       (ms_segment_end_aligned st \<longrightarrow>
          ms_mapping_list st 0 - vm + length cells = PAGE_SIZE * ms_user_page_num st \<and>
          ms_next_reserved st = tail_reserve (ms_mapping_list st 0 - vm)))"

lemma range_cells:
  assumes "list_inv vm cells st" "ms_list_entry_index st = 1"
  shows "map fst cells = [ms_mapping_list st 0 - vm ..< ms_mapping_list st 0 - vm + length cells]"
proof -
  let ?l = "ms_mapping_list st"
  have r: "map (\<lambda>c. vm + fst c) cells = [?l 0 ..< ?l 0 + ?l 1]" and vm: "vm \<le> ?l 0"
    using assms by (auto simp: list_inv_def list_ranges_def)
  have n: "?l 1 = length cells" using arg_cong [OF r, of length] by (simp del: One_nat_def)
  have "map fst cells = map (\<lambda>x. x - vm) (map (\<lambda>c. vm + fst c) cells)" by simp
  also have "\<dots> = [?l 0 - vm ..< ?l 0 - vm + length cells]"
    unfolding r using vm n by (intro nth_equalityI) auto
  finally show ?thesis .
qed

lemma segment_shown:
  assumes run: "map_segment api w cn v st = Some st'" and v: "bv_offset v + bv_len v \<le> PAGE_SIZE" "0 < bv_len v"
    and lin: "linear_map base api cn" and k: "k < PAGE_SIZE"
  shows "shown base (ms_ptes st') (PAGE_SIZE * ms_user_page_num st + k) =
    (if bv_len v = PAGE_SIZE then page_address api (bv_page v) + k
     else cn_reserved_pages cn + PAGE_SIZE * ms_next_reserved st + k)"
  using map_segment_page [OF run v] page_of_offset [OF k, of "ms_user_page_num st"] lin
  by (auto simp: shown_def linear_map_def distrib_left)

lemma new_cellE:
  assumes "c \<in> set (run_cells x a n)"
  obtains k where "k < n" "c = (x + k, a + k)"
  using assms by (auto simp: run_cells_def)

lemma range_inv_first:
  assumes run: "map_segment api w cn v st = Some st'" and v: "bv_offset v + bv_len v \<le> PAGE_SIZE" "0 < bv_len v"
    and inv: "map_inv base cn vm w m0 cells st" "list_inv vm cells st" "range_inv base cn vm cells st"
    and lin: "linear_map base api cn" and ok: "segment_ok api cn v"
    and entry: "ms_list_entry_index st = 0"
  defines "new \<equiv> run_cells (PAGE_SIZE * ms_user_page_num st + bv_offset v) (page_address api (bv_page v) + bv_offset v) (bv_len v)"
  shows "range_inv base cn vm (cells @ new) st'"
proof -
  let ?u = "ms_user_page_num st" and ?o = "bv_offset v" and ?n = "bv_len v" and ?a = "page_address api (bv_page v)"
  note seg = map_segment_inv [OF run inv(1,2) lin ok, folded new_def]
  note page = map_segment_page [OF run v]
  note shown_new = segment_shown [OF run v lin]
  have len: "length new = ?n" by (simp add: new_def run_cells_def)
  have addr: "ms_user_addr st = vm + PAGE_SIZE * ?u" using inv(1) by (simp add: map_inv_def)
  have st: "cells = []" "ms_next_reserved st = 2" "?u = 0" "\<not> ms_segment_end_aligned st"
    using inv(2,3) entry by (auto simp: range_inv_def list_inv_def)
  have "range_cell base (cn_reserved_pages cn) ?o ?n (ms_ptes st') (ms_reserve_list st') c" if c: "c \<in> set new" for c
  proof -
    obtain k where k: "k < ?n" "c = (?o + k, ?a + ?o + k)" using c st(3) unfolding new_def by (elim new_cellE) simp
    consider "?n = PAGE_SIZE" "?o = 0" | "?o \<noteq> 0" "?n \<noteq> PAGE_SIZE" | "?o = 0" "?n < PAGE_SIZE" using v by linarith
    then show ?thesis
      using v shown_new [of "?o + k"] page st k
      by cases (simp_all add: range_cell_def front_page_def tail_page_def tail_reserve_def)
  qed
  then show ?thesis
    using st seg(3,4) entry page v by (cases "?n = PAGE_SIZE") (auto simp: range_inv_def addr len tail_reserve_def)
qed

lemma range_inv_next:
  assumes run: "map_segment api w cn v st = Some st'" and v: "bv_offset v + bv_len v \<le> PAGE_SIZE" "0 < bv_len v"
    and inv: "map_inv base cn vm w m0 cells st" "list_inv vm cells st" "range_inv base cn vm cells st"
    and lin: "linear_map base api cn" and ok: "segment_ok api cn v"
    and entry: "ms_list_entry_index st = 1" "ms_segment_end_aligned st" "bv_offset v = 0"
  defines "new \<equiv> run_cells (PAGE_SIZE * ms_user_page_num st + bv_offset v) (page_address api (bv_page v) + bv_offset v) (bv_len v)"
  shows "range_inv base cn vm (cells @ new) st'"
proof -
  let ?u = "ms_user_page_num st" and ?o = "bv_offset v" and ?n = "bv_len v" and ?a = "page_address api (bv_page v)"
  note seg = map_segment_inv [OF run inv(1,2) lin ok, folded new_def]
  note page = map_segment_page [OF run v]
  note shown_new = segment_shown [OF run v lin]
  have len: "length new = ?n" by (simp add: new_def run_cells_def)
  let ?s = "ms_mapping_list st 0 - vm" and ?N = "length cells"
  have st: "?s + ?N = PAGE_SIZE * ?u" "ms_next_reserved st = tail_reserve ?s"
    "\<forall>c \<in> set cells. range_cell base (cn_reserved_pages cn) ?s ?N (ms_ptes st) (ms_reserve_list st) c"
    using inv(3) entry by (auto simp: range_inv_def)
  have old: "range_cell base (cn_reserved_pages cn) ?s (?N + ?n) (ms_ptes st') (ms_reserve_list st') c" if c: "c \<in> set cells" for c
  proof -
    obtain x a where xa: "c = (x, a)" by (cases c)
    have "x < PAGE_SIZE * ?u" using range_cells [OF inv(2)] entry c st(1) by (metis atLeastLessThan_iff fst_conv image_eqI list.set_map set_upt xa)
    then have x: "x div PAGE_SIZE < ?u" by (simp add: less_mult_imp_div_less mult.commute)
    then have "shown base (ms_ptes st') x = shown base (ms_ptes st) x" using page by (cases "?n = PAGE_SIZE") (auto simp: shown_def)
    moreover have "\<not> tail_page ?s (?N + ?n) x" "\<not> tail_page ?s ?N x"
      using x st(1) v by (auto simp: tail_page_def add.assoc [symmetric] entry le_eq_less_or_eq)
    moreover have "?s \<noteq> 0 \<Longrightarrow> ms_reserve_list st' 2 = ms_reserve_list st 2"
      using page st(2) by (auto simp: tail_reserve_def split: if_splits)
    ultimately show ?thesis using st(3) c by (auto simp: range_cell_def xa front_page_def)
  qed
  have fresh: "range_cell base (cn_reserved_pages cn) ?s (?N + ?n) (ms_ptes st') (ms_reserve_list st') c" if c: "c \<in> set new" for c
  proof -
    obtain k where k: "k < ?n" "c = (PAGE_SIZE * ?u + k, ?a + k)" using c entry unfolding new_def by (elim new_cellE) simp
    then have kp: "k < PAGE_SIZE" using v by simp
    have "\<not> front_page ?s (PAGE_SIZE * ?u + k)" using st(1) by (cases ?u) (auto simp: front_page_def)
    moreover have "tail_page ?s (?N + ?n) (PAGE_SIZE * ?u + k) \<longleftrightarrow> ?n < PAGE_SIZE"
      using st(1) kp v entry by (cases "?n = PAGE_SIZE") (auto simp: tail_page_def add.assoc [symmetric])
    ultimately show ?thesis
      using k shown_new [OF kp] page st(2) v kp by (auto simp: range_cell_def le_eq_less_or_eq)
  qed
  show ?thesis
    using old fresh seg(3,4) entry page st(1,2) v
    by (cases "?n = PAGE_SIZE") (auto simp: range_inv_def len add.assoc [symmetric])
qed

lemma range_inv_segment:
  assumes run: "map_segment api w cn v st = Some st'" and v: "bv_offset v + bv_len v \<le> PAGE_SIZE" "0 < bv_len v"
    and inv: "map_inv base cn vm w m0 cells st" "list_inv vm cells st" "range_inv base cn vm cells st"
    and lin: "linear_map base api cn" and ok: "segment_ok api cn v"
  defines "new \<equiv> run_cells (PAGE_SIZE * ms_user_page_num st + bv_offset v) (page_address api (bv_page v) + bv_offset v) (bv_len v)"
  shows "range_inv base cn vm (cells @ new) st'"
proof -
  consider "ms_list_entry_index st = 0" | "ms_list_entry_index st = 1" "ms_segment_end_aligned st" "bv_offset v = 0"
    | "ms_list_entry_index st' \<notin> {0, 1}"
    using map_segment_inv(3) [OF run inv(1,2) lin ok] by (cases "ms_list_entry_index st = 0") (auto split: if_splits)
  then show ?thesis
  proof cases
    case 1
    from range_inv_first [OF run v inv lin ok this] show ?thesis by (simp add: new_def)
  next
    case 2
    from range_inv_next [OF run v inv lin ok this] show ?thesis by (simp add: new_def)
  qed (simp add: range_inv_def)
qed

lemma map_segments_range:
  assumes "map_segments api w cn segs st = Some st'" "map_inv base cn vm w m0 cells st" "list_inv vm cells st"
      "range_inv base cn vm cells st"
    and "linear_map base api cn" "\<forall>v \<in> set segs. segment_ok api cn v \<and> bv_offset v + bv_len v \<le> PAGE_SIZE \<and> 0 < bv_len v"
  shows "\<exists>cells'. map snd cells' = concat (map (bvec_addrs api) segs) \<and> map_inv base cn vm w m0 (cells @ cells') st' \<and>
    list_inv vm (cells @ cells') st' \<and> range_inv base cn vm (cells @ cells') st'"
  using assms
proof (induction segs arbitrary: st cells)
  case Nil
  then show ?case by (intro exI [of _ "[]"]) auto
next
  case (Cons v segs)
  then obtain st1 where st1: "map_segment api w cn v st = Some st1" "map_segments api w cn segs st1 = Some st'"
    by (auto split: option.splits)
  define c1 where "c1 = run_cells (PAGE_SIZE * ms_user_page_num st + bv_offset v) (page_address api (bv_page v) + bv_offset v) (bv_len v)"
  have c1: "map snd c1 = bvec_addrs api v" "map_inv base cn vm w m0 (cells @ c1) st1" "list_inv vm (cells @ c1) st1"
    "range_inv base cn vm (cells @ c1) st1"
    unfolding c1_def using map_segment_inv(1,2) [OF st1(1)] range_inv_segment [OF st1(1)] Cons.prems by (simp_all add: bvec_addrs_def)
  from Cons.IH [OF st1(2) c1(2-4)] Cons.prems obtain c2 where
    "map snd c2 = concat (map (bvec_addrs api) segs)" "map_inv base cn vm w m0 ((cells @ c1) @ c2) st'"
    "list_inv vm ((cells @ c1) @ c2) st'" "range_inv base cn vm ((cells @ c1) @ c2) st'" by auto
  then show ?case using c1(1) by (intro exI [of _ "c1 @ c2"]) auto
qed

section \<open>The copy\<close>

definition copy_front :: "(nat \<Rightarrow> nat) \<Rightarrow> nat \<Rightarrow> nat \<Rightarrow> nat \<Rightarrow> mem \<Rightarrow> mem" where
  "copy_front rl res start n m =
     (if start = 0 then m else mem_copy m (rl 2 + start) (res + PAGE_SIZE * 2 + start) (min n (PAGE_SIZE - start)))"

definition copy_tail :: "(nat \<Rightarrow> nat) \<Rightarrow> nat \<Rightarrow> nat \<Rightarrow> nat \<Rightarrow> mem \<Rightarrow> mem" where
  "copy_tail rl res start n m =
     (if (start + n) mod PAGE_SIZE = 0 \<or> start \<noteq> 0 \<and> start + n < PAGE_SIZE then m
      else mem_copy m (rl (tail_reserve start)) (res + PAGE_SIZE * tail_reserve start) ((start + n) mod PAGE_SIZE))"

lemma misaligned_loop_one:
  assumes "l 0 \<noteq> 0" "l 2 = 0" "l 0 mod PAGE_SIZE = start"
  shows "misaligned_loop l rl res 0 2 m = Some (copy_tail rl res start (l 1) (copy_front rl res start (l 1) m))"
proof -
  have stop: "misaligned_loop l rl res 1 r m' = Some m'" for r m'
    using assms(2) by (simp add: misaligned_loop.simps bius_const)
  have "(l 0 + l 1) mod PAGE_SIZE = (start + l 1) mod PAGE_SIZE" using assms(3) mod_add_left_eq by metis
  moreover have "(if start + l 1 < PAGE_SIZE then l 1 else PAGE_SIZE - start) = min (l 1) (PAGE_SIZE - start)"
    by auto
  ultimately show ?thesis
    using assms stop
    by (subst misaligned_loop.simps)
      (simp add: Let_def copy_front_def copy_tail_def tail_reserve_def BIUS_NUM_RESERVED_PAGES_def BIUS_MAX_SEGMENTS_def
        MAPPING_LIST_WORDS_def)
qed

text \<open>Every address the copy stores to is the home of a cell of a front or a tail page.\<close>

lemma copy_front_cell:
  assumes cells: "map fst cells = [start ..< start + length cells]"
    and ok: "\<forall>c \<in> set cells. range_cell base res start (length cells) ptes rl c"
    and d: "start \<noteq> 0" "rl 2 + start \<le> d" "d < rl 2 + start + min (length cells) (PAGE_SIZE - start)"
  shows "\<exists>x. (x, d) \<in> set cells \<and> front_page start x"
proof -
  let ?x = "d - rl 2"
  have "?x \<in> set (map fst cells)" unfolding cells using d by auto
  then obtain a where a: "(?x, a) \<in> set cells" by auto
  have "front_page start ?x" using d by (auto simp: front_page_def)
  moreover from this have "a = d" using ok a d by (auto simp: range_cell_def)
  ultimately show ?thesis using a by auto
qed

lemma copy_tail_cell:
  assumes cells: "map fst cells = [start ..< start + length cells]" and start: "start < PAGE_SIZE"
    and ok: "\<forall>c \<in> set cells. range_cell base res start (length cells) ptes rl c"
    and d: "\<not> (start \<noteq> 0 \<and> start + length cells < PAGE_SIZE)" "rl (tail_reserve start) \<le> d"
      "d < rl (tail_reserve start) + (start + length cells) mod PAGE_SIZE"
  shows "\<exists>x. (x, d) \<in> set cells \<and> tail_page start (length cells) x \<and> \<not> front_page start x"
proof -
  let ?n = "start + length cells" and ?k = "d - rl (tail_reserve start)"
  let ?x = "PAGE_SIZE * (?n div PAGE_SIZE) + ?k"
  have k: "?k < ?n mod PAGE_SIZE" using d by linarith
  then have kp: "?k < PAGE_SIZE" using mod_less_divisor [OF page_pos(1), of ?n] by linarith
  have n: "PAGE_SIZE * (?n div PAGE_SIZE) + ?n mod PAGE_SIZE = ?n" by simp
  have q: "start \<noteq> 0 \<Longrightarrow> PAGE_SIZE \<le> PAGE_SIZE * (?n div PAGE_SIZE)"
    using d(1) by (simp add: Suc_le_eq div_greater_zero_iff)
  have "?x < ?n" using k n by linarith
  moreover have "start \<le> ?x" using q start by (cases "start = 0") linarith+
  ultimately have "?x \<in> set (map fst cells)" unfolding cells by simp
  then obtain a where a: "(?x, a) \<in> set cells" by auto
  have t: "tail_page start (length cells) ?x" "\<not> front_page start ?x"
    using k page_of_offset(1) [OF kp] trans_le_add1 [OF q, of ?k] by (auto simp: tail_page_def front_page_def simp del: mult_le_cancel1)
  then have "a = d" using ok a page_of_offset(2) [OF kp, of "?n div PAGE_SIZE"] d(2) by (auto simp: range_cell_def)
  then show ?thesis using a t by blast
qed

lemma copy_front_other:
  assumes "\<not> (start \<noteq> 0 \<and> rl 2 + start \<le> d \<and> d < rl 2 + start + min n (PAGE_SIZE - start))"
  shows "copy_front rl res start n m d = m d"
  using assms by (auto simp: copy_front_def mem_copy_def)

lemma copy_tail_other:
  assumes "\<not> (\<not> (start \<noteq> 0 \<and> start + n < PAGE_SIZE) \<and> rl (tail_reserve start) \<le> d \<and>
    d < rl (tail_reserve start) + (start + n) mod PAGE_SIZE)"
  shows "copy_tail rl res start n m d = m d"
  using assms by (auto simp: copy_tail_def mem_copy_def)

lemma copy_back:
  assumes cells: "map fst cells = [start ..< start + length cells]" and start: "start < PAGE_SIZE"
    and ok: "\<forall>c \<in> set cells. range_cell base (cn_reserved_pages cn) start (length cells) ptes rl c"
    and data: "distinct (map snd cells)" "\<forall>c \<in> set cells. snd c \<notin> reserved_area cn" and c: "(x, a) \<in> set cells"
  shows "copy_tail rl (cn_reserved_pages cn) start (length cells) (copy_front rl (cn_reserved_pages cn) start (length cells) m) a =
    m (shown base ptes x)"
proof -
  let ?res = "cn_reserved_pages cn" and ?n = "length cells"
  let ?m1 = "copy_front rl ?res start ?n m"
  have uniq: "y = x" if "(y, a) \<in> set cells" for y
    using data(1) c that by (metis distinct_map inj_onD prod.inject snd_conv)
  have x: "start \<le> x" "x < start + ?n" using c cells by (metis atLeastLessThan_iff fst_conv image_eqI list.set_map set_upt)+
  have rc: "range_cell base ?res start ?n ptes rl (x, a)" using ok c by blast
  have front: "?m1 a = m a" if "\<not> front_page start x"
    by (rule copy_front_other) (use copy_front_cell [OF cells ok, of a] uniq that in blast)
  have tail: "copy_tail rl ?res start ?n ?m1 a = ?m1 a" if "front_page start x \<or> \<not> tail_page start ?n x"
    by (rule copy_tail_other) (use copy_tail_cell [OF cells start ok, of a] uniq that in blast)
  consider "front_page start x" | "\<not> front_page start x" "tail_page start ?n x" | "\<not> front_page start x" "\<not> tail_page start ?n x"
    by blast
  then show ?thesis
  proof cases
    case 1
    then have "?m1 a = m (?res + PAGE_SIZE * 2 + x)"
      using rc x by (auto simp: range_cell_def copy_front_def mem_copy_def front_page_def add.assoc)
    then show ?thesis using tail 1 rc by (simp add: range_cell_def)
  next
    case 2
    let ?r = "tail_reserve start" and ?k = "x mod PAGE_SIZE"
    have a: "shown base ptes x = ?res + PAGE_SIZE * ?r + ?k" "a = rl ?r + ?k" using rc 2 by (auto simp: range_cell_def)
    have d: "x div PAGE_SIZE = (start + ?n) div PAGE_SIZE" using 2(2) by (simp add: tail_page_def)
    have "PAGE_SIZE * ((start + ?n) div PAGE_SIZE) + ?k = x" using mult_div_mod_eq [of PAGE_SIZE x] unfolding d .
    then have k: "?k < (start + ?n) mod PAGE_SIZE" using x(2) mult_div_mod_eq [of PAGE_SIZE "start + ?n"] by linarith
    have "\<not> (start \<noteq> 0 \<and> start + ?n < PAGE_SIZE)" using 2(1) x(2) by (auto simp: front_page_def)
    then have "copy_tail rl ?res start ?n ?m1 a = ?m1 (?res + PAGE_SIZE * ?r + ?k)"
      using k 2(2) by (auto simp: copy_tail_def mem_copy_def a(2) tail_page_def)
    also have "?res + PAGE_SIZE * ?r + ?k \<in> reserved_area cn"
      using mod_less_divisor [of 4096 x] by (auto simp: reserved_area_def tail_reserve_def bius_const)
    then have "?m1 (?res + PAGE_SIZE * ?r + ?k) = m (?res + PAGE_SIZE * ?r + ?k)"
      by (intro copy_front_other) (use copy_front_cell [OF cells ok] data(2) in force)
    finally show ?thesis using a(1) by simp
  next
    case 3
    then have "shown base ptes x = a" using rc by (simp add: range_cell_def)
    then show ?thesis using 3 front tail by simp
  qed
qed

end
