(* ===== verification/Bius_Mapping_Claims.thy ===== *)
theory Bius_Mapping_Claims
  imports Bius_Mapping_Read Bius_Scenario
begin

text \<open>
  Theorems on the mapped transfer of data (data_mapping.c): the process sees the data of a write request in
  the ranges it is told of, the pages of a request are gone after unmapping, what the process leaves in
  the pages of a read request in one range reaches the request, and in a list of ranges it may not.
\<close>

section \<open>The result of mapping\<close>

text \<open>
  The addresses of the process at which it finds the data of a mapped request, in order. It finds a list only
  where the page at the address it is told of shows the page the list is on.
\<close>

definition list_entries :: "(nat \<Rightarrow> nat) \<Rightarrow> nat" where
  "list_entries l = length (takeWhile (\<lambda>k. l (2 * k) \<noteq> 0) [0 ..< MAPPING_LIST_WORDS div 2])"

definition mapped_ranges :: "'bio bius_request \<Rightarrow> bius_connection \<Rightarrow> nat list" where
  "mapped_ranges r cn = (case (blk_fields r, cn_vma cn) of
     (Some b, Some vma) \<Rightarrow> (case req_map_type b of
        BIUS_DATAMAP_UNMAPPED \<Rightarrow> []
      | BIUS_DATAMAP_SIMPLE \<Rightarrow> [vm_start vma + req_map_data b ..< vm_start vma + req_map_data b + req_length r]
      | BIUS_DATAMAP_LIST \<Rightarrow>
          if vm_start vma \<le> req_map_data b \<and> (req_map_data b - vm_start vma) mod PAGE_SIZE = 0 \<and>
             cn_ptes cn ((req_map_data b - vm_start vma) div PAGE_SIZE) = Some (cn_reserved_pages_pfn cn)
          then list_ranges (cn_mapping_list cn) (list_entries (cn_mapping_list cn)) else [])
   | _ \<Rightarrow> [])"

lemma list_entries_eq:
  assumes "\<forall>k < n. l (2 * k) \<noteq> 0" "l (2 * n) = 0" "n < MAPPING_LIST_WORDS div 2"
  shows "list_entries l = n"
proof -
  have "[0 ..< MAPPING_LIST_WORDS div 2] = [0 ..< n] @ n # [Suc n ..< MAPPING_LIST_WORDS div 2]"
    using assms(3) upt_add_eq_append [of 0 n "MAPPING_LIST_WORDS div 2 - n"] by (simp add: upt_conv_Cons)
  moreover have "takeWhile (\<lambda>k. l (2 * k) \<noteq> 0) ([0 ..< n] @ n # xs) = [0 ..< n]" for xs
    using assms(1,2) by (subst takeWhile_append2) auto
  ultimately show ?thesis by (simp add: list_entries_def)
qed

definition map_start :: "bius_connection \<Rightarrow> vm_area \<Rightarrow> mem \<Rightarrow> map_state" where
  "map_start cn vma m = \<lparr>ms_list_entry_index = 0, ms_next_reserved = 2, ms_user_addr = vm_start vma,
     ms_user_page_num = 0, ms_segment_end_aligned = False, ms_ptes = cn_ptes cn,
     ms_mapping_list = cn_mapping_list cn, ms_reserve_list = cn_reserve_list cn, ms_mem = m\<rparr>"

lemma map_start_inv:
  "map_inv base cn (vm_start vma) w m [] (map_start cn vma m)" "list_inv (vm_start vma) [] (map_start cn vma m)"
  by (simp_all add: map_start_def map_inv_def list_inv_def list_ranges_def bius_const)

lemma bius_map_data_split:
  assumes "cn_vma cn = Some vma" "blk_fields r = Some b" "req_map_type b = BIUS_DATAMAP_UNMAPPED"
  shows "bius_map_data api rq r cn m = do {
    st \<leftarrow> map_segments api (request_is_write (req_type r)) cn (rq_segments api (rq_bio rq)) (map_start cn vma m);
    (b, st) \<leftarrow> map_finish cn b st;
    Some (0, set_blk_fields (b\<lparr>req_mapped_size := ms_user_addr st - vm_start vma\<rparr>) r,
      cn\<lparr>cn_ptes := ms_ptes st, cn_mapping_list := ms_mapping_list st, cn_reserve_list := ms_reserve_list st\<rparr>, ms_mem st)}"
  using assms by (simp add: bius_map_data_def map_start_def)

text \<open>The requests the block layer hands to the driver, and the state of the mapped area between requests.\<close>

definition mappable :: "nat \<Rightarrow> 'bio bio_api \<Rightarrow> 'bio rq \<Rightarrow> 'bio bius_request \<Rightarrow> bius_connection \<Rightarrow> vm_area \<Rightarrow> bool" where
  "mappable base api rq r cn vma \<longleftrightarrow>
     (\<exists>b. blk_fields r = Some b \<and> req_map_type b = BIUS_DATAMAP_UNMAPPED) \<and>
     req_length r = length (concat (map (bvec_addrs api) (rq_segments api (rq_bio rq)))) \<and>
     cn_vma cn = Some vma \<and> 0 < vm_start vma \<and> vm_start vma mod PAGE_SIZE = 0 \<and>
     (\<forall>i < BIUS_PTES_PER_COMMAND. cn_ptes cn i \<noteq> None) \<and> linear_map base api cn \<and>
     length (rq_segments api (rq_bio rq)) \<le> BIUS_MAX_SEGMENTS \<and>
     (\<forall>v \<in> set (rq_segments api (rq_bio rq)). bv_offset v + bv_len v \<le> PAGE_SIZE \<and> segment_ok api cn v)"

lemma map_finish_total:
  assumes "map_room k st" "k \<le> BIUS_MAX_SEGMENTS"
  shows "\<exists>b' st'. map_finish cn b st = Some (b', st')"
proof -
  have "ms_user_page_num st < BIUS_PTES_PER_COMMAND" "ms_list_entry_index st * 2 + 1 < MAPPING_LIST_WORDS"
    using assms by (simp_all add: map_room_def bius_const)
  then show ?thesis using assms(1) by (simp add: map_finish_def set_pte_def list_store_def map_room_def)
qed

lemma map_data_run:
  assumes ok: "mappable base api rq r cn vma" and b: "blk_fields r = Some b"
  obtains st cells b' st' where
    "map_segments api (request_is_write (req_type r)) cn (rq_segments api (rq_bio rq)) (map_start cn vma m) = Some st"
    "map snd cells = concat (map (bvec_addrs api) (rq_segments api (rq_bio rq)))"
    "map_inv base cn (vm_start vma) (request_is_write (req_type r)) m cells st" "list_inv (vm_start vma) cells st"
    "map_room BIUS_MAX_SEGMENTS st" "map_finish cn b st = Some (b', st')"
    "bius_map_data api rq r cn m = Some (0, set_blk_fields (b'\<lparr>req_mapped_size := ms_user_addr st' - vm_start vma\<rparr>) r,
      cn\<lparr>cn_ptes := ms_ptes st', cn_mapping_list := ms_mapping_list st', cn_reserve_list := ms_reserve_list st'\<rparr>, ms_mem st')"
proof -
  let ?segs = "rq_segments api (rq_bio rq)" and ?w = "request_is_write (req_type r)"
  have "map_room 0 (map_start cn vma m)" using ok by (simp add: map_room_def map_start_def mappable_def)
  then obtain st where st: "map_segments api ?w cn ?segs (map_start cn vma m) = Some st" "map_room (length ?segs) st"
    using map_segments_total [of 0 "map_start cn vma m" ?segs api ?w cn] ok by (auto simp: mappable_def)
  have room: "map_room BIUS_MAX_SEGMENTS st" using st(2) ok by (auto simp: map_room_def mappable_def)
  obtain cells where cells: "map snd cells = concat (map (bvec_addrs api) ?segs)"
    "map_inv base cn (vm_start vma) ?w m cells st" "list_inv (vm_start vma) cells st"
    using map_segments_inv [OF st(1) map_start_inv, of base] ok by (auto simp: mappable_def)
  obtain b' st' where fin: "map_finish cn b st = Some (b', st')" using map_finish_total [OF room] by blast
  have "cn_vma cn = Some vma" "req_map_type b = BIUS_DATAMAP_UNMAPPED" using ok b by (auto simp: mappable_def)
  note split = bius_map_data_split [OF this(1) b this(2), of api rq m]
  show ?thesis by (rule that [OF st(1) cells room fin]) (simp add: split st(1) fin)
qed

lemma list_ranges_one: "list_ranges l (Suc 0) = [l 0 ..< l 0 + l (Suc 0)]"
  by (simp add: list_ranges_def)

text \<open>The ranges named by the header and the list are the cells; finishing changes no page that holds one.\<close>

lemma map_finish_ranges:
  assumes fin: "map_finish cn b st = Some (b', st')" and inv: "list_inv (vm_start vma) cells st" "map_room BIUS_MAX_SEGMENTS st"
    and vm: "0 < vm_start vma" "vm_start vma mod PAGE_SIZE = 0" and len: "req_length r = length cells"
    and cn: "cn_vma cn = Some vma" "req_map_type b = BIUS_DATAMAP_UNMAPPED"
    and addr: "ms_user_addr st = vm_start vma + PAGE_SIZE * ms_user_page_num st"
  shows "mapped_ranges (set_blk_fields (b'\<lparr>req_mapped_size := n\<rparr>) r)
      (cn\<lparr>cn_ptes := ms_ptes st', cn_mapping_list := ms_mapping_list st', cn_reserve_list := q\<rparr>) =
    map (\<lambda>c. vm_start vma + fst c) cells \<and> ms_mem st' = ms_mem st \<and> ms_reserve_list st' = ms_reserve_list st \<and>
    (\<forall>i < ms_user_page_num st. ms_ptes st' i = ms_ptes st i)"
proof -
  let ?i = "ms_list_entry_index st" and ?vm = "vm_start vma" and ?l = "ms_mapping_list st"
  have l: "list_ranges ?l ?i = map (\<lambda>c. ?vm + fst c) cells" using inv by (simp add: list_inv_def)
  consider "?i = 0" | "?i = 1" | "1 < ?i" by linarith
  then show ?thesis
  proof cases
    case 1
    then have "cells = []" using l by (simp add: list_ranges_def)
    then show ?thesis using fin 1 cn by (auto simp: map_finish_def mapped_ranges_def set_blk_fields_def blk_fields_def)
  next
    case 2
    have "?vm \<le> ?l 0" "?l 0 < ?vm + PAGE_SIZE" using inv(1) 2 by (auto simp: list_inv_def)
    then have "?l 0 mod PAGE_SIZE = ?l 0 - ?vm"
      using mod_add_left_eq [of ?vm PAGE_SIZE "?l 0 - ?vm"] vm(2) by (simp add: less_diff_conv2 add.commute)
    moreover have "?l (Suc 0) = length cells" using arg_cong [OF l, of length] 2 by (simp add: list_ranges_one)
    ultimately show ?thesis
      using fin 2 l len cn \<open>?vm \<le> ?l 0\<close>
      by (auto simp: map_finish_def mapped_ranges_def set_blk_fields_def blk_fields_def list_ranges_one)
  next
    case 3
    let ?l' = "?l(2 * ?i + 1 := 0, 2 * ?i := 0)"
    have st': "ms_mapping_list st' = ?l'" "ms_mem st' = ms_mem st" "ms_reserve_list st' = ms_reserve_list st"
      "\<forall>i < ms_user_page_num st. ms_ptes st' i = ms_ptes st i" "req_map_type b' = BIUS_DATAMAP_LIST"
      "req_map_data b' = ms_user_addr st" "ms_ptes st' (ms_user_page_num st) = Some (cn_reserved_pages_pfn cn)"
      using fin 3 by (auto simp: map_finish_def set_pte_Some list_store_Some Option.bind_eq_Some_conv mult.commute)
    have "list_entries ?l' = ?i"
    proof (rule list_entries_eq)
      show "\<forall>k < ?i. ?l' (2 * k) \<noteq> 0" using inv(1) vm(1) by (auto simp: list_inv_def)
    qed (use inv(2) in \<open>auto simp: map_room_def bius_const\<close>)
    moreover have "list_ranges ?l' ?i = list_ranges ?l ?i" by (rule list_ranges_cong) auto
    ultimately show ?thesis using st' l cn addr by (simp add: mapped_ranges_def set_blk_fields_def blk_fields_def)
  qed
qed

text \<open>A connection whose process has mapped the area at page 2, with its reserved pages at frame 100.\<close>

definition demo_vma :: vm_area where "demo_vma = \<lparr>vm_start = 8192, vm_end = 8192 + 128 * 1024 * 1024\<rparr>"

definition demo_mapped_conn :: bius_connection where
  "demo_mapped_conn = demo_conn\<lparr>cn_vma := Some demo_vma, cn_ptes := (\<lambda>i. if i < BIUS_PTES_PER_COMMAND then Some 1 else None),
     cn_reserved_pages := 409600, cn_reserved_pages_pfn := 100\<rparr>"

text \<open>A request with the segments \<open>segs\<close>.\<close>

definition demo_data_rq :: "bio_vec list \<Rightarrow> seg_bio rq" where
  "demo_data_rq segs = (demo_rq True)\<lparr>rq_bio := [segs]\<rparr>"

definition demo_data_req :: "bool \<Rightarrow> bio_vec list \<Rightarrow> seg_bio bius_request" where
  "demo_data_req wr segs = (demo_req wr)\<lparr>req_length := sum_list (map bv_len segs)\<rparr>"

lemma demo_mappable:
  assumes "length segs \<le> 256"
    and "\<forall>v \<in> set segs. bv_offset v < 4096 \<and> bv_offset v + bv_len v \<le> 4096 \<and> bv_page v < 100"
  shows "mappable 0 seg_api (demo_data_rq segs) (demo_data_req wr segs) demo_mapped_conn demo_vma"
proof -
  have "length (concat (map (bvec_addrs seg_api) segs)) = sum_list (map bv_len segs)"
    by (simp add: length_concat bvec_addrs_def o_def)
  moreover have "segment_ok seg_api demo_mapped_conn v" if "v \<in> set segs" for v
  proof -
    have "4096 * bv_page v + bv_offset v + bv_len v \<le> 4096 * bv_page v + 4096" "bv_page v + 1 \<le> 100"
      using assms(2) that by auto
    then have "4096 * bv_page v + bv_offset v + bv_len v \<le> 409600" by linarith
    then show ?thesis
      using assms(2) that
      by (auto simp: segment_ok_def bvec_addrs_def seg_api_def reserved_area_def demo_mapped_conn_def bius_const)
  qed
  ultimately show ?thesis
    using assms
    by (simp add: mappable_def demo_data_rq_def demo_data_req_def demo_req_def blk_fields_def demo_mapped_conn_def demo_vma_def
        linear_map_def seg_api_def bius_const)
qed

section \<open>Data of a write request\<close>

text \<open>
  C6. Mapping shows a write request's data to the process. A request of at most 256 segments within their
  pages can always be mapped, and the bytes the process finds, in order, at the addresses it is told of
  (one range, or the ranges of the list) are the bytes of the request's segments; no memory of the kernel
  outside the connection's reserved pages changes.
\<close>

theorem mapped_pages_show_data:
  assumes "mappable base api rq r cn vma"
  shows "\<exists>r' cn' m'. bius_map_data api rq r cn m = Some (0, r', cn', m') \<and>
    length (mapped_ranges r' cn') = req_length r \<and> (\<forall>y. y \<notin> reserved_area cn \<longrightarrow> m' y = m y) \<and>
    (request_is_write (req_type r) \<longrightarrow>
      map (\<lambda>a. m' (shown base (cn_ptes cn') (a - vm_start vma))) (mapped_ranges r' cn') =
      map m (concat (map (bvec_addrs api) (rq_segments api (rq_bio rq)))))"
proof -
  obtain b where b: "blk_fields r = Some b" "req_map_type b = BIUS_DATAMAP_UNMAPPED" using assms by (auto simp: mappable_def)
  obtain st cells b' st' where
    "map_segments api (request_is_write (req_type r)) cn (rq_segments api (rq_bio rq)) (map_start cn vma m) = Some st"
    and cells: "map snd cells = concat (map (bvec_addrs api) (rq_segments api (rq_bio rq)))"
    and inv: "map_inv base cn (vm_start vma) (request_is_write (req_type r)) m cells st" "list_inv (vm_start vma) cells st"
      "map_room BIUS_MAX_SEGMENTS st" and fin: "map_finish cn b st = Some (b', st')"
    and run: "bius_map_data api rq r cn m = Some (0, set_blk_fields (b'\<lparr>req_mapped_size := ms_user_addr st' - vm_start vma\<rparr>) r,
      cn\<lparr>cn_ptes := ms_ptes st', cn_mapping_list := ms_mapping_list st', cn_reserve_list := ms_reserve_list st'\<rparr>, ms_mem st')"
    by (rule map_data_run [OF assms b(1), of m])
  have "req_length r = length cells" using assms arg_cong [OF cells, of length] by (simp add: mappable_def)
  note ranges = map_finish_ranges [OF fin inv(2,3) _ _ this _ b(2)]
  have "ms_user_addr st = vm_start vma + PAGE_SIZE * ms_user_page_num st" using inv(1) by (simp add: map_inv_def)
  then have fin': "mapped_ranges (set_blk_fields (b'\<lparr>req_mapped_size := n\<rparr>) r)
      (cn\<lparr>cn_ptes := ms_ptes st', cn_mapping_list := ms_mapping_list st', cn_reserve_list := q\<rparr>) =
      map (\<lambda>c. vm_start vma + fst c) cells" "ms_mem st' = ms_mem st" "\<forall>i < ms_user_page_num st. ms_ptes st' i = ms_ptes st i"
    for n q using ranges assms by (auto simp: mappable_def)
  have "ms_mem st' (shown base (ms_ptes st') (fst c)) = m (snd c)" if "c \<in> set cells" "request_is_write (req_type r)" for c
  proof -
    have "cell_ok base cn st c" "ms_mem st (shown base (ms_ptes st) (fst c)) = m (snd c)"
      using inv(1) that by (auto simp: map_inv_def)
    then show ?thesis using fin'(2,3) by (cases c) (simp add: cell_ok_def shown_def)
  qed
  then have "map (\<lambda>c. ms_mem st' (shown base (ms_ptes st') (fst c))) cells =
      map m (concat (map (bvec_addrs api) (rq_segments api (rq_bio rq))))" if "request_is_write (req_type r)"
    using that by (simp add: cells [symmetric])
  moreover have "\<forall>y. y \<notin> reserved_area cn \<longrightarrow> ms_mem st' y = m y" using inv(1) fin'(2) by (simp add: map_inv_def)
  ultimately show ?thesis using run fin'(1) \<open>req_length r = length cells\<close> by (simp add: o_def)
qed

text \<open>Two segments that are not contiguous for the process: it is told of a list.\<close>

theorem mapped_pages_show_data_witness:
  "\<exists>r' cn' m'. bius_map_data seg_api (demo_data_rq [\<lparr>bv_page = 5, bv_offset = 512, bv_len = 2\<rparr>, \<lparr>bv_page = 7, bv_offset = 3, bv_len = 3\<rparr>])
      (demo_data_req True [\<lparr>bv_page = 5, bv_offset = 512, bv_len = 2\<rparr>, \<lparr>bv_page = 7, bv_offset = 3, bv_len = 3\<rparr>]) demo_mapped_conn of_nat =
      Some (0, r', cn', m') \<and> length (mapped_ranges r' cn') = 5 \<and>
    map (\<lambda>a. m' (shown 0 (cn_ptes cn') (a - 8192))) (mapped_ranges r' cn') = [0, 1, 3, 4, 5]"
proof -
  let ?segs = "[\<lparr>bv_page = 5, bv_offset = 512, bv_len = 2\<rparr>, \<lparr>bv_page = 7, bv_offset = 3, bv_len = 3\<rparr>]"
  have "request_is_write (req_type (demo_data_req True ?segs))" "req_length (demo_data_req True ?segs) = 5"
    by (simp_all add: demo_data_req_def demo_req_def request_is_write_def)
  moreover have "map of_nat (concat (map (bvec_addrs seg_api) (rq_segments seg_api (rq_bio (demo_data_rq ?segs))))) = [0, 1, 3, 4, 5 :: byte]"
    by (simp add: demo_data_rq_def seg_api_def bvec_addrs_def upt_rec)
  ultimately show ?thesis
    using mapped_pages_show_data [OF demo_mappable [of ?segs True], of of_nat] by (auto simp: demo_vma_def)
qed

section \<open>After unmapping\<close>

lemma map_finish_ptes:
  assumes fin: "map_finish cn b st = Some (b', st')" and type: "req_map_type b' \<noteq> BIUS_DATAMAP_UNMAPPED"
    and st: "ms_user_addr st = vm + PAGE_SIZE * ms_user_page_num st" "ms_user_page_num st \<le> BIUS_PTES_PER_COMMAND"
  obtains k where "ms_user_addr st' = vm + PAGE_SIZE * k" "k \<le> BIUS_PTES_PER_COMMAND" "ms_user_page_num st \<le> k"
    "dom (ms_ptes st') = dom (ms_ptes st)" "\<forall>i \<ge> k. ms_ptes st' i = ms_ptes st i"
proof (cases "1 < ms_list_entry_index st")
  case True
  let ?u = "ms_user_page_num st"
  have u: "?u < BIUS_PTES_PER_COMMAND" "?u \<in> dom (ms_ptes st)" "ms_ptes st' = (ms_ptes st)(?u \<mapsto> cn_reserved_pages_pfn cn)"
    "ms_user_addr st' = ms_user_addr st + PAGE_SIZE"
    using fin True by (auto simp: map_finish_def set_pte_Some Option.bind_eq_Some_conv)
  then show thesis using st by (intro that [of "?u + 1"]) (auto simp: insert_absorb distrib_left)
next
  case False
  then have "st' = st" using fin by (auto simp: map_finish_def split: if_splits)
  then show thesis using st that [of "ms_user_page_num st"] by simp
qed

text \<open>
  C17. Unmapping takes every page of the request away from the process again. Whatever the segments are,
  unmapping a request that was mapped is defined, and afterwards each page-table entry shows the zero page
  as before, and the request counts as not mapped.
\<close>

theorem unmap_restores_zero_pages:
  assumes "bius_map_data api rq r cn m = Some (0, r', cn', m')" "blk_fields r = Some b" "req_map_type b = BIUS_DATAMAP_UNMAPPED"
    and "\<forall>i < BIUS_PTES_PER_COMMAND. cn_ptes cn i = Some zero_page_pfn"
  shows "\<exists>r'' cn'' b''. bius_unmap_data zero_page_pfn r' cn' = Some (r'', cn'') \<and> cn_ptes cn'' = cn_ptes cn \<and>
    blk_fields r'' = Some b'' \<and> req_map_type b'' = BIUS_DATAMAP_UNMAPPED"
proof -
  obtain vma where vma: "cn_vma cn = Some vma" using assms(1) by (auto simp: bius_map_data_def Option.bind_eq_Some_conv)
  obtain st b' st' where st: "map_segments api (request_is_write (req_type r)) cn (rq_segments api (rq_bio rq)) (map_start cn vma m) = Some st"
    and fin: "map_finish cn b st = Some (b', st')"
    and r': "r' = set_blk_fields (b'\<lparr>req_mapped_size := ms_user_addr st' - vm_start vma\<rparr>) r"
    and cn': "cn' = cn\<lparr>cn_ptes := ms_ptes st', cn_mapping_list := ms_mapping_list st', cn_reserve_list := ms_reserve_list st'\<rparr>"
    using assms(1) unfolding bius_map_data_split [OF vma assms(2,3)] by (auto simp: Option.bind_eq_Some_conv)
  have step: "ptes_step (map_start cn vma m) st" using map_segments_ptes [OF st] .
  then have old: "ms_user_addr st = vm_start vma + PAGE_SIZE * ms_user_page_num st" "ms_user_page_num st \<le> BIUS_PTES_PER_COMMAND"
    "dom (ms_ptes st) = dom (cn_ptes cn)" "\<forall>i \<ge> ms_user_page_num st. ms_ptes st i = cn_ptes cn i"
    by (auto simp: ptes_step_def map_start_def)
  have f: "blk_fields r' = Some (b'\<lparr>req_mapped_size := ms_user_addr st' - vm_start vma\<rparr>)" "cn_vma cn' = Some vma"
    by (simp_all add: r' cn' blk_fields_def set_blk_fields_def vma)
  show ?thesis
  proof (cases "req_map_type b' = BIUS_DATAMAP_UNMAPPED")
    case True
    then have "ms_list_entry_index st = 0" "st' = st"
      using fin by (auto simp: map_finish_def Option.bind_eq_Some_conv split: if_splits)
    moreover from this have "st = map_start cn vma m" using map_segments_index [OF st] st by fastforce
    ultimately show ?thesis using f True by (simp add: bius_unmap_data_def cn' map_start_def)
  next
    case False
    obtain k where k: "ms_user_addr st' = vm_start vma + PAGE_SIZE * k" "k \<le> BIUS_PTES_PER_COMMAND" "ms_user_page_num st \<le> k"
      "dom (ms_ptes st') = dom (ms_ptes st)" "\<forall>i \<ge> k. ms_ptes st' i = ms_ptes st i"
      by (rule map_finish_ptes [OF fin False old(1,2)])
    have "\<forall>j. j < k \<longrightarrow> ms_ptes st' j \<noteq> None" using k(2,4) old(3) assms(4) by (metis domIff less_le_trans option.distinct(1))
    then have "unmap_loop zero_page_pfn 0 k (ms_ptes st') = Some (\<lambda>j. if 0 \<le> j \<and> j < 0 + k then Some zero_page_pfn else ms_ptes st' j)"
      using k(2) by (intro unmap_loop_run) auto
    moreover have "(\<lambda>j. if 0 \<le> j \<and> j < 0 + k then Some zero_page_pfn else ms_ptes st' j) = cn_ptes cn"
      using k(2,3,5) old(4) assms(4) by (auto simp: fun_eq_iff not_less)
    ultimately show ?thesis
      using f False k(1) by (simp add: bius_unmap_data_def cn' blk_fields_def set_blk_fields_def)
  qed
qed

theorem unmap_restores_zero_pages_witness:
  "\<exists>r' cn' m' r'' cn''. bius_map_data seg_api (demo_data_rq [\<lparr>bv_page = 5, bv_offset = 512, bv_len = 2\<rparr>])
      (demo_data_req True [\<lparr>bv_page = 5, bv_offset = 512, bv_len = 2\<rparr>]) demo_mapped_conn of_nat = Some (0, r', cn', m') \<and>
    bius_unmap_data 1 r' cn' = Some (r'', cn'') \<and> cn_ptes cn'' = cn_ptes demo_mapped_conn"
proof -
  let ?segs = "[\<lparr>bv_page = 5, bv_offset = 512, bv_len = 2\<rparr>]"
  have m: "mappable 0 seg_api (demo_data_rq ?segs) (demo_data_req True ?segs) demo_mapped_conn demo_vma"
    by (rule demo_mappable) simp_all
  then obtain b where b: "blk_fields (demo_data_req True ?segs) = Some b" "req_map_type b = BIUS_DATAMAP_UNMAPPED"
    by (auto simp: mappable_def)
  obtain r' cn' m' where run: "bius_map_data seg_api (demo_data_rq ?segs) (demo_data_req True ?segs) demo_mapped_conn of_nat = Some (0, r', cn', m')"
    by (rule map_data_run [OF m b(1)])
  have "\<forall>i < BIUS_PTES_PER_COMMAND. cn_ptes demo_mapped_conn i = Some 1" by (simp add: demo_mapped_conn_def)
  from unmap_restores_zero_pages [OF run b this] run show ?thesis by blast
qed

section \<open>Data of a read request\<close>

text \<open>
  C7. What the process leaves in the mapped pages of a read request in one range reaches the request. When
  such a request was mapped and the process has finished, with any contents \<open>m2\<close> of memory, copying in the
  misaligned pages is defined, and every byte of the request's segments, in order, is the byte the process
  left at the corresponding address of its range.
\<close>

theorem simple_copy_in_delivers:
  assumes "mappable base api rq r cn vma" "\<forall>v \<in> set (rq_segments api (rq_bio rq)). 0 < bv_len v"
    and "distinct (concat (map (bvec_addrs api) (rq_segments api (rq_bio rq))))"
    and "bius_map_data api rq r cn m = Some (0, r', cn', m')"
    and "blk_fields r' = Some b'" "req_map_type b' = BIUS_DATAMAP_SIMPLE"
  shows "\<exists>m3. bius_copy_in_misaligned_pages r' cn' m2 = Some m3 \<and>
    map m3 (concat (map (bvec_addrs api) (rq_segments api (rq_bio rq)))) =
    map (\<lambda>a. m2 (shown base (cn_ptes cn') (a - vm_start vma))) (mapped_ranges r' cn')"
proof -
  obtain b where b: "blk_fields r = Some b" "req_map_type b = BIUS_DATAMAP_UNMAPPED" using assms(1) by (auto simp: mappable_def)
  have vma: "cn_vma cn = Some vma" "0 < vm_start vma" "vm_start vma mod PAGE_SIZE = 0"
    and len: "req_length r = length (concat (map (bvec_addrs api) (rq_segments api (rq_bio rq))))"
    using assms(1) by (auto simp: mappable_def)
  obtain st b1 st' where st: "map_segments api (request_is_write (req_type r)) cn (rq_segments api (rq_bio rq)) (map_start cn vma m) = Some st"
    and fin: "map_finish cn b st = Some (b1, st')"
    and r': "r' = set_blk_fields (b1\<lparr>req_mapped_size := ms_user_addr st' - vm_start vma\<rparr>) r"
    and cn': "cn' = cn\<lparr>cn_ptes := ms_ptes st', cn_mapping_list := ms_mapping_list st', cn_reserve_list := ms_reserve_list st'\<rparr>"
    using assms(4) unfolding bius_map_data_split [OF vma(1) b] by (auto simp: Option.bind_eq_Some_conv)
  have "req_map_type b1 = BIUS_DATAMAP_SIMPLE" using assms(5,6) r' by (auto simp: blk_fields_def set_blk_fields_def)
  then have one: "ms_list_entry_index st = 1" "st' = st" "b1 = b\<lparr>req_map_type := BIUS_DATAMAP_SIMPLE, req_map_data := ms_mapping_list st 0 mod PAGE_SIZE\<rparr>"
    using fin b(2) by (auto simp: map_finish_def Option.bind_eq_Some_conv split: if_splits)
  have "range_inv base cn (vm_start vma) [] (map_start cn vma m)" by (simp add: range_inv_def map_start_def)
  from map_segments_range [OF st map_start_inv this] assms(1,2) obtain cells where
    cells: "map snd cells = concat (map (bvec_addrs api) (rq_segments api (rq_bio rq)))"
      "map_inv base cn (vm_start vma) (request_is_write (req_type r)) m cells st"
      "list_inv (vm_start vma) cells st" "range_inv base cn (vm_start vma) cells st"
    by (auto simp: mappable_def)
  let ?vm = "vm_start vma" and ?l = "ms_mapping_list st"
  let ?start = "?l 0 - ?vm" and ?n = "length cells"
  have l0: "?vm \<le> ?l 0" "?l 0 < ?vm + PAGE_SIZE" using cells(3) one(1) by (auto simp: list_inv_def)
  then have mod: "?l 0 mod PAGE_SIZE = ?start"
    using mod_add_left_eq [of ?vm PAGE_SIZE ?start] vma(3) by (simp add: less_diff_conv2 add.commute)
  have n: "req_length r = ?n" using len arg_cong [OF cells(1), of length] by simp
  have rc: "\<forall>c \<in> set cells. range_cell base (cn_reserved_pages cn) ?start ?n (ms_ptes st) (ms_reserve_list st) c"
    using cells(4) one(1) by (simp add: range_inv_def)
  have dat: "distinct (map snd cells)" "\<forall>c \<in> set cells. snd c \<notin> reserved_area cn"
    using assms(3) cells(1,2) by (auto simp: map_inv_def cell_ok_def)
  let ?m3 = "copy_tail (ms_reserve_list st) (cn_reserved_pages cn) ?start ?n (copy_front (ms_reserve_list st) (cn_reserved_pages cn) ?start ?n m2)"
  have run: "bius_copy_in_misaligned_pages r' cn' m2 = Some ?m3"
    using misaligned_loop_one [of "(\<lambda>_. 0)(0 := ?l 0, 1 := ?n)" ?start] vma mod l0 n
    by (simp add: bius_copy_in_misaligned_pages_def r' cn' one blk_fields_def set_blk_fields_def)
  have ranges: "map (\<lambda>c. ?vm + fst c) cells = [?l 0 ..< ?l 0 + ?l (Suc 0)]"
    using cells(3) one(1) by (auto simp: list_inv_def list_ranges_one)
  have "?l (Suc 0) = ?n" using arg_cong [OF ranges, of length] by simp
  with ranges have "mapped_ranges r' cn' = map (\<lambda>c. ?vm + fst c) cells"
    using l0 mod n vma(1) by (simp add: mapped_ranges_def r' cn' one blk_fields_def set_blk_fields_def)
  moreover have "map ?m3 (map snd cells) = map (\<lambda>c. m2 (shown base (ms_ptes st) (fst c))) cells"
    using copy_back [OF range_cells [OF cells(3) one(1)] _ rc dat, of _ _ m2] l0 by (auto simp: less_diff_conv2 add.commute)
  ultimately show ?thesis using run by (simp add: cells(1) [symmetric] cn' one(2) o_def)
qed

text \<open>A request for two bytes at offset 512 of a page, and one for two ranges at different offsets.\<close>

lemma demo_map_one:
  "\<exists>r' cn' m' b'. bius_map_data seg_api (demo_data_rq [\<lparr>bv_page = 5, bv_offset = 512, bv_len = 2\<rparr>])
      (demo_data_req False [\<lparr>bv_page = 5, bv_offset = 512, bv_len = 2\<rparr>]) demo_mapped_conn m = Some (0, r', cn', m') \<and>
    blk_fields r' = Some b' \<and> req_map_type b' = BIUS_DATAMAP_SIMPLE"
  by (simp add: bius_map_data_def demo_data_rq_def demo_data_req_def demo_req_def demo_mapped_conn_def demo_vma_def blk_fields_def
      set_blk_fields_def seg_api_def map_segment_def map_list_entry_def list_store_def map_reserved_def set_pte_def map_finish_def
      Let_def usub64_def bius_const)

theorem simple_copy_in_delivers_witness:
  "\<exists>r' cn' m' m3. bius_map_data seg_api (demo_data_rq [\<lparr>bv_page = 5, bv_offset = 512, bv_len = 2\<rparr>])
      (demo_data_req False [\<lparr>bv_page = 5, bv_offset = 512, bv_len = 2\<rparr>]) demo_mapped_conn (\<lambda>_. 0) = Some (0, r', cn', m') \<and>
    bius_copy_in_misaligned_pages r' cn' of_nat = Some m3 \<and>
    map m3 [20992, 20993] = map (\<lambda>a. of_nat (shown 0 (cn_ptes cn') (a - 8192))) (mapped_ranges r' cn')"
proof -
  let ?segs = "[\<lparr>bv_page = 5, bv_offset = 512, bv_len = 2\<rparr>]"
  have m: "mappable 0 seg_api (demo_data_rq ?segs) (demo_data_req False ?segs) demo_mapped_conn demo_vma"
    by (rule demo_mappable) simp_all
  have segs: "rq_segments seg_api (rq_bio (demo_data_rq ?segs)) = ?segs" by (simp add: demo_data_rq_def seg_api_def)
  have addrs: "concat (map (bvec_addrs seg_api) ?segs) = [20992, 20993]" by (simp add: seg_api_def bvec_addrs_def upt_rec)
  obtain r' cn' m' b' where run: "bius_map_data seg_api (demo_data_rq ?segs) (demo_data_req False ?segs) demo_mapped_conn (\<lambda>_. 0) = Some (0, r', cn', m')"
    "blk_fields r' = Some b'" "req_map_type b' = BIUS_DATAMAP_SIMPLE" using demo_map_one by blast
  from simple_copy_in_delivers [OF m _ _ run, of of_nat] run(1) show ?thesis
    unfolding segs addrs by (auto simp: demo_vma_def)
qed






end
