(* ===== verification/Bius_Programs.thy ===== *)
theory Bius_Programs
  imports Bius_Library Bius_Zoned Bius_Block_Dev
begin

text \<open>
  The main functions of the example programs (ramdisk.c, zoned-ramdisk.c, passthrough.c,
  zoned-passthrough.c): the options they fill in, what they ask of the environment, and the call of
  \<open>bius_main\<close>, which is followed for \<open>n\<close> commands as in the library. What they print is left out.
\<close>

section \<open>Options\<close>

text \<open>\<^verbatim>\<open>strncpy\<close> of a string literal into the name field; the rest of the structure is zeroed by its initialiser.\<close>

definition name_field :: "string \<Rightarrow> byte list" where
  "name_field name = strncpy (map (of_nat \<circ> of_char) name) MAX_DISK_NAME_LEN"

definition program_options :: "blk_zoned_model \<Rightarrow> u64 \<Rightarrow> string \<Rightarrow> bius_block_device_options" where
  "program_options model disk_size name = \<lparr>opt_model = model, opt_num_threads = 4, opt_disk_size = disk_size,
     opt_max_open_zones = 0, opt_max_active_zones = 0, opt_disk_name = name_field name\<rparr>"

section \<open>Ramdisks\<close>

definition ramdisk_main ::
  "'w fd_api \<Rightarrow> process_env \<Rightarrow> main_env \<Rightarrow> nat \<Rightarrow> mem \<Rightarrow> 'w \<Rightarrow> ('w, ramdisk) bius_main_result option" where
  "ramdisk_main fd env me n m w =
     bius_main fd env me (Some ramdisk_operations) (Some ramdisk_options) n m ramdisk_initial w"

text \<open>
  \<open>set_interrupt_handler\<close> with the results of \<^verbatim>\<open>sigemptyset\<close> and \<^verbatim>\<open>sigaction\<close>: \<open>Some n\<close> is an exit. \<open>init_ok\<close>
  says that the allocations and spin locks of \<open>initialize\<close> succeed.
\<close>

definition set_interrupt_handler :: "int \<Rightarrow> int \<Rightarrow> int option" where
  "set_interrupt_handler sigemptyset sigaction =
     (if sigemptyset < 0 then Some 1 else if sigaction < 0 then Some 1 else None)"

definition zoned_ramdisk_main ::
  "'w fd_api \<Rightarrow> process_env \<Rightarrow> main_env \<Rightarrow> (blk_zone \<Rightarrow> byte list) \<Rightarrow> int \<Rightarrow> int \<Rightarrow> bool \<Rightarrow> nat \<Rightarrow> mem \<Rightarrow> 'w
     \<Rightarrow> ('w, ramdisk zoned_state) bius_main_result option" where
  "zoned_ramdisk_main fd env me enc sigemptyset sigaction init_ok n m w =
     (case set_interrupt_handler sigemptyset sigaction of
        Some e \<Rightarrow> Some (Main_exit e)
      | None \<Rightarrow>
          if \<not> init_ok then Some (Main_exit 1)
          else do {
            d \<leftarrow> initialize zoned_ramdisk_config ramdisk_initial;
            bius_main fd env me (Some (zoned_ramdisk_operations enc))
              (Some (program_options BLK_ZONED_HM (of_nat RAMDISK_SIZE) ''zoned-ramdisk'')) n m d w
          })"

section \<open>Passthroughs\<close>

text \<open>The target: \<^verbatim>\<open>open\<close> of a path, and the \<^verbatim>\<open>BLKGETSIZE64\<close> ioctl, \<open>None\<close> for their failure.\<close>

record 'f target_env =
  te_open :: "string \<Rightarrow> 'f option"
  te_blkgetsize64 :: "'f \<Rightarrow> u64 option"

definition open_target :: "'f target_env \<Rightarrow> string list \<Rightarrow> ('f \<times> u64) option" where
  "open_target target argv =
     (if length argv < 2 then None
      else do {
        target_fd \<leftarrow> te_open target (argv ! 1);
        size_in_bytes \<leftarrow> te_blkgetsize64 target target_fd;
        Some (target_fd, size_in_bytes)
      })"

definition passthrough_main ::
  "'f file_api \<Rightarrow> 'f target_env \<Rightarrow> 'w fd_api \<Rightarrow> process_env \<Rightarrow> main_env \<Rightarrow> string list \<Rightarrow> nat \<Rightarrow> mem \<Rightarrow> 'w
     \<Rightarrow> ('w, 'f) bius_main_result option" where
  "passthrough_main api target fd env me argv n m w =
     (case open_target target argv of
        None \<Rightarrow> Some (Main_return 1 0)
      | Some (target_fd, disk_size) \<Rightarrow>
          bius_main fd env me (Some (passthrough_operations api))
            (Some (program_options BLK_ZONED_NONE disk_size ''passthrough'')) n m target_fd w)"

definition zoned_passthrough_main ::
  "'f file_api \<Rightarrow> 'f target_env \<Rightarrow> 'w fd_api \<Rightarrow> process_env \<Rightarrow> main_env \<Rightarrow> (blk_zone \<Rightarrow> byte list) \<Rightarrow> bool
     \<Rightarrow> string list \<Rightarrow> nat \<Rightarrow> mem \<Rightarrow> 'w \<Rightarrow> ('w, 'f zoned_state) bius_main_result option" where
  "zoned_passthrough_main api target fd env me enc init_ok argv n m w =
     (case open_target target argv of
        None \<Rightarrow> Some (Main_return 1 0)
      | Some (target_fd, target_bytes) \<Rightarrow>
          if \<not> init_ok then Some (Main_exit 1)
          else do {
            d \<leftarrow> initialize (zoned_passthrough_config target_bytes) target_fd;
            bius_main fd env me (Some (zoned_passthrough_operations target_bytes api enc))
              (Some (program_options BLK_ZONED_HM (zoned_disk_size (zoned_passthrough_config target_bytes))
                 ''zoned-passthrough'')) n m d w
          })"

end
