(* ===== verification/Bius_Startup_Claims.thy ===== *)
theory Bius_Startup_Claims
  imports Bius_Programs Bius_System_Claims
begin

text \<open>
  Starting a program over the module: the main thread creates the device, the other threads join it under
  its name.
\<close>

section \<open>Names\<close>

text \<open>The name in the options, and what a joining thread sends of it.\<close>

lemma options_name:
  "opt_disk_name (options_of_bytes (mem_read m a SIZEOF_OPTIONS)) = mem_read m (a + DISK_NAME_OFFSET) MAX_DISK_NAME_LEN"
  by (rule nth_equalityI) (auto simp: options_of_bytes_def bius_const mem_read_def add.assoc)

lemma sent_name:
  assumes "0 \<in> set (mem_read m a DISK_NAME_LEN)"
  defines "n \<equiv> length (takeWhile (\<lambda>b. b \<noteq> 0) (mem_read m a DISK_NAME_LEN))"
  shows "n < DISK_NAME_LEN"
    and "c_str DISK_NAME_LEN (blit (replicate DISK_NAME_LEN 0) 0 (mem_read m a n)) = c_str DISK_NAME_LEN (mem_read m a DISK_NAME_LEN)"
proof -
  let ?name = "mem_read m a DISK_NAME_LEN"
  show n: "n < DISK_NAME_LEN"
    using assms(1) takeWhile_eq_all_conv [of "\<lambda>b. b \<noteq> 0" ?name] length_takeWhile_le [of "\<lambda>b. b \<noteq> 0" ?name]
      takeWhile_eq_take [of "\<lambda>b. b \<noteq> 0" ?name]
    by (metis le_neq_implies_less length_mem_read n_def take_all order_refl)
  then have pre: "mem_read m a n = takeWhile (\<lambda>b. b \<noteq> 0) ?name"
    using take_mem_read [of n DISK_NAME_LEN m a] takeWhile_eq_take [of "\<lambda>b. b \<noteq> 0" ?name] by (simp add: n_def)
  have "takeWhile (\<lambda>b. b \<noteq> 0) (takeWhile (\<lambda>b. b \<noteq> 0) ?name @ replicate (DISK_NAME_LEN - n) 0) = takeWhile (\<lambda>b. b \<noteq> 0) ?name"
    using set_takeWhileD by (subst takeWhile_append2) (fastforce simp: takeWhile_replicate)+
  then show "c_str DISK_NAME_LEN (blit (replicate DISK_NAME_LEN 0) 0 (mem_read m a n)) = c_str DISK_NAME_LEN ?name"
    using n unfolding pre by (simp add: c_str_def blit_def flip: n_def)
qed

section \<open>The two messages\<close>

text \<open>A connection that has no device yet, of a thread that runs nothing on it.\<close>

definition fresh_conn :: "ptr \<Rightarrow> 'bio kstate \<Rightarrow> bool" where
  "fresh_conn c s \<longleftrightarrow> (\<exists>cn. ks_conns s c = Some cn \<and> cn_block_dev cn = None \<and> cn_sending cn = None)"

definition create_succeeds :: "create_env \<Rightarrow> ptr \<Rightarrow> bool" where
  "create_succeeds env d \<longleftrightarrow> ce_kmalloc env = Some d \<and> 0 \<le> ce_register_blkdev env \<and> ce_alloc_disk env \<and>
     0 \<le> ce_alloc_tag_set env \<and> 0 \<le> ce_init_queue env"

lemma user_copy: "copy_from_user (user_of m) a n = (0, mem_read m a n)"
  by (simp add: copy_from_user_def user_of_def)

lemma create_message_run:
  assumes env: "create_succeeds env d" and c: "fresh_conn c s" and a: "a < 2 ^ 64"
    and options: "options = options_of_bytes (mem_read m a SIZEOF_OPTIONS)" "0 \<in> set (opt_disk_name options)"
  shows "\<exists>s1 cn. user_create_block_device (kernel_fd api z env c) options a m s = Some (Inr s1) \<and>
    ks_devs s1 = (ks_devs s)(d \<mapsto> (new_block_device options (ce_register_blkdev env) d)\<lparr>bd_num_connection := 1\<rparr>) \<and>
    ks_all_disk_list s1 = ks_all_disk_list s @ [d] \<and> ks_conns s c = Some cn \<and>
    ks_conns s1 = (ks_conns s)(c \<mapsto> cn\<lparr>cn_block_dev := Some d\<rparr>)"
proof -
  obtain cn where cn: "ks_conns s c = Some cn" "cn_block_dev cn = None" using c by (auto simp: fresh_conn_def)
  obtain n where n: "disk_name_strlen options = Some n" using options(2) by (simp add: disk_name_strlen_def)
  let ?h = "\<lparr>u2k_id = 0, u2k_union = u2k_init_union (bius_req_code BIUS_CREATE) (of_nat n), u2k_user_data = of_nat a\<rparr>"
  have h: "u2k_type ?h = bius_req_code BIUS_CREATE" "unat (u2k_user_data ?h) = a"
    using u2k_init_type [of ?h] unat_address [OF a] by auto
  let ?dev = "new_block_device options (ce_register_blkdev env) d"
  let ?s0 = "(put_dev d ?dev s)\<lparr>ks_all_disk_list := ks_all_disk_list s @ [d]\<rparr>"
  let ?s1 = "if opt_model options \<noteq> BLK_ZONED_NONE then bius_revalidate d ?s0 else ?s0"
  have "create_block_device env options s = (0, Some d, [Kmalloc_device, Register_blkdev (opt_disk_name options), Alloc_disk,
      Alloc_tag_set, Init_queue, Add_disk], ?s0)"
    using env by (simp add: create_block_device_def create_succeeds_def Let_def)
  then have "init_device env (user_of m) ?h s = Some (Inr (d, ?s1))"
    using h by (simp add: init_device_def user_copy options(1)) 
  then have "bius_dev_write api False z env (user_of m) SIZEOF_U2K_HEADER ?h c SIZEOF_U2K_HEADER s =
      Some (int SIZEOF_U2K_HEADER, put_conn c (cn\<lparr>cn_block_dev := Some d\<rparr>) (put_dev d (?dev\<lparr>bd_num_connection := 1\<rparr>) ?s1))"
    using cn by (simp add: bius_dev_write_def handle_initialization_def bius_revalidate_def bius_sel new_block_device_def
        init_bius_block_device_def) (simp add: SIZEOF_U2K_HEADER_def)
  then have "user_create_block_device (kernel_fd api z env c) options a m s =
      Some (Inr (put_conn c (cn\<lparr>cn_block_dev := Some d\<rparr>) (put_dev d (?dev\<lparr>bd_num_connection := 1\<rparr>) ?s1)))"
    using n by (simp add: user_create_block_device_def init_message_def kernel_fd_def SIZEOF_U2K_HEADER_def)
  then show ?thesis using cn(1) by (simp add: bius_sel bius_revalidate_def)
qed

lemma connect_message_run:
  assumes dev: "ks_all_disk_list s = ds @ [d]" "ks_devs s d = Some dev"
      "c_str DISK_NAME_LEN (bd_disk_name dev) = c_str DISK_NAME_LEN (mem_read m a DISK_NAME_LEN)"
    and c: "fresh_conn c s" and a: "a < 2 ^ 64"
    and options: "opt_disk_name options = mem_read m a DISK_NAME_LEN" "0 \<in> set (opt_disk_name options)"
  shows "\<exists>s1 cn. connect_block_device (kernel_fd api z env c) options a m s = Some (Inr s1) \<and>
    ks_devs s1 = (ks_devs s)(d \<mapsto> dev\<lparr>bd_num_connection := bd_num_connection dev + 1\<rparr>) \<and>
    ks_conns s c = Some cn \<and> ks_conns s1 = (ks_conns s)(c \<mapsto> cn\<lparr>cn_block_dev := Some d\<rparr>)"
proof -
  obtain cn where cn: "ks_conns s c = Some cn" "cn_block_dev cn = None" using c by (auto simp: fresh_conn_def)
  define n where "n = length (takeWhile (\<lambda>b. b \<noteq> 0) (mem_read m a DISK_NAME_LEN))"
  have n: "disk_name_strlen options = Some n" using options by (simp add: disk_name_strlen_def n_def)
  note name = sent_name [OF options(2) [unfolded options(1)], folded n_def]
  let ?h = "\<lparr>u2k_id = 0, u2k_union = u2k_init_union (bius_req_code BIUS_CONNECT) (of_nat n), u2k_user_data = of_nat a\<rparr>"
  have "unat (of_nat n :: u32) = n" using name(1) by (intro of_nat_inverse [OF refl]) (simp add: DISK_NAME_LEN_def)
  then have h: "u2k_type ?h = bius_req_code BIUS_CONNECT" "unat (u2k_user_data ?h) = a" "unat (u2k_length ?h) = n"
    using u2k_init_type [of ?h] u2k_init_length [of ?h] unat_address [OF a] by auto
  have "get_block_device (blit (replicate DISK_NAME_LEN 0) 0 (mem_read m a n)) s = Some (Some d)"
    using dev name(2) by (simp add: get_block_device_def strncmp_eq_def)
  then have "init_device env (user_of m) ?h s = Some (Inr (d, s))"
    using h name(1) by (simp add: init_device_def user_copy Let_def min_def)
  then have "bius_dev_write api False z env (user_of m) SIZEOF_U2K_HEADER ?h c SIZEOF_U2K_HEADER s =
      Some (int SIZEOF_U2K_HEADER, put_conn c (cn\<lparr>cn_block_dev := Some d\<rparr>)
        (put_dev d (dev\<lparr>bd_num_connection := bd_num_connection dev + 1\<rparr>) s))"
    using cn dev(2) by (simp add: bius_dev_write_def handle_initialization_def) (simp add: SIZEOF_U2K_HEADER_def)
  then have "connect_block_device (kernel_fd api z env c) options a m s =
      Some (Inr (put_conn c (cn\<lparr>cn_block_dev := Some d\<rparr>) (put_dev d (dev\<lparr>bd_num_connection := bd_num_connection dev + 1\<rparr>) s)))"
    using n by (simp add: connect_block_device_def init_message_def kernel_fd_def SIZEOF_U2K_HEADER_def)
  then show ?thesis using cn(1) by (simp add: bius_sel)
qed

section \<open>Starting a program\<close>

definition all_ok :: "process_env \<Rightarrow> main_env \<Rightarrow> bool" where
  "all_ok pe me \<longleftrightarrow> \<not> pe_datamap pe \<and> pe_copy_buffer pe \<noteq> None \<and> me_threads_ok me \<and> me_open_ok me \<and>
     (\<forall>i. 0 \<le> me_pthread_create me i)"

lemma start_threads_ok: "\<forall>i. 0 \<le> me_pthread_create me i \<Longrightarrow> start_threads me is = None"
  by (induction "is") (auto simp: not_less)

text \<open>
  C11. A program's threads meet at one device. When nothing fails and the options lie in the process's memory
  with a terminated name, the main function creates the device, and a thread that is started afterwards on a
  connection of its own joins the same device, although it names it only by its name; both are then ready to
  take requests, the device counts two connections and has the size the program asked for, in sectors.
\<close>

theorem threads_share_device:
  assumes "create_succeeds env d" "fresh_conn c1 s" "fresh_conn c2 s" "c1 \<noteq> c2" "all_ok pe me"
    and "me_options_address me + SIZEOF_OPTIONS < 2 ^ 64"
    and "options = options_of_bytes (mem_read m (me_options_address me) SIZEOF_OPTIONS)" "0 \<in> set (opt_disk_name options)"
  shows "\<exists>sv1 sv2 dev. bius_main (kernel_fd api z env c1) pe me (Some ops) (Some options) 0 m disk s = Some (Main_serving sv1) \<and>
    thread_main (kernel_fd api z env c2) pe me ops options 0 m disk (sv_world sv1) = Some (Inr sv2) \<and>
    ks_devs (sv_world sv2) d = Some dev \<and> bd_num_connection dev = 2 \<and> bd_capacity dev = opt_disk_size options div 512 \<and>
    pending_at c1 (sv_world sv2) = Some [] \<and> pending_at c2 (sv_world sv2) = Some []"
proof -
  let ?a = "me_options_address me"
  let ?dev = "(new_block_device options (ce_register_blkdev env) d)\<lparr>bd_num_connection := 1\<rparr>"
  have a: "?a < 2 ^ 64" "?a + DISK_NAME_OFFSET < 2 ^ 64" using assms(6) by (simp_all add: bius_const)
  have name: "opt_disk_name options = mem_read m (?a + DISK_NAME_OFFSET) DISK_NAME_LEN"
    using options_name [of m ?a] assms(7) by (simp add: DISK_NAME_LEN_def MAX_DISK_NAME_LEN_def)
  from create_message_run [OF assms(1,2) a(1) assms(7,8), of api z] obtain s1 cn1 where
    s1: "user_create_block_device (kernel_fd api z env c1) options ?a m s = Some (Inr s1)"
      "ks_devs s1 = (ks_devs s)(d \<mapsto> ?dev)" "ks_all_disk_list s1 = ks_all_disk_list s @ [d]" "ks_conns s c1 = Some cn1"
      "ks_conns s1 = (ks_conns s)(c1 \<mapsto> cn1\<lparr>cn_block_dev := Some d\<rparr>)" by blast
  have dev: "ks_devs s1 d = Some ?dev" "c_str DISK_NAME_LEN (bd_disk_name ?dev) =
      c_str DISK_NAME_LEN (mem_read m (?a + DISK_NAME_OFFSET) DISK_NAME_LEN)" "fresh_conn c2 s1"
    using s1 assms(3,4) name by (auto simp: new_block_device_def init_bius_block_device_def fresh_conn_def)
  from connect_message_run [OF s1(3) dev a(2) name assms(8), of api z env] obtain s2 cn2 where
    s2: "connect_block_device (kernel_fd api z env c2) options (?a + DISK_NAME_OFFSET) m s1 = Some (Inr s2)"
      "ks_devs s2 = (ks_devs s1)(d \<mapsto> ?dev\<lparr>bd_num_connection := 2\<rparr>)" "ks_conns s1 c2 = Some cn2"
      "ks_conns s2 = (ks_conns s1)(c2 \<mapsto> cn2\<lparr>cn_block_dev := Some d\<rparr>)" by auto
  have run: "handle_requests fd pe ops 0 m disk w =
      Some (Inr \<lparr>sv_k2u = None, sv_answer = None, sv_mem = m, sv_dev = disk, sv_world = w\<rparr>)" for fd and w :: "'a kstate"
    using assms(5) by (auto simp: handle_requests_def all_ok_def)
  let ?sv = "\<lambda>w. \<lparr>sv_k2u = None, sv_answer = None, sv_mem = m, sv_dev = disk, sv_world = w\<rparr>"
  have "bius_main (kernel_fd api z env c1) pe me (Some ops) (Some options) 0 m disk s = Some (Main_serving (?sv s1))"
    using assms(5) s1(1) run by (simp add: bius_main_def bius_main_real_def all_ok_def start_threads_ok)
  moreover have "thread_main (kernel_fd api z env c2) pe me ops options 0 m disk s1 = Some (Inr (?sv s2))"
    using assms(5) s2(1) run by (simp add: thread_main_def all_ok_def)
  moreover have "pending_at c1 s2 = Some []" "pending_at c2 s2 = Some []"
    using s1(2,4,5) s2(2-4) assms(2-4)
    by (auto simp: pending_at_def fresh_conn_def new_block_device_def init_bius_block_device_def)
  ultimately show ?thesis
    using s2(2) by (intro exI [of _ "?sv s1"] exI [of _ "?sv s2"])
      (auto simp: new_block_device_def init_bius_block_device_def SECTOR_SIZE_def)
qed

text \<open>The image of a program's options in memory, and the ramdisk's.\<close>

fun le_bytes :: "nat \<Rightarrow> nat \<Rightarrow> byte list" where
  "le_bytes 0 v = []"
| "le_bytes (Suc n) v = of_nat (v mod 256) # le_bytes n (v div 256)"

lemma length_le_bytes [simp]: "length (le_bytes n v) = n"
  by (induction n arbitrary: v) auto

lemma le_nat_bytes: "v < 256 ^ n \<Longrightarrow> le_nat (le_bytes n v) = v"
proof (induction n arbitrary: v)
  case (Suc n)
  have "unat (of_nat (v mod 256) :: byte) = v mod 256" by (intro of_nat_inverse [OF refl]) simp
  moreover have "v div 256 < 256 ^ n" using Suc.prems by (simp add: less_mult_imp_div_less)
  ultimately show ?case using Suc.IH by simp
qed simp

definition options_image :: "u32 \<Rightarrow> bius_block_device_options \<Rightarrow> byte list" where
  "options_image model_code options = le_bytes 4 (unat model_code) @ le_bytes 4 (unat (opt_num_threads options)) @
     le_bytes 8 (unat (opt_disk_size options)) @ le_bytes 4 (unat (opt_max_open_zones options)) @
     le_bytes 4 (unat (opt_max_active_zones options)) @ opt_disk_name options"

lemma le_nat_word32: "le_nat (le_bytes 4 (unat (x :: u32))) = unat x"
  using unsigned_less [of x, where 'a = nat] by (intro le_nat_bytes) simp

lemma le_nat_word64: "le_nat (le_bytes 8 (unat (x :: u64))) = unat x"
  using unsigned_less [of x, where 'a = nat] by (intro le_nat_bytes) simp

lemma options_image_read:
  assumes "blk_zoned_model_of_code model_code = opt_model options" "length (opt_disk_name options) = MAX_DISK_NAME_LEN"
  shows "options_of_bytes (options_image model_code options) = options"
  using assms
  by (simp add: options_of_bytes_def options_image_def bytes_at_def le_nat_word32 le_nat_word64 MAX_DISK_NAME_LEN_def)

text \<open>What every program's main function does once its store is prepared.\<close>

definition options_stored :: "main_env \<Rightarrow> u32 \<Rightarrow> bius_block_device_options \<Rightarrow> mem \<Rightarrow> bool" where
  "options_stored me model_code options m \<longleftrightarrow> me_options_address me + SIZEOF_OPTIONS < 2 ^ 64 \<and>
     mem_read m (me_options_address me) SIZEOF_OPTIONS = options_image model_code options"

definition serves_new_disk :: "ptr \<Rightarrow> ptr \<Rightarrow> u64 \<Rightarrow> 'd \<Rightarrow> ('bio kstate, 'd) bius_main_result option \<Rightarrow> bool" where
  "serves_new_disk c d sectors disk result \<longleftrightarrow> (\<exists>sv dev. result = Some (Main_serving sv) \<and> sv_dev sv = disk \<and>
     ks_devs (sv_world sv) d = Some dev \<and> bd_capacity dev = sectors \<and> pending_at c (sv_world sv) = Some [])"

lemma bius_main_starts:
  assumes env: "create_succeeds env d" and c: "fresh_conn c s" and ok: "all_ok pe me"
    and m: "options_stored me model_code options m" "blk_zoned_model_of_code model_code = opt_model options"
    and name: "length (opt_disk_name options) = MAX_DISK_NAME_LEN" "0 \<in> set (opt_disk_name options)"
  shows "serves_new_disk c d (opt_disk_size options div 512) disk
    (bius_main (kernel_fd api z env c) pe me (Some ops) (Some options) 0 m disk s)"
proof -
  let ?a = "me_options_address me"
  have opt: "options = options_of_bytes (mem_read m ?a SIZEOF_OPTIONS)" "?a < 2 ^ 64"
    using m options_image_read [OF m(2) name(1)] by (simp_all add: options_stored_def)
  from create_message_run [OF env c opt(2,1) name(2), of api z] obtain s1 cn where
    s1: "user_create_block_device (kernel_fd api z env c) options ?a m s = Some (Inr s1)"
      "ks_devs s1 = (ks_devs s)(d \<mapsto> (new_block_device options (ce_register_blkdev env) d)\<lparr>bd_num_connection := 1\<rparr>)"
      "ks_conns s c = Some cn" "ks_conns s1 = (ks_conns s)(c \<mapsto> cn\<lparr>cn_block_dev := Some d\<rparr>)" by blast
  have "bius_main (kernel_fd api z env c) pe me (Some ops) (Some options) 0 m disk s =
      Some (Main_serving \<lparr>sv_k2u = None, sv_answer = None, sv_mem = m, sv_dev = disk, sv_world = s1\<rparr>)"
    using ok s1(1) by (auto simp: bius_main_def bius_main_real_def handle_requests_def all_ok_def start_threads_ok)
  then show ?thesis
    using s1(2-4) c by (auto simp: serves_new_disk_def pending_at_def fresh_conn_def new_block_device_def
        init_bius_block_device_def SECTOR_SIZE_def)
qed

lemma name_fields:
  "length (opt_disk_name ramdisk_options) = MAX_DISK_NAME_LEN" "0 \<in> set (opt_disk_name ramdisk_options)"
  "length (name_field ''zoned-ramdisk'') = MAX_DISK_NAME_LEN" "0 \<in> set (name_field ''zoned-ramdisk'')"
  "length (name_field ''passthrough'') = MAX_DISK_NAME_LEN" "0 \<in> set (name_field ''passthrough'')"
  by (simp_all add: ramdisk_options_def ramdisk_name_def name_field_def strncpy_def c_str_def MAX_DISK_NAME_LEN_def Let_def)

text \<open>
  C29. The programs come up as the disks they mean to be. When nothing fails, the ramdisk program serves 32 GiB
  of zeros as a disk of 67108864 sectors, the zoned ramdisk the same size with no zone open and the zone
  invariant established, and the passthrough its target with the target's size; a passthrough without a target, or whose
  target cannot be opened or measured, returns one without touching the module.
\<close>

theorem programs_start:
  assumes "create_succeeds env d" "fresh_conn c s" "all_ok pe me"
  shows "(options_stored me 0 ramdisk_options m \<longrightarrow>
      serves_new_disk c d 67108864 ramdisk_initial (ramdisk_main (kernel_fd api z env c) pe me 0 m s)) \<and>
    (options_stored me 2 (program_options BLK_ZONED_HM (of_nat RAMDISK_SIZE) ''zoned-ramdisk'') m \<longrightarrow>
      (\<exists>zs. zinv zoned_ramdisk_config zs \<and> num_open_zones zs = 0 \<and> raw_store zs = ramdisk_initial \<and>
         serves_new_disk c d 67108864 zs (zoned_ramdisk_main (kernel_fd api z env c) pe me enc 0 0 True 0 m s))) \<and>
    (\<forall>target_fd target_bytes. open_target target argv = Some (target_fd, target_bytes) \<longrightarrow>
       options_stored me 0 (program_options BLK_ZONED_NONE target_bytes ''passthrough'') m \<longrightarrow>
       serves_new_disk c d (target_bytes div 512) target_fd (passthrough_main file target (kernel_fd api z env c) pe me argv 0 m s)) \<and>
    (open_target target argv = None \<longrightarrow>
       passthrough_main file target (kernel_fd api z env c) pe me argv 0 m s = Some (Main_return 1 0))"
proof (intro conjI impI allI)
  note start = bius_main_starts [OF assms, of _ _ m]
  show "serves_new_disk c d 67108864 ramdisk_initial (ramdisk_main (kernel_fd api z env c) pe me 0 m s)"
    if "options_stored me 0 ramdisk_options m"
    using start [OF that, of ramdisk_initial api z ramdisk_operations] name_fields(1,2)
    by (simp add: ramdisk_main_def blk_zoned_model_of_code_def) (simp add: ramdisk_options_def RAMDISK_SIZE_def)
  show "\<exists>zs. zinv zoned_ramdisk_config zs \<and> num_open_zones zs = 0 \<and> raw_store zs = ramdisk_initial \<and>
      serves_new_disk c d 67108864 zs (zoned_ramdisk_main (kernel_fd api z env c) pe me enc 0 0 True 0 m s)"
    if "options_stored me 2 (program_options BLK_ZONED_HM (of_nat RAMDISK_SIZE) ''zoned-ramdisk'') m"
  proof -
    have "raw_store zr_init = ramdisk_initial"
      using initialize_counters [OF zr_initialize] by simp
    moreover have "serves_new_disk c d 67108864 zr_init (zoned_ramdisk_main (kernel_fd api z env c) pe me enc 0 0 True 0 m s)"
      using start [OF that, of zr_init api z "zoned_ramdisk_operations enc"] name_fields(3,4)
      by (simp add: zoned_ramdisk_main_def set_interrupt_handler_def zr_initialize blk_zoned_model_of_code_def program_options_def
          RAMDISK_SIZE_def)
    ultimately show ?thesis using zr_zinv zr_counters(1) by blast
  qed
  show "serves_new_disk c d (target_bytes div 512) target_fd (passthrough_main file target (kernel_fd api z env c) pe me argv 0 m s)"
    if "open_target target argv = Some (target_fd, target_bytes)"
      "options_stored me 0 (program_options BLK_ZONED_NONE target_bytes ''passthrough'') m" for target_fd target_bytes
    using start [OF that(2), of target_fd api z "passthrough_operations file"] name_fields(5,6) that(1)
    by (simp add: passthrough_main_def blk_zoned_model_of_code_def program_options_def)
qed (simp add: passthrough_main_def)

text \<open>Two connections of a process whose memory holds the ramdisk's options at address 4096.\<close>

definition start_env :: main_env where
  "start_env = \<lparr>me_options_address = 4096, me_threads_ok = True, me_open_ok = True, me_pthread_create = (\<lambda>_. 0)\<rparr>"

definition start_process :: process_env where
  "start_process = \<lparr>pe_datamap = False, pe_copy_buffer = Some 65536, pe_malloc = (\<lambda>_. 0)\<rparr>"

definition start_mem :: mem where
  "start_mem = mem_write (\<lambda>_. 0) 4096 (options_image 0 ramdisk_options)"

definition start_state :: "seg_bio kstate" where
  "start_state = put_conn 21 demo_conn demo_open"

lemma start_facts:
  "create_succeeds demo_create 10" "fresh_conn 20 start_state" "fresh_conn 21 start_state" "all_ok start_process start_env"
  "options_stored start_env 0 ramdisk_options start_mem"
  "ramdisk_options = options_of_bytes (mem_read start_mem (me_options_address start_env) SIZEOF_OPTIONS)"
proof -
  have "length (options_image 0 ramdisk_options) = SIZEOF_OPTIONS"
    using name_fields(1) by (simp add: options_image_def MAX_DISK_NAME_LEN_def SIZEOF_OPTIONS_def)
  then have "mem_read start_mem 4096 SIZEOF_OPTIONS = options_image 0 ramdisk_options"
    unfolding start_mem_def by (metis mem_read_write_same)
  moreover have "options_of_bytes (options_image 0 ramdisk_options) = ramdisk_options"
    using name_fields(1) by (intro options_image_read) (simp_all add: blk_zoned_model_of_code_def ramdisk_options_def)
  ultimately show "options_stored start_env 0 ramdisk_options start_mem"
    "ramdisk_options = options_of_bytes (mem_read start_mem (me_options_address start_env) SIZEOF_OPTIONS)"
    by (simp_all add: options_stored_def start_env_def SIZEOF_OPTIONS_def)
qed (simp_all add: create_succeeds_def demo_create_def fresh_conn_def start_state_def demo_open_sel bius_sel demo_conn_def
    all_ok_def start_process_def start_env_def)

theorem programs_start_witness:
  "serves_new_disk 20 10 67108864 ramdisk_initial
    (ramdisk_main (kernel_fd seg_api 0 demo_create 20) start_process start_env 0 start_mem start_state)"
  using programs_start [OF start_facts(1,2,4)] start_facts(5) by blast

theorem threads_share_device_witness:
  "\<exists>sv1 sv2 dev. bius_main (kernel_fd seg_api 0 demo_create 20) start_process start_env (Some ramdisk_operations) (Some ramdisk_options)
      0 start_mem ramdisk_initial start_state = Some (Main_serving sv1) \<and>
    thread_main (kernel_fd seg_api 0 demo_create 21) start_process start_env ramdisk_operations ramdisk_options 0 start_mem
      ramdisk_initial (sv_world sv1) = Some (Inr sv2) \<and>
    ks_devs (sv_world sv2) 10 = Some dev \<and> bd_num_connection dev = 2"
proof -
  have "me_options_address start_env + SIZEOF_OPTIONS < 2 ^ 64" by (simp add: start_env_def SIZEOF_OPTIONS_def)
  then show ?thesis
    using threads_share_device [OF start_facts(1-3) _ start_facts(4) _ start_facts(6) name_fields(2), of seg_api 0 ramdisk_operations ramdisk_initial]
    by auto
qed

end
