(* ===== verification/Bius_Blktest.thy ===== *)
theory Bius_Blktest
  imports Bius_Backend
begin

text \<open>
  The test tool (blktest.c): it writes a pattern to a block device, reads it back and compares. The
  system calls on the device are parameters (\<open>blk_file\<close>). \<open>wrapv\<close> says whether the compiler makes signed
  arithmetic wrap around; without it an overflow is undefined (\<open>None\<close>).
\<close>

section \<open>The program\<close>

record 'f blk_file =
  bf_write :: "'f \<Rightarrow> byte list \<Rightarrow> int \<times> 'f"
  bf_lseek :: "'f \<Rightarrow> int \<times> 'f"
  bf_read :: "'f \<Rightarrow> nat \<Rightarrow> int \<times> byte list \<times> 'f"

datatype test_mode = TEST_MODE_SIMPLE | TEST_MODE_HARD

definition buffer_size :: nat where "buffer_size = 128 * 1024"
definition simple_test_seed :: int where "simple_test_seed = 541615336"
definition hard_test_size :: nat where "hard_test_size = 1 * 1024 * 1024 * 1024"
definition hard_test_iteration :: nat where "hard_test_iteration = hard_test_size div buffer_size"

definition c_int :: "bool \<Rightarrow> int \<Rightarrow> int option" where
  "c_int wrapv x = (if - (2 ^ 31) \<le> x \<and> x < 2 ^ 31 then Some x else if wrapv then Some (to_c_int x) else None)"

definition pattern :: "bool \<Rightarrow> int \<Rightarrow> int \<Rightarrow> byte option" where
  "pattern wrapv seed index = do {
     product \<leftarrow> c_int wrapv (seed * index);
     total_value \<leftarrow> c_int wrapv (index + product);
     Some (word_of_int total_value)
   }"

text \<open>The loops over the buffer: storing the pattern, and comparing with it up to the first difference.\<close>

fun fill :: "bool \<Rightarrow> int \<Rightarrow> nat list \<Rightarrow> byte list option" where
  "fill wrapv seed [] = Some []"
| "fill wrapv seed (i # is) = do {
     b \<leftarrow> pattern wrapv seed (int i);
     bs \<leftarrow> fill wrapv seed is;
     Some (b # bs)
   }"

fun verify :: "bool \<Rightarrow> int \<Rightarrow> nat list \<Rightarrow> byte list \<Rightarrow> bool option" where
  "verify wrapv seed (i # is) (b # bs) = do {
     p \<leftarrow> pattern wrapv seed (int i);
     (if b \<noteq> p then Some False else verify wrapv seed is bs)
   }"
| "verify wrapv seed _ _ = Some True"

text \<open>A read into the buffer replaces as many bytes as it says; more than the buffer holds is undefined.\<close>

definition read_into :: "byte list \<Rightarrow> int \<Rightarrow> byte list \<Rightarrow> byte list option" where
  "read_into buffer result bs =
     (if nat result \<le> length buffer \<and> nat result \<le> length bs then Some (blit buffer 0 (take (nat result) bs)) else None)"

definition do_test_simple :: "'f blk_file \<Rightarrow> bool \<Rightarrow> 'f \<Rightarrow> int option" where
  "do_test_simple api wrapv f = do {
     buffer \<leftarrow> fill wrapv simple_test_seed [0 ..< buffer_size];
     let (result, f) = bf_write api f buffer;
     (if result \<le> 0 then Some 1
      else let (result, f) = bf_lseek api f
           in if result < 0 then Some 1
              else let (result, bs, f) = bf_read api f buffer_size
                   in if result \<le> 0 then Some 1
                      else do {
                        buffer \<leftarrow> read_into buffer result bs;
                        ok \<leftarrow> verify wrapv simple_test_seed [0 ..< buffer_size] buffer;
                        Some (if ok then 0 else 1)
                      })
   }"

text \<open>
  The two loops of \<open>do_test_hard\<close> from iteration \<open>i\<close> on, \<open>n\<close> iterations left: \<open>Inl\<close> is an early return. The
  iteration number is passed to \<open>pattern\<close> as an \<^verbatim>\<open>int\<close>.
\<close>

fun hard_write :: "'f blk_file \<Rightarrow> bool \<Rightarrow> nat \<Rightarrow> nat \<Rightarrow> byte list \<Rightarrow> 'f \<Rightarrow> (int + byte list \<times> 'f) option" where
  "hard_write api wrapv i 0 buffer f = Some (Inr (buffer, f))"
| "hard_write api wrapv i (Suc n) buffer f = do {
     buffer \<leftarrow> fill wrapv (to_c_int (int i)) [0 ..< buffer_size];
     let (result, f) = bf_write api f buffer;
     (if result \<le> 0 then Some (Inl 1)
      else if result < int buffer_size then Some (Inl 1)
      else hard_write api wrapv (Suc i) n buffer f)
   }"

fun hard_read :: "'f blk_file \<Rightarrow> bool \<Rightarrow> nat \<Rightarrow> nat \<Rightarrow> byte list \<Rightarrow> 'f \<Rightarrow> (int + byte list \<times> 'f) option" where
  "hard_read api wrapv i 0 buffer f = Some (Inr (buffer, f))"
| "hard_read api wrapv i (Suc n) buffer f =
     (let (result, bs, f) = bf_read api f buffer_size
      in if result \<le> 0 then Some (Inl 1)
         else if result < int buffer_size then Some (Inl 1)
         else do {
           buffer \<leftarrow> read_into buffer result bs;
           ok \<leftarrow> verify wrapv (to_c_int (int i)) [0 ..< buffer_size] buffer;
           (if ok then hard_read api wrapv (Suc i) n buffer f else Some (Inl 1))
         })"

definition do_test_hard :: "'f blk_file \<Rightarrow> bool \<Rightarrow> byte list \<Rightarrow> 'f \<Rightarrow> int option" where
  "do_test_hard api wrapv buffer f = do {
     r \<leftarrow> hard_write api wrapv 0 hard_test_iteration buffer f;
     (case r of
        Inl ret \<Rightarrow> Some ret
      | Inr (buffer, f) \<Rightarrow>
          let (result, f) = bf_lseek api f
          in if result < 0 then Some 1
             else do {
               r \<leftarrow> hard_read api wrapv 0 hard_test_iteration buffer f;
               (case r of Inl ret \<Rightarrow> Some ret | Inr _ \<Rightarrow> Some 0)
             })
   }"

text \<open>
  \<open>open_device\<close> gives the opened device or fails; \<open>aligned_alloc\<close> gives the buffer with its initial contents.
\<close>

definition blktest_main ::
  "'f blk_file \<Rightarrow> bool \<Rightarrow> (string \<Rightarrow> 'f option) \<Rightarrow> byte list option \<Rightarrow> string list \<Rightarrow> int option" where
  "blktest_main api wrapv open_device aligned_alloc argv =
     (if length argv < 2 then Some 1
      else case open_device (argv ! 1) of
        None \<Rightarrow> Some 1
      | Some fd \<Rightarrow>
          (let mode = (if 3 \<le> length argv \<and> argv ! 2 = ''--hard'' then TEST_MODE_HARD else TEST_MODE_SIMPLE)
           in case aligned_alloc of
                None \<Rightarrow> Some 1
              | Some buffer \<Rightarrow>
                  (case mode of
                     TEST_MODE_SIMPLE \<Rightarrow> do_test_simple api wrapv fd
                   | TEST_MODE_HARD \<Rightarrow> do_test_hard api wrapv buffer fd)))"

section \<open>The pattern\<close>

definition hard_pattern :: "nat \<Rightarrow> nat \<Rightarrow> byte" where
  "hard_pattern i j = of_nat (j + i * j)"

definition hard_chunk :: "nat \<Rightarrow> byte list" where
  "hard_chunk i = map (hard_pattern i) [0 ..< buffer_size]"

text \<open>In the hard test the arithmetic stays inside an \<^verbatim>\<open>int\<close>.\<close>

lemma hard_iterations: "hard_test_iteration = 8192"
  by (simp add: hard_test_iteration_def hard_test_size_def buffer_size_def)

lemma pattern_hard:
  assumes "i < hard_test_iteration" "j < buffer_size"
  shows "pattern wrapv (to_c_int (int i)) (int j) = Some (hard_pattern i j)"
proof -
  have i: "i \<le> 8191" and j: "j \<le> 131071" using assms by (simp_all add: hard_iterations buffer_size_def)
  have "to_c_int (int i) = int i" using i by (intro to_c_int_small) simp_all
  moreover have "i * j \<le> 8191 * 131071" using mult_le_mono [OF i j] .
  then have "int i * int j \<le> 8191 * 131071" using zle_int [of "i * j" "8191 * 131071"] by simp
  then have "c_int wrapv (int i * int j) = Some (int i * int j)" "c_int wrapv (int j + int i * int j) = Some (int j + int i * int j)"
    using j by (auto simp: c_int_def intro: order_trans [of _ 0])
  ultimately show ?thesis by (simp add: pattern_def hard_pattern_def)
qed

lemma fill_pattern: "(\<And>i. i \<in> set is \<Longrightarrow> pattern wrapv seed (int i) = Some (p i)) \<Longrightarrow> fill wrapv seed is = Some (map p is)"
  by (induction "is") auto

lemma verify_pattern:
  "(\<And>i. i \<in> set is \<Longrightarrow> pattern wrapv seed (int i) = Some (p i)) \<Longrightarrow> length bs = length is \<Longrightarrow>
    verify wrapv seed is bs = Some (bs = map p is)"
proof (induction wrapv seed "is" bs rule: verify.induct)
  case (1 wrapv seed i "is" b bs)
  then show ?case by auto
qed auto

lemma hard_loops:
  assumes "i < hard_test_iteration"
  shows "fill wrapv (to_c_int (int i)) [0 ..< buffer_size] = Some (hard_chunk i)"
    and "length bs = buffer_size \<Longrightarrow> verify wrapv (to_c_int (int i)) [0 ..< buffer_size] bs = Some (bs = hard_chunk i)"
  using fill_pattern [of "[0 ..< buffer_size]"] verify_pattern [of "[0 ..< buffer_size]"] pattern_hard [OF assms]
  by (simp_all add: hard_chunk_def)

section \<open>What the hard test decides\<close>

text \<open>The device after the first \<open>i\<close> writes and after \<open>i\<close> reads.\<close>

fun after_writes :: "'f blk_file \<Rightarrow> 'f \<Rightarrow> nat \<Rightarrow> 'f" where
  "after_writes api f 0 = f"
| "after_writes api f (Suc i) = snd (bf_write api (after_writes api f i) (hard_chunk i))"

fun after_reads :: "'f blk_file \<Rightarrow> 'f \<Rightarrow> nat \<Rightarrow> 'f" where
  "after_reads api f 0 = f"
| "after_reads api f (Suc i) = snd (snd (bf_read api (after_reads api f i) buffer_size))"

definition write_complete :: "'f blk_file \<Rightarrow> 'f \<Rightarrow> nat \<Rightarrow> bool" where
  "write_complete api f i \<longleftrightarrow> int buffer_size \<le> fst (bf_write api (after_writes api f i) (hard_chunk i))"

definition read_matches :: "'f blk_file \<Rightarrow> 'f \<Rightarrow> nat \<Rightarrow> bool" where
  "read_matches api f i \<longleftrightarrow> (case bf_read api (after_reads api f i) buffer_size of (result, bs, f') \<Rightarrow>
     int buffer_size \<le> result \<and> take buffer_size bs = hard_chunk i)"

text \<open>What \<^verbatim>\<open>read\<close> promises: it stores as many bytes as it says and no more than asked for.\<close>

definition read_bounded :: "'f blk_file \<Rightarrow> bool" where
  "read_bounded api \<longleftrightarrow> (\<forall>f. case bf_read api f buffer_size of (result, bs, f') \<Rightarrow>
     result \<le> int buffer_size \<and> length bs = nat result)"

lemma buffer_pos: "0 < buffer_size"
  by (simp add: buffer_size_def)

lemma range_Suc:
  "(\<forall>k. i \<le> k \<and> k < i + Suc n \<longrightarrow> P k) \<longleftrightarrow> P i \<and> (\<forall>k. Suc i \<le> k \<and> k < Suc i + n \<longrightarrow> P k)"
  by (auto simp: Suc_le_eq) (metis le_neq_implies_less)

lemma hard_write_run:
  assumes "i + n \<le> hard_test_iteration" "length buffer = buffer_size"
  shows "\<exists>buffer'. length buffer' = buffer_size \<and> hard_write api wrapv i n buffer (after_writes api f i) =
    Some (if \<forall>k. i \<le> k \<and> k < i + n \<longrightarrow> write_complete api f k then Inr (buffer', after_writes api f (i + n)) else Inl 1)"
  using assms
proof (induction n arbitrary: i buffer)
  case (Suc n)
  obtain result f' where w: "bf_write api (after_writes api f i) (hard_chunk i) = (result, f')" by fastforce
  then have f': "after_writes api f (Suc i) = f'" by simp
  have chunk: "fill wrapv (to_c_int (int i)) [0 ..< buffer_size] = Some (hard_chunk i)" "length (hard_chunk i) = buffer_size"
    using hard_loops(1) Suc.prems by (simp_all add: hard_chunk_def)
  have c: "write_complete api f i \<longleftrightarrow> int buffer_size \<le> result" by (simp add: write_complete_def w)
  show ?case
  proof (cases "int buffer_size \<le> result")
    case True
    then have "hard_write api wrapv i (Suc n) buffer (after_writes api f i) = hard_write api wrapv (Suc i) n (hard_chunk i) f'"
      using chunk w buffer_pos by simp
    moreover obtain buffer' where "length buffer' = buffer_size" "hard_write api wrapv (Suc i) n (hard_chunk i) f' =
        Some (if \<forall>k. Suc i \<le> k \<and> k < Suc i + n \<longrightarrow> write_complete api f k then Inr (buffer', after_writes api f (Suc i + n)) else Inl 1)"
      using Suc.IH [of "Suc i" "hard_chunk i"] Suc.prems chunk(2) unfolding f' by auto
    ultimately show ?thesis using True unfolding range_Suc c by (intro exI [of _ buffer']) simp
  next
    case False
    then show ?thesis unfolding range_Suc c using chunk w Suc.prems by auto
  qed
qed auto

lemma hard_read_run:
  assumes "read_bounded api" "i + n \<le> hard_test_iteration" "length buffer = buffer_size"
  shows "\<exists>buffer'. hard_read api wrapv i n buffer (after_reads api f i) =
    Some (if \<forall>k. i \<le> k \<and> k < i + n \<longrightarrow> read_matches api f k then Inr (buffer', after_reads api f (i + n)) else Inl 1)"
  using assms(2,3)
proof (induction n arbitrary: i buffer)
  case (Suc n)
  obtain result bs f' where r: "bf_read api (after_reads api f i) buffer_size = (result, bs, f')" by (metis prod_cases3)
  then have f': "after_reads api f (Suc i) = f'" by simp
  have b: "result \<le> int buffer_size" "length bs = nat result" using assms(1) r by (auto simp: read_bounded_def split: prod.splits dest!: spec [of _ "after_reads api f i"])
  have c: "read_matches api f i \<longleftrightarrow> int buffer_size \<le> result \<and> take buffer_size bs = hard_chunk i" by (simp add: read_matches_def r)
  show ?case
  proof (cases "int buffer_size \<le> result")
    case True
    then have "result = int buffer_size" "length bs = buffer_size" using b by simp_all
    moreover from this have "read_into buffer result bs = Some bs" using Suc.prems by (simp add: read_into_def blit_def)
    moreover have "verify wrapv (to_c_int (int i)) [0 ..< buffer_size] bs = Some (bs = hard_chunk i)"
      using hard_loops(2) [of i bs] Suc.prems calculation(2) by simp
    ultimately have "hard_read api wrapv i (Suc n) buffer (after_reads api f i) =
        (if bs = hard_chunk i then hard_read api wrapv (Suc i) n bs f' else Some (Inl 1))"
      using r buffer_pos by simp
    moreover obtain buffer' where "hard_read api wrapv (Suc i) n bs f' =
        Some (if \<forall>k. Suc i \<le> k \<and> k < Suc i + n \<longrightarrow> read_matches api f k then Inr (buffer', after_reads api f (Suc i + n)) else Inl 1)"
      using Suc.IH [of "Suc i" bs] Suc.prems \<open>length bs = buffer_size\<close> unfolding f' by auto
    ultimately show ?thesis using True \<open>length bs = buffer_size\<close> unfolding range_Suc c
      by (intro exI [of _ buffer']) (auto simp del: hard_read.simps after_reads.simps)
  next
    case False
    then show ?thesis unfolding range_Suc c using r by auto
  qed
qed auto

lemma do_test_hard_run:
  assumes "read_bounded api" "length buffer = buffer_size"
  shows "do_test_hard api wrapv buffer f = Some
    (if (\<forall>i < 8192. write_complete api f i) \<and> 0 \<le> fst (bf_lseek api (after_writes api f 8192)) \<and>
        (\<forall>i < 8192. read_matches api (snd (bf_lseek api (after_writes api f 8192))) i) then 0 else 1)"
proof -
  obtain result f2 where seek: "bf_lseek api (after_writes api f 8192) = (result, f2)" by fastforce
  obtain b1 where w: "length b1 = buffer_size" "hard_write api wrapv 0 8192 buffer f =
      Some (if \<forall>i < 8192. write_complete api f i then Inr (b1, after_writes api f 8192) else Inl 1)"
    using hard_write_run [of 0 8192 buffer api wrapv f] assms(2) by (auto simp: hard_iterations cong: if_cong)
  obtain b2 where r: "hard_read api wrapv 0 8192 b1 f2 =
      Some (if \<forall>i < 8192. read_matches api f2 i then Inr (b2, after_reads api f2 8192) else Inl 1)"
    using hard_read_run [OF assms(1), of 0 8192 b1 wrapv f2] w(1) by (auto simp: hard_iterations cong: if_cong)
  show ?thesis
    using seek w r by (simp add: do_test_hard_def hard_iterations)
qed

section \<open>A device that passes\<close>

text \<open>
  A device of \<open>cap\<close> bytes that stores what is written at its position and gives it back, whose transfers are
  complete.
\<close>

locale test_device =
  fixes api :: "'f blk_file" and contents :: "'f \<Rightarrow> mem" and position :: "'f \<Rightarrow> nat" and cap :: nat
  assumes write_all: "bs \<noteq> [] \<Longrightarrow> position f + length bs \<le> cap \<Longrightarrow> \<exists>f'. bf_write api f bs = (int (length bs), f') \<and>
      contents f' = mem_write (contents f) (position f) bs \<and> position f' = position f + length bs"
    and lseek_start: "\<exists>f'. bf_lseek api f = (0, f') \<and> contents f' = contents f \<and> position f' = 0"
    and read_all: "0 < n \<Longrightarrow> position f + n \<le> cap \<Longrightarrow> \<exists>f'. bf_read api f n = (int n, mem_read (contents f) (position f) n, f') \<and>
      contents f' = contents f \<and> position f' = position f + n"
    and read_within: "read_bounded api"
begin

lemma chunk_fits: "i < 8192 \<Longrightarrow> hard_test_size \<le> cap \<Longrightarrow> buffer_size * i + buffer_size \<le> cap"
  by (simp add: hard_test_size_def buffer_size_def)

lemma chunk_nonempty: "hard_chunk i \<noteq> []" "length (hard_chunk i) = buffer_size"
  using buffer_pos by (auto simp: hard_chunk_def)

text \<open>After \<open>i\<close> writes the first \<open>i\<close> chunks are stored.\<close>

lemma after_writes_contents:
  assumes "position f = 0" "hard_test_size \<le> cap" "i \<le> 8192"
  shows "position (after_writes api f i) = buffer_size * i \<and>
    (\<forall>k < i. mem_read (contents (after_writes api f i)) (buffer_size * k) buffer_size = hard_chunk k) \<and>
    (\<forall>k < i. write_complete api f k)"
  using assms(3)
proof (induction i)
  case (Suc i)
  let ?g = "after_writes api f i"
  obtain f' where w: "bf_write api ?g (hard_chunk i) = (int buffer_size, f')"
    "contents f' = mem_write (contents ?g) (buffer_size * i) (hard_chunk i)" "position f' = buffer_size * Suc i"
    using write_all [OF chunk_nonempty(1), of ?g i] chunk_fits [of i] Suc assms(2) chunk_nonempty(2) by (auto simp: algebra_simps)
  have "mem_read (contents f') (buffer_size * k) buffer_size = hard_chunk k" if k: "k < Suc i" for k
  proof (cases "k = i")
    case True
    then show ?thesis using mem_read_write_same [of "contents ?g" "buffer_size * i" "hard_chunk i"] by (simp add: w chunk_nonempty)
  next
    case False
    then have "buffer_size * k + buffer_size \<le> buffer_size * i" using k mult_le_mono2 [of "Suc k" i buffer_size] by simp
    then show ?thesis using Suc False k by (simp add: w mem_read_write_disjoint)
  qed
  then show ?case using w Suc by (auto simp: less_Suc_eq write_complete_def)
qed (use assms(1) in simp)

lemma after_reads_position:
  assumes "position f = 0" "hard_test_size \<le> cap" "i \<le> 8192"
  shows "position (after_reads api f i) = buffer_size * i \<and> contents (after_reads api f i) = contents f"
  using assms(3)
proof (induction i)
  case (Suc i)
  then show ?case
    using read_all [OF buffer_pos, of "after_reads api f i"] chunk_fits [of i] assms(2) by (fastforce simp: algebra_simps)
qed (use assms(1) in simp)

lemma hard_test_passes:
  assumes "position f = 0" "hard_test_size \<le> cap"
  shows "(\<forall>i < 8192. write_complete api f i) \<and> 0 \<le> fst (bf_lseek api (after_writes api f 8192)) \<and>
    (\<forall>i < 8192. read_matches api (snd (bf_lseek api (after_writes api f 8192))) i)"
proof -
  let ?g = "after_writes api f 8192"
  note w = after_writes_contents [OF assms order_refl]
  obtain g where g: "bf_lseek api ?g = (0, g)" "contents g = contents ?g" "position g = 0" using lseek_start by blast
  have "read_matches api g i" if i: "i < 8192" for i
    using read_all [OF buffer_pos, of "after_reads api g i"] after_reads_position [OF g(3) assms(2), of i] chunk_fits [OF i assms(2)] w i g(2)
    by (auto simp: read_matches_def chunk_nonempty)
  then show ?thesis using w g by simp
qed

end

text \<open>
  An instance of the contract: a file whose transfers are single calls of a store's operations \<open>rd\<close> and \<open>wr\<close>
  at the file's position. The theorems below are for every file that meets the contract; how Linux turns the
  transfers of a block device's file into requests is not modelled.
\<close>

definition device_file :: "'d read_op \<Rightarrow> 'd write_op \<Rightarrow> ('d \<times> nat) blk_file" where
  "device_file rd wr = \<lparr>
     bf_write = (\<lambda>(d, pos) bs. case wr 0 (of_nat pos) (of_nat (length bs)) (mem_write (\<lambda>_. 0) 0 bs) d of
        Some (st, d') \<Rightarrow> if st = BLK_STS_OK then (int (length bs), (d', pos + length bs)) else (- 5, (d', pos))
      | None \<Rightarrow> (- 5, (d, pos))),
     bf_lseek = (\<lambda>(d, pos). (0, (d, 0))),
     bf_read = (\<lambda>(d, pos) n. case rd 0 (of_nat pos) (of_nat n) (\<lambda>_. 0) d of
        Some (st, m, d') \<Rightarrow> if st = BLK_STS_OK then (int n, mem_read m 0 n, (d', pos + n)) else (- 5, [], (d', pos))
      | None \<Rightarrow> (- 5, [], (d, pos)))\<rparr>"

context block_store
begin

lemma device_file_test:
  assumes "cap < 2 ^ 63"
  shows "test_device (device_file rd wr) (\<lambda>(d, pos). contents d) snd cap"
proof unfold_locales
  have small: "unat (of_nat n :: u64) = n" if "n \<le> cap" for n
    using that assms by (intro of_nat_inverse [OF refl]) simp
  show "\<exists>f'. bf_write (device_file rd wr) f bs = (int (length bs), f') \<and>
      (\<lambda>(d, pos). contents d) f' = mem_write ((\<lambda>(d, pos). contents d) f) (snd f) bs \<and> snd f' = snd f + length bs"
    if bs: "bs \<noteq> []" "snd f + length bs \<le> cap" for bs and f :: "'d \<times> nat"
  proof -
    have n: "unat (of_nat (length bs) :: u64) = length bs" "unat (of_nat (snd f) :: u64) = snd f" using bs(2) by (auto intro: small)
    obtain d' where "wr 0 (of_nat (snd f)) (of_nat (length bs)) (mem_write (\<lambda>_. 0) 0 bs) (fst f) = Some (BLK_STS_OK, d')"
      "contents d' = mem_write (contents (fst f)) (snd f) bs"
      using wr_ok [of "of_nat (length bs)" "of_nat (snd f)" 0 "mem_write (\<lambda>_. 0) 0 bs" "fst f"] bs n by auto
    then show ?thesis by (cases f) (simp add: device_file_def)
  qed
  show "\<exists>f'. bf_lseek (device_file rd wr) f = (0, f') \<and> (\<lambda>(d, pos). contents d) f' = (\<lambda>(d, pos). contents d) f \<and> snd f' = 0"
    for f :: "'d \<times> nat" by (cases f) (simp add: device_file_def)
  show "\<exists>f'. bf_read (device_file rd wr) f n = (int n, mem_read ((\<lambda>(d, pos). contents d) f) (snd f) n, f') \<and>
      (\<lambda>(d, pos). contents d) f' = (\<lambda>(d, pos). contents d) f \<and> snd f' = snd f + n"
    if n: "0 < n" "snd f + n \<le> cap" for n and f :: "'d \<times> nat"
  proof -
    have u: "unat (of_nat n :: u64) = n" "unat (of_nat (snd f) :: u64) = snd f" using n(2) by (auto intro: small)
    then have "rd 0 (of_nat (snd f)) (of_nat n) (\<lambda>_. 0) (fst f) =
        Some (BLK_STS_OK, mem_write (\<lambda>_. 0) 0 (mem_read (contents (fst f)) (snd f) n), fst f)"
      using rd_ok [of "of_nat n" "of_nat (snd f)" 0 "\<lambda>_. 0" "fst f"] n by simp
    moreover have "mem_read (mem_write (\<lambda>_. 0) 0 (mem_read m a n)) 0 n = mem_read m a n" for m a
      using mem_read_write_same [of "\<lambda>_. 0" 0 "mem_read m a n"] by simp
    ultimately show ?thesis by (cases f) (simp add: device_file_def)
  qed
  show "read_bounded (device_file rd wr)" by (auto simp: read_bounded_def device_file_def split: prod.splits option.splits)
qed

end

interpretation ramdisk_file: test_device "device_file ramdisk_read ramdisk_write" "\<lambda>(d, pos). d" snd RAMDISK_SIZE
  by (rule ramdisk.device_file_test) (simp add: RAMDISK_SIZE_def)

section \<open>Theorems\<close>

text \<open>
  C27. The hard test is a complete check. It returns for every device whose \<^verbatim>\<open>read\<close> keeps to its promise,
  with zero exactly when all 8192 writes of 128 KiB and the seek succeed and every byte that was read back
  is the byte of the pattern that was written, and with one otherwise; its arithmetic never overflows.
\<close>

theorem hard_test_verdict:
  assumes "read_bounded api" "length buffer = buffer_size"
  shows "do_test_hard api wrapv buffer f = Some
    (if (\<forall>i < 8192. write_complete api f i) \<and> 0 \<le> fst (bf_lseek api (after_writes api f 8192)) \<and>
        (\<forall>i < 8192. read_matches api (snd (bf_lseek api (after_writes api f 8192))) i) then 0 else 1)"
  by (rule do_test_hard_run [OF assms])

text \<open>A device that accepts every write and reads zeros is found out.\<close>

definition zero_device :: "unit blk_file" where
  "zero_device = \<lparr>bf_write = (\<lambda>f bs. (int (length bs), f)), bf_lseek = (\<lambda>f. (0, f)), bf_read = (\<lambda>f n. (int n, replicate n 0, f))\<rparr>"

theorem hard_test_verdict_witness:
  "do_test_hard zero_device False (replicate buffer_size 0) () = Some 1"
proof -
  have "read_bounded zero_device" by (simp add: read_bounded_def zero_device_def)
  moreover have "\<not> read_matches zero_device f 0" for f
  proof
    assume "read_matches zero_device f 0"
    then have "replicate buffer_size 0 ! 1 = hard_chunk 0 ! 1" by (simp add: read_matches_def zero_device_def)
    then show False by (simp add: hard_chunk_def hard_pattern_def nth_append buffer_size_def)
  qed
  ultimately show ?thesis using hard_test_verdict [of zero_device "replicate buffer_size 0" False "()"] by fastforce
qed

text \<open>
  C28. A working device passes the hard test. On any file of at least 1 GiB, opened at its start, that stores
  what is written and gives it back with complete transfers, the program with the argument \<^verbatim>\<open>--hard\<close> returns
  zero, whatever the device and the buffer contained.
\<close>

theorem working_device_passes_hard_test:
  assumes "test_device api contents position cap" "hard_test_size \<le> cap" "length buffer = buffer_size"
    and "open_device path = Some f" "position f = 0"
  shows "blktest_main api wrapv open_device (Some buffer) [program, path, ''--hard''] = Some 0"
proof -
  from test_device.hard_test_passes [OF assms(1,5,2)] have "do_test_hard api wrapv buffer f = Some 0"
    using do_test_hard_run [OF test_device.read_within [OF assms(1)] assms(3), of wrapv f] by simp
  then show ?thesis using assms(4) by (simp add: blktest_main_def)
qed

theorem working_device_passes_hard_test_witness:
  "blktest_main (device_file ramdisk_read ramdisk_write) False (\<lambda>path. Some (ramdisk_initial, 0)) (Some (replicate buffer_size 0))
    [''blktest'', ''/dev/ramdisk'', ''--hard''] = Some 0"
  by (rule working_device_passes_hard_test [OF ramdisk_file.test_device_axioms, where f = "(ramdisk_initial, 0)"]) (simp_all add: hard_test_size_def RAMDISK_SIZE_def)


end
