(* ===== verification/Spec2Isabelle.thy ===== *)
theory Spec2Isabelle
  imports Bius_Kernel_Claims Bius_Zoned_Claims Bius_Library_Claims Bius_Queue_Claims Bius_Mapping_Claims
    Bius_Startup_Claims Bius_Blktest
begin

text \<open>
  BIUS: block devices in user space. A verification of the kernel module, of the user library and of
  the programs that come with it.

  \<^bold>\<open>The program.\<close> The kernel module (src/kernel) registers a character device \<^verbatim>\<open>/dev/bius\<close> and, for
  every device a process asks for, a block device. A request of the block layer enters by
  \<open>bius_queue_rq\<close> (block_dev.c) and is put on the pending list of its device. A thread of the user process
  has an open file of \<^verbatim>\<open>/dev/bius\<close>, a connection; its \<^verbatim>\<open>read\<close> (char_dev.c, command.h) takes the
  oldest pending request, copies a header and, for a write, the data to the process and moves the request to
  the connection's waiting list. Its \<^verbatim>\<open>write\<close> of a reply with the request's identifier ends the request
  towards the block layer, after copying the data of a read back. With \<^verbatim>\<open>CONFIG_BIUS_DATAMAP\<close> the
  pages of a request are mapped into the process instead of being copied (data_mapping.c). Closing a
  connection ends what it holds. The library (src/library/libbius.c) creates the device with its first
  connection and joins it with further ones, one per thread, and each thread runs a loop that reads a
  command, calls the operation of the program for it and writes the reply. The example programs (src/examples)
  are a ramdisk and a passthrough to a file, each also behind an emulation of a zoned device
  (zoned-common.h), and a tool that tests a block device (blktest.c).

  \<^bold>\<open>Conventions.\<close> Objects of the kernel live in an explicit store, a \<open>kstate\<close>, under their address;
  the lists of the code (\<^verbatim>\<open>list_head\<close>) are lists of addresses. Memory is a function from addresses to
  bytes. Undefined behaviour (a null or dangling pointer, an index outside an array, the wrong part of a
  union, a signed overflow) is the value \<open>None\<close>, so that a theorem that says \<open>Some\<close> says that the code
  does not run into it. Error numbers are negative \<open>int\<close>s as in the code. A call that would sleep is
  \<open>Blocked\<close>. Machine integers keep their width (\<open>u32\<close>, \<open>u64\<close>) where the code's values may wrap or are
  compared as unsigned numbers. What the code calls outside the repository (the bio iterator, user copies,
  allocation and registration, \<^verbatim>\<open>pread\<close>, \<^verbatim>\<open>pwrite\<close>, \<^verbatim>\<open>mmap\<close>, \<^verbatim>\<open>pthread_create\<close>) is a
  parameter; what the code relies on is a predicate or a locale on the parameter, and each has an instance.

  \<^bold>\<open>Theories: shared.\<close>
  \<^item> \<open>Bius_Prelude\<close>: machine types, lemma collections, byte ranges and lists. \<open>Bius_Types\<close>: the interface
    headers of src/include/bius (opcodes, status codes, headers, options, sizes) and the kernel's objects.

  \<^bold>\<open>Theories: the kernel module.\<close>
  \<^item> \<open>Bius_Request\<close> (request.h, connection.h, block_dev.h), \<open>Bius_Command\<close> (command.h),
    \<open>Bius_Data_Mapping\<close> (data_mapping.c), \<open>Bius_Block_Dev\<close> (block_dev.c), \<open>Bius_Char_Dev\<close> (char_dev.c
    and main.c): one definition per function, in the order of the sources. Each definition has the
    function's name.
  \<^item> \<open>Bius_Lifecycle\<close>: the abstract specification, a state machine \<open>life_step\<close> in which a request is
    pending at a device, waiting at a connection or answered. \<open>Bius_Invariant\<close>: the invariant \<open>kinv\<close> on a
    view of the state. \<open>Bius_Driver\<close>, \<open>Bius_Kernel\<close>: every entry point keeps the invariant and refines
    the state machine; \<open>kstep\<close> is one call of any entry point by anyone, \<open>krun\<close> any sequence of them.
    A step is atomic: the module's locks cover the list operations, and the interleavings between them that
    the code allows are those of whole entry points (a read that finds no request sleeps without changing
    the state; a zone report, which sleeps between its two halves, is two steps).
  \<^item> \<open>Bius_Scenario\<close>: the bio iterator \<open>seg_api\<close> over lists of segments, and concrete states reached by
    concrete calls, on which the theorems are instantiated.
  \<^item> \<open>Bius_Kernel_Properties\<close>, \<open>Bius_Kernel_Claims\<close>: every block request is answered exactly once
    or is in flight; the invariant; the refinement; which request a read takes and a reply answers, and with
    which data; replies that match nothing; closing; zone reports; creation and its error paths; and the
    places where the module leaves what it means to do.
  \<^item> \<open>Bius_Mapping\<close>, \<open>Bius_Mapping_Read\<close>, \<open>Bius_Mapping_Claims\<close>: the mapped transfer. The process finds
    the data of a request at the addresses it is told of, unmapping leaves zero pages only, and the data of
    a read in one range reaches the request; for a second range it need not.

  \<^bold>\<open>Theories: the user side.\<close>
  \<^item> \<open>Bius_Backend\<close>: the table of operations (libbius.h), the ramdisk and the passthrough. The locale
    \<open>block_store\<close> is the contract of a store (what is written is read back, other bytes stay); the ramdisk
    interprets it, and \<open>regular_file\<close>, the documented behaviour of \<^verbatim>\<open>pread\<close> and \<^verbatim>\<open>pwrite\<close> with
    short transfers, is a sublocale of it through the passthrough's loops.
  \<^item> \<open>Bius_Zoned\<close> (zoned-common.h and the two zoned programs), \<open>Bius_Zoned_Invariant\<close>,
    \<open>Bius_Zoned_Properties\<close>, \<open>Bius_Zoned_Claims\<close>: the zone operations, the invariant of the zone tables
    (limits, exact counters, layout, write pointers) over all sequences of operations, round trips,
    refusals and resets. The locale \<open>zoned_device\<close> extends \<open>block_store\<close>; both zoned programs interpret it.
  \<^item> \<open>Bius_Library\<close> (libbius.c), \<open>Bius_Library_Properties\<close>, \<open>Bius_Library_Claims\<close>: the messages, the
    loop of a thread, commands on lists of segments, \<open>bius_main\<close>. The locale \<open>byte_stream\<close> is what the
    assembly of a write's data needs of the descriptor.
  \<^item> \<open>Bius_Programs\<close>, \<open>Bius_Startup_Claims\<close>: the \<^verbatim>\<open>main\<close> functions of the four programs, and that
    they come up serving a new disk. \<open>Bius_Blktest\<close>: the test tool, its verdict on any device, and that
    the ramdisk passes.

  \<^bold>\<open>Theories: the whole.\<close>
  \<^item> \<open>Bius_System\<close>, \<open>Bius_System_Claims\<close>, \<open>Bius_Queue_Claims\<close>: the module behind the library's
    descriptor (\<open>kernel_fd\<close>, without data mapping). The locale \<open>kernel_services\<close> is the contract of
    the bio iterator, and a connection of the module is shown to be a \<open>byte_stream\<close>; \<open>served_store\<close>
    puts it together with a \<open>block_store\<close>. Writes, reads and zone appends go the whole way from the
    block layer to the store and back, and serving a queue of requests does what a sequential disk would do.

  \<^bold>\<open>Bounds and fuel.\<close> Loops of the code are functions with a termination proof wherever they end. The
  endless loop of a thread, \<open>serve\<close>, is given its number of turns; the theorems on it say what the state is
  after any number of turns that there are requests for. The loop over a list of segments,
  \<open>datamap_loop\<close>, ends at the list's terminator or is undefined once its index leaves the address space
  (\<open>2 ^ 30\<close> entries of 16 bytes are beyond every mapped list). The list the module writes fits the two reserved
  pages (\<open>MAPPING_LIST_WORDS\<close>) for the at most 256 segments a request may have, which is the limit
  the module sets for its queues. The copies are bounded by the request's length, and lengths are below
  what the block layer's limits admit.

  \<^bold>\<open>Not modelled.\<close> The debug output and the \<open>min\<close> macro (the three utils.h), prototypes, and the
  macros that register the module (licence, author). Spinlocks and wait queues have no state of their own: a
  lock makes its section one step, and waking shows as the woken flag of a zone report. Cache and TLB flushes
  and page-table locks have no effect in the model, because the page-table entries are a map that the
  process's accesses read directly. Text that a program prints is left out except for the totals of the zoned
  programs' interrupt handler. The scheduler is not modelled, so that no theorem says that a thread will
  call the module; the theorems say what its calls do. The data-mapped build has no theorem on the whole
  path through the library: its parts are the theorems of \<open>Bius_Mapping_Claims\<close> on the module's side and
  those of \<open>Bius_Library_Claims\<close> on commands over lists of segments on the library's side.
\<close>

end
